(* ===== verification/Overload_Prelude.thy ===== *)
theory Overload_Prelude
  imports
    Main
    "HOL-Library.Word"
    "HOL-Library.Multiset"
    "HOL-Library.Char_ord"
    "HOL-Library.List_Lexorder"
    "HOL-Library.Code_Target_Nat"
begin

text \<open>
  Shared material of the development: the names of the machine types the program uses, the
  arithmetic of a release build (unsigned operations wrap around, casts saturate or truncate),
  the two or three list facts every component needs, and the collections of rewrite rules the
  component theories extend.

  A Rust \<open>Result<T, E>\<close> is the sum type \<open>'e + 'a\<close> with the error on the left; a
  Rust \<open>Option\<close> is \<open>'a option\<close>; a \<open>Vec\<close> or \<open>VecDeque\<close> is a list whose head
  is the front. A \<open>u32\<close> is a 32-bit word where the code computes with it, and a
  natural number below \<open>2 ^ 32\<close> where it only counts; \<open>usize\<close> is a natural number and
  its subtraction is \<open>usize_sub\<close> below, which wraps as the compiled program does.
\<close>

section \<open>Machine integers\<close>

type_synonym u8 = "8 word"
type_synonym u16 = "16 word"
type_synonym u32 = "32 word"
type_synonym usize = nat
type_synonym u64 = nat
type_synonym i64 = int
type_synonym i32 = int
type_synonym f64 = "int \<times> int"

abbreviation u32_max :: nat where
  "u32_max \<equiv> 2 ^ 32 - 1"

abbreviation i32_max :: int where
  "i32_max \<equiv> 2 ^ 31 - 1"

abbreviation u64_max :: nat where
  "u64_max \<equiv> 2 ^ 64 - 1"

definition usize_sub :: "usize \<Rightarrow> usize \<Rightarrow> usize" where
  "usize_sub a b = (if b \<le> a then a - b else a + 2 ^ 64 - b)"

definition u64_saturating_add :: "u64 \<Rightarrow> u64 \<Rightarrow> u64" where
  "u64_saturating_add a b = min (a + b) u64_max"

definition i32_try_into_or_max :: "nat \<Rightarrow> i32" where
  "i32_try_into_or_max n = (if int n \<le> i32_max then int n else i32_max)"

definition i64_as_usize :: "i64 \<Rightarrow> usize" where
  "i64_as_usize i = nat (i mod 2 ^ 64)"

definition i32_wrap :: "int \<Rightarrow> i32" where
  "i32_wrap i = (i + 2 ^ 31) mod 2 ^ 32 - 2 ^ 31"

section \<open>Slices and vectors\<close>

definition vec_get :: "'a list \<Rightarrow> usize \<Rightarrow> 'a option" where
  "vec_get xs i = (if i < length xs then Some (xs ! i) else None)"

definition vec_last :: "'a list \<Rightarrow> 'a option" where
  "vec_last xs = (if xs = [] then None else Some (last xs))"

section \<open>Results\<close>

text \<open>\<open>Result::and_then\<close>, which is also the \<open>?\<close> operator.\<close>

definition and_then :: "'e + 'a \<Rightarrow> ('a \<Rightarrow> 'e + 'b) \<Rightarrow> 'e + 'b" where
  "and_then r f = (case r of Inl e \<Rightarrow> Inl e | Inr a \<Rightarrow> f a)"

definition ok_or :: "'e \<Rightarrow> 'a option \<Rightarrow> 'e + 'a" where
  "ok_or e x = (case x of None \<Rightarrow> Inl e | Some a \<Rightarrow> Inr a)"

section \<open>Rewrite collections\<close>

named_theorems rust_arith \<open>arithmetic of the machine integers inside their range\<close>
named_theorems pool_rules \<open>effect of the connection pool operations on the pool's counters\<close>
named_theorems store_rules \<open>lookups after updates of the program's keyed stores\<close>

section \<open>Facts about the machine integers\<close>

lemma usize_sub_exact [simp, rust_arith]: "b \<le> a \<Longrightarrow> usize_sub a b = a - b"
  by (simp add: usize_sub_def)

lemma usize_sub_wraps [rust_arith]: "a < b \<Longrightarrow> usize_sub a b = a + 2 ^ 64 - b"
  by (simp add: usize_sub_def)

lemma u64_saturating_add_le [simp]: "u64_saturating_add a b \<le> u64_max"
  by (simp add: u64_saturating_add_def)

lemma u64_saturating_add_ge: "a \<le> u64_max \<Longrightarrow> a \<le> u64_saturating_add a b"
  by (simp add: u64_saturating_add_def)

lemma i32_try_into_or_max_bounds [simp]:
  "0 < n \<Longrightarrow> 1 \<le> i32_try_into_or_max n"
  "i32_try_into_or_max n \<le> i32_max"
  "0 \<le> i32_try_into_or_max n"
  by (auto simp: i32_try_into_or_max_def)

lemma i64_as_usize_exact [simp, rust_arith]: "0 \<le> i \<Longrightarrow> i < 2 ^ 64 \<Longrightarrow> i64_as_usize i = nat i"
  by (simp add: i64_as_usize_def)

lemma i32_wrap_exact [simp, rust_arith]: "- (2 ^ 31) \<le> i \<Longrightarrow> i < 2 ^ 31 \<Longrightarrow> i32_wrap i = i"
  by (simp add: i32_wrap_def)

lemma unat_add_one_u32: "unat (w :: u32) < u32_max \<Longrightarrow> unat (w + 1) = unat w + 1"
  by (simp add: unat_word_ariths)

lemma u32_less_imp_not_max: "(v :: u32) < w \<Longrightarrow> unat v < u32_max"
  using unsigned_less [where ?'b = 32 and ?'a = nat, of w] by (simp add: word_less_nat_alt)

section \<open>Facts about lists\<close>

lemma vec_get_Some_iff: "vec_get xs i = Some x \<longleftrightarrow> i < length xs \<and> x = xs ! i"
  by (auto simp: vec_get_def)

lemma vec_get_None_iff: "vec_get xs i = None \<longleftrightarrow> length xs \<le> i"
  by (auto simp: vec_get_def)

lemma vec_last_Some_iff: "vec_last xs = Some x \<longleftrightarrow> xs \<noteq> [] \<and> x = last xs"
  by (auto simp: vec_last_def)

lemma and_then_simps [simp]: "and_then (Inl e) f = Inl e" "and_then (Inr a) f = f a"
  by (simp_all add: and_then_def)

lemma and_then_Inr_iff: "and_then r f = Inr b \<longleftrightarrow> (\<exists>a. r = Inr a \<and> f a = Inr b)"
  by (cases r) auto

lemma map_sum_Inl_iff: "map_sum f g x = Inl e \<longleftrightarrow> (\<exists>a. x = Inl a \<and> e = f a)"
  by (cases x) auto

lemma and_then_Inl_iff: "and_then r f = Inl e \<longleftrightarrow> r = Inl e \<or> (\<exists>a. r = Inr a \<and> f a = Inl e)"
  by (cases r) auto

lemma and_then_cong [fundef_cong]:
  "r = r' \<Longrightarrow> (\<And>a. r' = Inr a \<Longrightarrow> f a = f' a) \<Longrightarrow> and_then r f = and_then r' f'"
  by (cases r') auto

lemma ok_or_simps [simp]: "ok_or e None = Inl e" "ok_or e (Some a) = Inr a"
  by (simp_all add: ok_or_def)

lemma ok_or_Inr_iff: "ok_or e x = Inr a \<longleftrightarrow> x = Some a"
  by (cases x) auto

lemma split_at_first:
  "c \<notin> set xs \<Longrightarrow> takeWhile (\<lambda>x. x \<noteq> c) (xs @ c # ys) = xs \<and> dropWhile (\<lambda>x. x \<noteq> c) (xs @ c # ys) = c # ys"
  by (induction xs) auto

lemma distinct_submset: "mset xs \<subseteq># mset ys \<Longrightarrow> distinct ys \<Longrightarrow> distinct xs"
  by (metis mset_subset_eq_exists_conv ex_mset mset_append mset_eq_imp_distinct_iff distinct_append)

lemma distinct_map_submset:
  "mset xs \<subseteq># mset ys \<Longrightarrow> distinct (map f ys) \<Longrightarrow> distinct (map f xs)"
  by (metis distinct_submset image_mset_subseteq_mono mset_map)

section \<open>Invariants of step relations\<close>

text \<open>The contract between a step relation and an invariant: it holds in every initial
  state and every step keeps it. Every state reached from an initial one then satisfies it.\<close>

locale step_invariant =
  fixes step :: "'s \<Rightarrow> 's \<Rightarrow> bool"
    and initial :: "'s \<Rightarrow> bool"
    and inv :: "'s \<Rightarrow> bool"
  assumes initial_inv: "initial s \<Longrightarrow> inv s"
    and step_inv: "inv s \<Longrightarrow> step s t \<Longrightarrow> inv t"
begin

lemma reachable_inv: "initial s \<Longrightarrow> step\<^sup>*\<^sup>* s t \<Longrightarrow> inv t"
  by (rotate_tac 1, induction rule: rtranclp_induct) (auto intro: initial_inv step_inv)

end

end
