(* ===== verification/Float32.thy ===== *)
theory Float32
  imports Overload_Prelude
begin

text \<open>
  The part of IEEE binary32 arithmetic the rate specifications use: conversion of a \<open>u32\<close>,
  multiplication rounded to nearest with ties to even, \<open>ceil\<close>, and the saturating cast back to
  \<open>u32\<close>. A finite value \<open>Fin m e\<close> stands for \<open>m * 2 ^ e\<close>; the significand is kept below
  \<open>2 ^ 24\<close> in magnitude and the exponent above \<open>-149\<close> by \<open>f32_round\<close>. The sign of a zero and
  the payload of a NaN play no part in the program and are left out.
\<close>

datatype f32 = Fin int int | Infinite bool | NaN

fun nbits :: "nat \<Rightarrow> nat" where
  "nbits n = (if n = 0 then 0 else Suc (nbits (n div 2)))"

declare nbits.simps [simp del]

definition rne_shift :: "nat \<Rightarrow> nat \<Rightarrow> nat" where
  "rne_shift m s =
     (let q = m div 2 ^ s; r = m mod 2 ^ s
      in if s = 0 then m
         else if 2 * r < 2 ^ s then q
         else if 2 ^ s < 2 * r then q + 1
         else if even q then q else q + 1)"

definition f32_round :: "int \<Rightarrow> int \<Rightarrow> f32" where
  "f32_round m e =
     (let a = nat \<bar>m\<bar>;
          s = max (nbits a - 24) (nat (- 149 - e));
          a' = rne_shift a s;
          e' = e + int s
      in if 128 < int (nbits a') + e' then Infinite (0 \<le> m) else Fin (sgn m * int a') e')"

definition f32_of_u32 :: "u32 \<Rightarrow> f32" where
  "f32_of_u32 n = f32_round (uint n) 0"

fun f32_mult :: "f32 \<Rightarrow> f32 \<Rightarrow> f32" where
  "f32_mult (Fin m e) (Fin n f) = f32_round (m * n) (e + f)"
| "f32_mult (Infinite p) (Fin n f) = (if n = 0 then NaN else Infinite (p = (0 < n)))"
| "f32_mult (Fin m e) (Infinite p) = (if m = 0 then NaN else Infinite (p = (0 < m)))"
| "f32_mult (Infinite p) (Infinite q) = Infinite (p = q)"
| "f32_mult NaN _ = NaN"
| "f32_mult _ NaN = NaN"

definition ceil_scaled :: "int \<Rightarrow> int \<Rightarrow> int" where
  "ceil_scaled m e = (if 0 \<le> e then m * 2 ^ nat e else - ((- m) div 2 ^ nat (- e)))"

definition u32_saturate :: "int \<Rightarrow> u32" where
  "u32_saturate i = word_of_int (max 0 (min (2 ^ 32 - 1) i))"

fun f32_ceil_as_u32 :: "f32 \<Rightarrow> u32" where
  "f32_ceil_as_u32 (Fin m e) = u32_saturate (ceil_scaled m e)"
| "f32_ceil_as_u32 (Infinite p) = (if p then u32_saturate (2 ^ 32) else 0)"
| "f32_ceil_as_u32 NaN = 0"

section \<open>Rounding is exact on significands of at most 24 bits\<close>

lemma nbits_zero [simp]: "nbits 0 = 0"
  by (simp add: nbits.simps)

lemma nbits_le: "n < 2 ^ k \<Longrightarrow> nbits n \<le> k"
proof (induction n arbitrary: k rule: nbits.induct)
  case (1 n)
  show ?case
  proof (cases "n = 0")
    case False
    with "1.prems" obtain k' where k: "k = Suc k'" by (cases k) auto
    with "1.prems" have "n div 2 < 2 ^ k'" by auto
    with "1.IH" False have "nbits (n div 2) \<le> k'" by blast
    with False k show ?thesis by (simp add: nbits.simps [of n])
  qed simp
qed

lemma rne_shift_0 [simp]: "rne_shift m 0 = m"
  by (simp add: rne_shift_def)

lemma f32_round_exact:
  assumes "\<bar>m\<bar> < 2 ^ 24" and "- 149 \<le> e" and "e \<le> 104"
  shows "f32_round m e = Fin m e"
proof -
  have "nat \<bar>m\<bar> < 2 ^ 24" using assms(1) by (simp add: nat_less_iff)
  then have n: "nbits (nat \<bar>m\<bar>) \<le> 24" by (rule nbits_le)
  then show ?thesis using assms(2,3) by (simp add: f32_round_def Let_def sgn_if)
qed

lemma f32_of_u32_exact: "unat n < 2 ^ 24 \<Longrightarrow> f32_of_u32 n = Fin (uint n) 0"
proof -
  assume "unat n < 2 ^ 24"
  then have "int (unat n) < int (2 ^ 24)" by (subst of_nat_less_iff)
  then have "\<bar>uint n\<bar> < 2 ^ 24" by simp
  then show ?thesis by (simp add: f32_of_u32_def f32_round_exact)
qed

lemma f32_mult_exact:
  assumes "\<bar>m * uint n\<bar> < 2 ^ 24" and "unat n < 2 ^ 24" and "- 149 \<le> e" and "e \<le> 104"
  shows "f32_mult (Fin m e) (f32_of_u32 n) = Fin (m * uint n) e"
  using assms by (simp add: f32_of_u32_exact f32_round_exact)

lemma uint_u32_saturate: "uint (u32_saturate i) = max 0 (min (2 ^ 32 - 1) i)"
proof -
  have "max 0 (min (2 ^ 32 - 1) i) mod 2 ^ 32 = max 0 (min (2 ^ 32 - 1) i)"
    by (rule mod_pos_pos_trivial) auto
  then show ?thesis by (simp add: u32_saturate_def uint_word_of_int)
qed

lemma unat_u32_saturate_small: "0 \<le> i \<Longrightarrow> i < 2 ^ 32 \<Longrightarrow> unat (u32_saturate i) = nat i"
  using uint_u32_saturate [of i] by (simp add: unat_eq_nat_uint)

lemma ceil_scaled_nonneg: "0 \<le> m \<Longrightarrow> 0 \<le> ceil_scaled m e"
  by (auto simp: ceil_scaled_def div_nonpos_pos_le0)

end
