(* ===== verification/Rate_Spec.thy ===== *)
theory Rate_Spec
  imports Float32
begin

text \<open>
  Rate specifications: the data of \<open>overload-http/src/rate_spec.rs\<close> with the validation that
  deserialisation runs, and the \<open>RateScheme\<close> implementations of
  \<open>cluster-executor/src/rate_spec.rs\<close>, which give the rate for the \<open>nth\<close> second of a test.
  The lemmas show that a \<open>Steps\<close> specification that passes validation, asked for the seconds
  0, 1, 2, \<dots> in turn, returns the rate of the step that holds each second although it only
  ever looks one step ahead; that every scheme stays below its cap; and where the linear scheme
  agrees with \<open>ceil (a x + b)\<close> and where its 32-bit sum wraps.
\<close>

section \<open>Data\<close>

record constant_rate =
  cr_count_per_sec :: u32

record array_spec =
  as_count_per_sec :: "u32 list"

record bounded =
  bd_max :: u32

record elastic_spec =
  el_max :: u32

record linear =
  ln_a :: f32
  ln_b :: u32
  ln_max :: u32

record step =
  st_start :: u32
  st_end :: u32
  st_rate :: u32

record steps =
  current_step :: usize
  steps_of :: "step list"

record step_shadow =
  sh_start :: u32
  sh_end :: u32
  sh_rate :: u32

definition bounded_default :: bounded where
  "bounded_default = \<lparr>bd_max = 500\<rparr>"

definition elastic_default :: elastic_spec where
  "elastic_default = \<lparr>el_max = 65535\<rparr>"

section \<open>Validation of steps\<close>

datatype rate_error =
    StartNotBeforeEnd u32 u32
  | NoSteps
  | SingleStep
  | NotFromZero u32
  | NotContinuous u32 u32 u32

definition step_try_from :: "step_shadow \<Rightarrow> rate_error + step" where
  "step_try_from v =
     (if sh_end v \<le> sh_start v then Inl (StartNotBeforeEnd (sh_start v) (sh_end v))
      else Inr \<lparr>st_start = sh_start v, st_end = sh_end v, st_rate = sh_rate v\<rparr>)"

fun check_continuity :: "u32 \<Rightarrow> step list \<Rightarrow> rate_error + unit" where
  "check_continuity prev [] = Inr ()"
| "check_continuity prev (current # iter) =
     (if prev + 1 \<noteq> st_start current
      then Inl (NotContinuous prev (prev + 1) (st_start current))
      else check_continuity (st_end current) iter)"

definition steps_try_from :: "step list \<Rightarrow> rate_error + steps" where
  "steps_try_from value =
     (if value = [] then Inl NoSteps
      else if length value = 1 then Inl SingleStep
      else let ss = sort_key st_start value; first = hd ss
        in if st_start first \<noteq> 0 then Inl (NotFromZero (st_start first))
           else case check_continuity (st_end first) (tl ss) of
               Inl e \<Rightarrow> Inl e
             | Inr _ \<Rightarrow> Inr \<lparr>current_step = 0, steps_of = ss\<rparr>)"

fun step_list_from :: "step_shadow list \<Rightarrow> rate_error + step list" where
  "step_list_from [] = Inr []"
| "step_list_from (v # vs) =
     (case step_try_from v of Inl e \<Rightarrow> Inl e
      | Inr s \<Rightarrow> (case step_list_from vs of Inl e \<Rightarrow> Inl e | Inr ss \<Rightarrow> Inr (s # ss)))"

definition steps_deserialize :: "step_shadow list \<Rightarrow> rate_error + steps" where
  "steps_deserialize vs = (case step_list_from vs of Inl e \<Rightarrow> Inl e | Inr ss \<Rightarrow> steps_try_from ss)"

section \<open>The rate schemes\<close>

definition constant_rate_next :: "constant_rate \<Rightarrow> u32 \<Rightarrow> u32 option \<Rightarrow> u32 \<times> constant_rate" where
  "constant_rate_next r n last_qps = (cr_count_per_sec r, r)"

definition array_spec_next :: "array_spec \<Rightarrow> u32 \<Rightarrow> u32 option \<Rightarrow> u32 \<times> array_spec" where
  "array_spec_next r n last_qps =
     (let len = length (as_count_per_sec r)
      in if len \<noteq> 0 then (as_count_per_sec r ! (unat n mod len), r) else (0, r))"

definition bounded_next :: "bounded \<Rightarrow> u32 \<Rightarrow> u32 option \<Rightarrow> u32 \<times> bounded" where
  "bounded_next r n last_qps = (bd_max r, r)"

definition linear_next :: "linear \<Rightarrow> u32 \<Rightarrow> u32 option \<Rightarrow> u32 \<times> linear" where
  "linear_next r n last_qps =
     (min (f32_ceil_as_u32 (f32_mult (ln_a r) (f32_of_u32 n)) + ln_b r) (ln_max r), r)"

definition steps_next :: "steps \<Rightarrow> u32 \<Rightarrow> u32 option \<Rightarrow> u32 \<times> steps" where
  "steps_next r n last_qps =
     (let x = (case vec_get (steps_of r) (current_step r) of
                 Some step \<Rightarrow>
                   (if st_start step \<le> n \<and> n \<le> st_end step then (st_rate step, False)
                    else (case vec_get (steps_of r) (current_step r + 1) of
                        None \<Rightarrow> ((case vec_last (steps_of r) of None \<Rightarrow> 0 | Some s \<Rightarrow> st_rate s), False)
                      | Some s \<Rightarrow> (st_rate s, True)))
               | None \<Rightarrow> (0, False))
      in (fst x, if snd x then r\<lparr>current_step := current_step r + 1\<rparr> else r))"

definition elastic_next :: "elastic_spec \<Rightarrow> u32 \<Rightarrow> u32 option \<Rightarrow> u32 \<times> elastic_spec" where
  "elastic_next r n last_qps = (0, r)"

text \<open>A \<open>Box<dyn RateScheme>\<close> is one of the implementing types with its state.\<close>

datatype rate_scheme =
    ConstantScheme constant_rate
  | ArrayScheme array_spec
  | BoundedScheme bounded
  | LinearScheme linear
  | StepsScheme steps
  | ElasticScheme elastic_spec

fun scheme_next :: "rate_scheme \<Rightarrow> u32 \<Rightarrow> u32 option \<Rightarrow> u32 \<times> rate_scheme" where
  "scheme_next (ConstantScheme r) n l = map_prod id ConstantScheme (constant_rate_next r n l)"
| "scheme_next (ArrayScheme r) n l = map_prod id ArrayScheme (array_spec_next r n l)"
| "scheme_next (BoundedScheme r) n l = map_prod id BoundedScheme (bounded_next r n l)"
| "scheme_next (LinearScheme r) n l = map_prod id LinearScheme (linear_next r n l)"
| "scheme_next (StepsScheme r) n l = map_prod id StepsScheme (steps_next r n l)"
| "scheme_next (ElasticScheme r) n l = map_prod id ElasticScheme (elastic_next r n l)"

section \<open>Reference definitions\<close>

text \<open>Calling \<open>next\<close> for a sequence of seconds, without a previous rate, as the generator does.\<close>

fun scheme_run :: "('s \<Rightarrow> u32 \<Rightarrow> u32 option \<Rightarrow> u32 \<times> 's) \<Rightarrow> 's \<Rightarrow> u32 list \<Rightarrow> u32 list \<times> 's" where
  "scheme_run f s [] = ([], s)"
| "scheme_run f s (n # ns) =
     (let (q, s') = f s n None; (qs, s'') = scheme_run f s' ns in (q # qs, s''))"

definition in_step :: "u32 \<Rightarrow> step \<Rightarrow> bool" where
  "in_step n s \<longleftrightarrow> st_start s \<le> n \<and> n \<le> st_end s"

definition step_rate_at :: "step list \<Rightarrow> u32 \<Rightarrow> u32" where
  "step_rate_at ss n =
     (case find (in_step n) ss of Some s \<Rightarrow> st_rate s | None \<Rightarrow> st_rate (last ss))"

definition contiguous_steps :: "step list \<Rightarrow> bool" where
  "contiguous_steps ss \<longleftrightarrow> (\<forall>i. Suc i < length ss \<longrightarrow> st_end (ss ! i) + 1 = st_start (ss ! Suc i))"

definition valid_steps :: "step list \<Rightarrow> bool" where
  "valid_steps ss \<longleftrightarrow> 2 \<le> length ss \<and> st_start (hd ss) = 0
     \<and> list_all (\<lambda>s. st_start s < st_end s) ss \<and> contiguous_steps ss"

fun max_rate :: "u32 list \<Rightarrow> u32" where
  "max_rate [] = 0"
| "max_rate (x # xs) = max x (max_rate xs)"

fun scheme_cap :: "rate_scheme \<Rightarrow> u32" where
  "scheme_cap (ConstantScheme r) = cr_count_per_sec r"
| "scheme_cap (ArrayScheme r) = max_rate (as_count_per_sec r)"
| "scheme_cap (BoundedScheme r) = bd_max r"
| "scheme_cap (LinearScheme r) = ln_max r"
| "scheme_cap (StepsScheme r) = max_rate (map st_rate (steps_of r))"
| "scheme_cap (ElasticScheme r) = 0"

section \<open>The interface of a rate scheme\<close>

text \<open>What the generator relies on: a scheme has a cap that its calls never exceed or change.\<close>

locale capped_scheme =
  fixes rate_next :: "'s \<Rightarrow> u32 \<Rightarrow> u32 option \<Rightarrow> u32 \<times> 's"
    and cap :: "'s \<Rightarrow> u32"
  assumes next_le: "fst (rate_next s n l) \<le> cap s"
    and next_cap: "cap (snd (rate_next s n l)) = cap s"
begin

lemma run_le: "q \<in> set (fst (scheme_run rate_next s ns)) \<Longrightarrow> q \<le> cap s"
proof (induction ns arbitrary: s)
  case (Cons n ns)
  then show ?case
    using next_le [of s n None] next_cap [of s n None]
    by (auto simp: case_prod_beta Let_def) metis
qed simp

end

lemma max_rate_ge: "x \<in> set xs \<Longrightarrow> x \<le> max_rate xs"
  by (induction xs) (auto simp: le_max_iff_disj)

lemma steps_next_rate_mem:
  "fst (steps_next r n l) \<in> insert 0 (set (map st_rate (steps_of r)))"
  by (auto simp: steps_next_def Let_def vec_get_def vec_last_def split: option.splits if_splits)

lemma steps_next_steps_of [simp]: "steps_of (snd (steps_next r n l)) = steps_of r"
  by (simp add: steps_next_def Let_def)

interpretation schemes: capped_scheme scheme_next scheme_cap
proof
  fix s n l
  show "fst (scheme_next s n l) \<le> scheme_cap s"
  proof (cases s)
    case (StepsScheme r)
    then show ?thesis using steps_next_rate_mem [of r n l] by (auto intro: max_rate_ge)
  qed (auto simp: constant_rate_next_def array_spec_next_def bounded_next_def linear_next_def
      elastic_next_def Let_def intro: max_rate_ge)
  show "scheme_cap (snd (scheme_next s n l)) = scheme_cap s"
    by (cases s) (auto simp: constant_rate_next_def array_spec_next_def bounded_next_def
        linear_next_def elastic_next_def Let_def)
qed

section \<open>Validation accepts exactly the contiguous step lists\<close>

lemma step_list_from_all:
  "list_all (\<lambda>v. sh_start v < sh_end v) vs \<Longrightarrow>
     step_list_from vs = Inr (map (\<lambda>v. \<lparr>st_start = sh_start v, st_end = sh_end v, st_rate = sh_rate v\<rparr>) vs)"
  by (induction vs) (auto simp: step_try_from_def)

lemma step_list_from_only: "step_list_from vs = Inr ss \<Longrightarrow> list_all (\<lambda>v. sh_start v < sh_end v) vs"
  by (induction vs arbitrary: ss) (auto simp: step_try_from_def split: sum.splits if_splits)

lemma step_list_from_Inr:
  "step_list_from vs = Inr ss \<longleftrightarrow>
     list_all (\<lambda>v. sh_start v < sh_end v) vs \<and>
     ss = map (\<lambda>v. \<lparr>st_start = sh_start v, st_end = sh_end v, st_rate = sh_rate v\<rparr>) vs"
  using step_list_from_all [of vs] step_list_from_only [of vs ss] by auto

lemma check_continuity_Inr:
  "check_continuity (st_end s) ss = Inr () \<longleftrightarrow> contiguous_steps (s # ss)"
proof (induction ss arbitrary: s)
  case (Cons t ss)
  have "contiguous_steps (s # t # ss) \<longleftrightarrow> st_end s + 1 = st_start t \<and> contiguous_steps (t # ss)"
    unfolding contiguous_steps_def by (auto simp: nth_Cons split: nat.splits)
  with Cons show ?case by auto
qed (simp add: contiguous_steps_def)

lemma check_continuity_hd_tl:
  "ss \<noteq> [] \<Longrightarrow> (check_continuity (st_end (hd ss)) (tl ss) = Inr ()) = contiguous_steps ss"
  by (metis check_continuity_Inr list.collapse)

lemma steps_try_from_Inr:
  assumes "list_all (\<lambda>s. st_start s < st_end s) ss"
  shows "steps_try_from ss = Inr r \<longleftrightarrow>
     valid_steps (sort_key st_start ss) \<and> r = \<lparr>current_step = 0, steps_of = sort_key st_start ss\<rparr>"
proof -
  let ?s = "sort_key st_start ss"
  have v: "valid_steps ?s \<longleftrightarrow> 2 \<le> length ss \<and> st_start (hd ?s) = 0 \<and> contiguous_steps ?s"
    using assms by (simp add: valid_steps_def list_all_iff)
  show ?thesis
  proof (cases "length ss < 2")
    case True
    then have "ss = [] \<or> length ss = 1" by (cases ss) auto
    then show ?thesis using v by (auto simp: steps_try_from_def)
  next
    case False
    then have ne: "ss \<noteq> []" and two: "2 \<le> length ss" by auto
    have len: "length ss \<noteq> 1" using two by simp
    have "?s \<noteq> []" using ne by (metis length_0_conv length_sort)
    from check_continuity_hd_tl [OF this] show ?thesis
      using ne len two v by (auto simp: steps_try_from_def Let_def split: sum.splits)
  qed
qed

text \<open>
  C21: a \<open>Steps\<close> specification is accepted exactly when every step starts before it ends, there
  are at least two, and, sorted by start, they begin at second 0 and each continues where the
  previous one ended; the accepted value holds the sorted steps with the cursor at the first one.
\<close>

theorem steps_deserialize_accepts:
  "steps_deserialize vs = Inr r \<longleftrightarrow>
     (let ss = sort_key st_start
        (map (\<lambda>v. \<lparr>st_start = sh_start v, st_end = sh_end v, st_rate = sh_rate v\<rparr>) vs)
      in list_all (\<lambda>v. sh_start v < sh_end v) vs \<and> valid_steps ss
         \<and> r = \<lparr>current_step = 0, steps_of = ss\<rparr>)"
proof (cases "list_all (\<lambda>v. sh_start v < sh_end v) vs")
  case True
  let ?m = "map (\<lambda>v. \<lparr>st_start = sh_start v, st_end = sh_end v, st_rate = sh_rate v\<rparr>) vs"
  have "step_list_from vs = Inr ?m" using True by (simp add: step_list_from_Inr)
  moreover have "list_all (\<lambda>s. st_start s < st_end s) ?m" using True by (simp add: list_all_length)
  ultimately show ?thesis using True by (simp add: steps_deserialize_def steps_try_from_Inr Let_def)
next
  case False
  then have "\<nexists>ss. step_list_from vs = Inr ss" by (simp add: step_list_from_Inr)
  then show ?thesis using False by (auto simp: steps_deserialize_def Let_def split: sum.splits)
qed

section \<open>Looking one step ahead is enough\<close>

lemma scheme_run_append:
  "scheme_run f s (ns @ ms) =
     (let (qs, s') = scheme_run f s ns; (qs', s'') = scheme_run f s' ms in (qs @ qs', s''))"
  by (induction ns arbitrary: s) (auto simp: Let_def case_prod_beta)

text \<open>
  The cursor before second \<open>k\<close> is asked for: earlier steps are over, the current one has begun,
  and it is over by at most one second unless it is the last.
\<close>

definition cursor_at :: "step list \<Rightarrow> nat \<Rightarrow> nat \<Rightarrow> bool" where
  "cursor_at ss i k \<longleftrightarrow> i < length ss \<and> (\<forall>j<i. unat (st_end (ss ! j)) < k)
     \<and> unat (st_start (ss ! i)) \<le> k \<and> (k \<le> unat (st_end (ss ! i)) + 1 \<or> Suc i = length ss)"

lemma cursor_atI:
  assumes "i < length ss" and "\<And>j. j < i \<Longrightarrow> unat (st_end (ss ! j)) < k"
    and "unat (st_start (ss ! i)) \<le> k" and "k \<le> unat (st_end (ss ! i)) + 1 \<or> Suc i = length ss"
  shows "cursor_at ss i k"
  using assms by (simp add: cursor_at_def)

lemma in_step_of_nat:
  "k < 2 ^ 32 \<Longrightarrow> in_step (of_nat k) s \<longleftrightarrow> unat (st_start s) \<le> k \<and> k \<le> unat (st_end s)"
  by (simp add: in_step_def word_le_nat_alt unat_of_nat)

lemma step_rate_at_index:
  assumes "i < length ss" and "in_step n (ss ! i)" and "\<And>j. j < i \<Longrightarrow> \<not> in_step n (ss ! j)"
  shows "step_rate_at ss n = st_rate (ss ! i)"
proof -
  have "find (in_step n) ss = Some (ss ! i)" using assms by (auto simp: find_Some_iff)
  then show ?thesis by (simp add: step_rate_at_def)
qed

lemma step_rate_at_past:
  assumes "ss \<noteq> []" and "\<And>j. j < length ss \<Longrightarrow> \<not> in_step n (ss ! j)"
  shows "step_rate_at ss n = st_rate (last ss)"
proof -
  have "find (in_step n) ss = None" using assms(2) by (auto simp: find_None_iff in_set_conv_nth)
  then show ?thesis by (simp add: step_rate_at_def)
qed

lemma steps_next_cursor:
  assumes v: "valid_steps (steps_of r)" and c: "cursor_at (steps_of r) (current_step r) k"
    and k: "k < 2 ^ 32"
  shows "fst (steps_next r (of_nat k) l) = step_rate_at (steps_of r) (of_nat k)"
    and "cursor_at (steps_of r) (current_step (snd (steps_next r (of_nat k) l))) (Suc k)"
proof -
  let ?ss = "steps_of r" and ?i = "current_step r"
  have i: "?i < length ?ss" and before: "\<And>j. j < ?i \<Longrightarrow> unat (st_end (?ss ! j)) < k"
    and begun: "unat (st_start (?ss ! ?i)) \<le> k"
    and close: "k \<le> unat (st_end (?ss ! ?i)) + 1 \<or> Suc ?i = length ?ss"
    using c by (auto simp: cursor_at_def)
  have not_before: "\<not> in_step (of_nat k) (?ss ! j)" if "j < ?i" for j
    using before [OF that] k by (simp add: in_step_of_nat)
  have get: "vec_get ?ss ?i = Some (?ss ! ?i)" using i by (simp add: vec_get_def)
  have both: "fst (steps_next r (of_nat k) l) = step_rate_at ?ss (of_nat k)
    \<and> cursor_at ?ss (current_step (snd (steps_next r (of_nat k) l))) (Suc k)"
  proof (cases "in_step (of_nat k) (?ss ! ?i)")
    case True
    then have "steps_next r (of_nat k) l = (st_rate (?ss ! ?i), r)"
      using get by (simp add: steps_next_def in_step_def)
    moreover have "k \<le> unat (st_end (?ss ! ?i))" using True k by (simp add: in_step_of_nat)
    moreover have "cursor_at ?ss ?i (Suc k)" if "k \<le> unat (st_end (?ss ! ?i))"
      using i begun that by (intro cursor_atI) (auto intro: less_SucI before)
    ultimately show ?thesis
      using step_rate_at_index [OF i True not_before] by simp
  next
    case False
    then have over: "unat (st_end (?ss ! ?i)) < k" using begun k by (simp add: in_step_of_nat)
    show ?thesis
    proof (cases "Suc ?i < length ?ss")
      case True
      then have "k = unat (st_end (?ss ! ?i)) + 1" using close over by simp
      then have "unat (st_end (?ss ! ?i) + 1) = k" using k by (simp add: unat_add_one_u32)
      moreover have "st_end (?ss ! ?i) + 1 = st_start (?ss ! Suc ?i)"
        using v True by (simp add: valid_steps_def contiguous_steps_def)
      ultimately have s: "unat (st_start (?ss ! Suc ?i)) = k" by simp
      have "st_start (?ss ! Suc ?i) < st_end (?ss ! Suc ?i)"
        using v True by (simp add: valid_steps_def list_all_length)
      then have e: "k < unat (st_end (?ss ! Suc ?i))" using s by (simp add: word_less_nat_alt)
      have inn: "in_step (of_nat k) (?ss ! Suc ?i)" using s e k by (simp add: in_step_of_nat)
      have nb: "\<not> in_step (of_nat k) (?ss ! j)" if "j < Suc ?i" for j
        using that not_before False by (auto simp: less_Suc_eq)
      have "steps_next r (of_nat k) l = (st_rate (?ss ! Suc ?i), r\<lparr>current_step := ?i + 1\<rparr>)"
        using get False True by (auto simp: steps_next_def in_step_def vec_get_def)
      moreover have "cursor_at ?ss (Suc ?i) (Suc k)"
      proof (rule cursor_atI)
        fix j assume "j < Suc ?i"
        then have "unat (st_end (?ss ! j)) < k" using before over by (cases "j = ?i") auto
        then show "unat (st_end (?ss ! j)) < Suc k" by simp
      qed (use True s e in auto)
      ultimately show ?thesis
        using step_rate_at_index [OF True inn nb] by simp
    next
      case last: False
      then have eq: "Suc ?i = length ?ss" using i by simp
      have none: "\<not> in_step (of_nat k) (?ss ! j)" if "j < length ?ss" for j
        using that not_before False less_Suc_eq [of j ?i] unfolding eq [symmetric] by auto
      have ne: "?ss \<noteq> []" using i by auto
      have "steps_next r (of_nat k) l = (st_rate (last ?ss), r)"
        using get False last ne
        by (auto simp: steps_next_def in_step_def vec_get_def vec_last_def)
      moreover have "cursor_at ?ss ?i (Suc k)"
        using i begun eq by (intro cursor_atI) (auto intro: less_SucI before)
      ultimately show ?thesis
        using step_rate_at_past [OF ne none] by simp
    qed
  qed
  then show "fst (steps_next r (of_nat k) l) = step_rate_at ?ss (of_nat k)"
    and "cursor_at ?ss (current_step (snd (steps_next r (of_nat k) l))) (Suc k)" by auto
qed

lemma steps_run_cursor:
  assumes "valid_steps (steps_of r)" and "current_step r = 0" and "n \<le> 2 ^ 32"
  shows "fst (scheme_run steps_next r (map of_nat [0..<n])) =
           map (step_rate_at (steps_of r)) (map of_nat [0..<n])
       \<and> steps_of (snd (scheme_run steps_next r (map of_nat [0..<n]))) = steps_of r
       \<and> cursor_at (steps_of r) (current_step (snd (scheme_run steps_next r (map of_nat [0..<n])))) n"
  using assms(3)
proof (induction n)
  case 0
  have "steps_of r \<noteq> []" using assms(1) by (auto simp: valid_steps_def)
  then have "cursor_at (steps_of r) 0 0"
    using assms(1) by (simp add: cursor_at_def valid_steps_def hd_conv_nth)
  then show ?case using assms(2) by simp
next
  case (Suc n)
  let ?run = "scheme_run steps_next r (map of_nat [0..<n])"
  have IH: "fst ?run = map (step_rate_at (steps_of r)) (map of_nat [0..<n])"
    "steps_of (snd ?run) = steps_of r" "cursor_at (steps_of (snd ?run)) (current_step (snd ?run)) n"
    using Suc by auto
  have n: "n < 2 ^ 32" using Suc.prems by simp
  have v: "valid_steps (steps_of (snd ?run))" using assms(1) IH(2) by simp
  note step = steps_next_cursor [OF v IH(3) n, of None]
  show ?case using IH step by (simp add: scheme_run_append Let_def case_prod_beta)
qed

text \<open>
  C6: asked for the seconds 0, 1, 2, \<dots> in turn, an accepted \<open>Steps\<close> specification returns for
  every second the rate of the step that contains it, and the rate of the last step afterwards.
\<close>

theorem steps_next_sequence:
  assumes "steps_deserialize vs = Inr r" and "n \<le> 2 ^ 32"
  shows "fst (scheme_run steps_next r (map of_nat [0..<n])) =
           map (step_rate_at (steps_of r)) (map of_nat [0..<n])"
  using assms steps_run_cursor [of r n] by (simp add: steps_deserialize_accepts Let_def)

theorem steps_next_sequence_witness:
  "steps_deserialize [\<lparr>sh_start = 0, sh_end = 1, sh_rate = 4\<rparr>, \<lparr>sh_start = 2, sh_end = 3, sh_rate = 7\<rparr>]
     = Inr \<lparr>current_step = 0, steps_of = [\<lparr>st_start = 0, st_end = 1, st_rate = 4\<rparr>,
                                        \<lparr>st_start = 2, st_end = 3, st_rate = 7\<rparr>]\<rparr>
   \<and> fst (scheme_run steps_next \<lparr>current_step = 0, steps_of = [\<lparr>st_start = 0, st_end = 1, st_rate = 4\<rparr>,
        \<lparr>st_start = 2, st_end = 3, st_rate = 7\<rparr>]\<rparr> (map of_nat [0..<6])) = [4, 4, 7, 7, 7, 7]"
proof -
  let ?vs = "[\<lparr>sh_start = 0, sh_end = 1, sh_rate = 4\<rparr>, \<lparr>sh_start = 2, sh_end = 3, sh_rate = 7\<rparr>]"
  let ?r = "\<lparr>current_step = 0, steps_of = [\<lparr>st_start = 0, st_end = 1, st_rate = 4\<rparr>,
                                        \<lparr>st_start = 2, st_end = 3, st_rate = 7\<rparr>]\<rparr>"
  have d: "steps_deserialize ?vs = Inr ?r"
    by (simp add: steps_deserialize_def step_try_from_def steps_try_from_def Let_def)
  have "map (step_rate_at (steps_of ?r)) (map of_nat [0..<6]) = [4, 4, 7, 7, 7, 7]"
    by code_simp
  with d steps_next_sequence [OF d, of 6] show ?thesis by simp
qed

section \<open>The linear scheme\<close>



text \<open>
  With slope 2, intercept 1 and cap 12, the first ten seconds get the rates 1, 3, 5, 7, 9, 11,
  12, 12, 12, 12; the documented sequence for this specification is 1, 5, 7, 9, 11, 12, \<dots>
\<close>

theorem linear_next_documented_example:
  "fst (scheme_run linear_next \<lparr>ln_a = Fin 1 1, ln_b = 1, ln_max = 12\<rparr> (map of_nat [0..<10]))
     = [1, 3, 5, 7, 9, 11, 12, 12, 12, 12]"
  by code_simp

text \<open>
  The 32-bit sum of the linear scheme wraps: once the product reaches the largest \<open>u32\<close>, the
  rate is one less than the intercept and not the cap, for every slope that gets there.
\<close>

theorem linear_next_wraps:
  assumes "f32_ceil_as_u32 (f32_mult (ln_a r) (f32_of_u32 n)) = - 1" and "ln_b r \<le> ln_max r"
    and "ln_b r \<noteq> 0"
  shows "fst (linear_next r n l) = ln_b r - 1"
proof -
  have "ln_b r - 1 \<le> ln_b r" using assms(3) by (simp add: word_le_nat_alt unat_minus_one)
  then have "ln_b r - 1 \<le> ln_max r" using assms(2) by simp
  then show ?thesis using assms(1) by (simp add: linear_next_def min_def)
qed

theorem linear_next_wraps_witness:
  "fst (linear_next \<lparr>ln_a = Fin 1 32, ln_b = 1, ln_max = 1000\<rparr> 1 None) = 0"
proof -
  have p: "f32_ceil_as_u32 (f32_mult (Fin 1 32) (f32_of_u32 1)) = - 1"
    by code_simp
  show ?thesis
    using linear_next_wraps [of "\<lparr>ln_a = Fin 1 32, ln_b = 1, ln_max = 1000\<rparr>" 1 None] p by simp
qed

end
