(* ===== verification/Json_Value.thy ===== *)
theory Json_Value
  imports Overload_Prelude
begin

text \<open>
  JSON values as the program sees them: the constructors its pattern matches name
  (\<open>datagen/src/template.rs\<close>, \<open>parse_templates_inner\<close>), the accessors it calls on them, and the
  decimal text of integers. An object is an association list in iteration order; \<open>insert\<close>
  replaces an existing entry in place. A number is an integer or a finite binary floating point
  value \<open>m * 2 ^ e\<close>.
\<close>

datatype number = Integral int | Floating f64

datatype json =
    Null
  | Bool bool
  | Number number
  | String string
  | Array "json list"
  | Object "(string \<times> json) list"

type_synonym json_map = "(string \<times> json) list"

section \<open>Accessors\<close>

definition in_i64 :: "int \<Rightarrow> bool" where
  "in_i64 i \<longleftrightarrow> - (2 ^ 63) \<le> i \<and> i < 2 ^ 63"

fun as_object :: "json \<Rightarrow> json_map option" where
  "as_object (Object es) = Some es"
| "as_object _ = None"

fun json_as_str :: "json \<Rightarrow> string option" where
  "json_as_str (String s) = Some s"
| "json_as_str _ = None"

fun json_as_i64 :: "json \<Rightarrow> int option" where
  "json_as_i64 (Number (Integral i)) = (if in_i64 i then Some i else None)"
| "json_as_i64 _ = None"

fun is_string :: "json \<Rightarrow> bool" where
  "is_string (String _) = True"
| "is_string _ = False"

fun json_get :: "string \<Rightarrow> json \<Rightarrow> json option" where
  "json_get k (Object es) = map_of es k"
| "json_get k _ = None"

fun map_insert :: "'k \<Rightarrow> 'v \<Rightarrow> ('k \<times> 'v) list \<Rightarrow> ('k \<times> 'v) list" where
  "map_insert k v [] = [(k, v)]"
| "map_insert k v ((a, b) # es) = (if a = k then (a, v) # es else (a, b) # map_insert k v es)"

fun map_remove :: "'k \<Rightarrow> ('k \<times> 'v) list \<Rightarrow> ('k \<times> 'v) list" where
  "map_remove k [] = []"
| "map_remove k ((a, b) # es) = (if a = k then es else (a, b) # map_remove k es)"

fun jsize :: "json \<Rightarrow> nat" where
  "jsize (Array xs) = Suc (sum_list (map jsize xs))"
| "jsize (Object es) = Suc (sum_list (map (\<lambda>e. Suc (jsize (snd e))) es))"
| "jsize _ = 1"

section \<open>Decimal text of integers\<close>

definition digit_char :: "nat \<Rightarrow> char" where
  "digit_char d = char_of (48 + d)"

fun show_nat :: "nat \<Rightarrow> string" where
  "show_nat n = (if n < 10 then [digit_char n] else show_nat (n div 10) @ [digit_char (n mod 10)])"

declare show_nat.simps [simp del]

definition show_int :: "int \<Rightarrow> string" where
  "show_int i = (if i < 0 then CHR ''-'' # show_nat (nat (- i)) else show_nat (nat i))"

definition digit_value :: "char \<Rightarrow> nat option" where
  "digit_value c = (let n = of_char c in if 48 \<le> n \<and> n \<le> (57 :: nat) then Some (n - 48) else None)"

fun parse_digits :: "nat \<Rightarrow> string \<Rightarrow> nat option" where
  "parse_digits acc [] = Some acc"
| "parse_digits acc (c # cs) =
     (case digit_value c of None \<Rightarrow> None | Some d \<Rightarrow> parse_digits (10 * acc + d) cs)"

text \<open>
  \<open>str::parse\<close> for unsigned and signed integers: an optional sign, at least one digit, digits
  only, and a value in range.
\<close>

definition parse_unsigned :: "nat \<Rightarrow> string \<Rightarrow> nat option" where
  "parse_unsigned bits s =
     (let ds = (case s of c # cs \<Rightarrow> if c = CHR ''+'' then cs else s | [] \<Rightarrow> [])
      in if ds = [] then None
         else case parse_digits 0 ds of None \<Rightarrow> None | Some n \<Rightarrow> if n < 2 ^ bits then Some n else None)"

definition parse_i64 :: "string \<Rightarrow> int option" where
  "parse_i64 s =
     (let (neg, ds) = (case s of c # cs \<Rightarrow> if c = CHR ''-'' then (True, cs)
                                        else if c = CHR ''+'' then (False, cs) else (False, s)
                       | [] \<Rightarrow> (False, []))
      in if ds = [] then None
         else case parse_digits 0 ds of None \<Rightarrow> None
            | Some n \<Rightarrow> (let i = (if neg then - int n else int n) in if in_i64 i then Some i else None))"

abbreviation parse_usize :: "string \<Rightarrow> nat option" where
  "parse_usize \<equiv> parse_unsigned 64"

section \<open>Splitting text\<close>

text \<open>\<open>str::split\<close> on a character.\<close>

fun split_on :: "char \<Rightarrow> string \<Rightarrow> string list" where
  "split_on c [] = [[]]"
| "split_on c (x # xs) =
     (case split_on c xs of
        [] \<Rightarrow> [[x]]
      | w # ws \<Rightarrow> if x = c then [] # w # ws else (x # w) # ws)"

section \<open>Objects as maps\<close>

lemma map_of_map_insert [simp, store_rules]: "map_of (map_insert k v es) = (map_of es)(k \<mapsto> v)"
  by (induction es) auto

lemma fst_set_map_insert [simp]: "fst ` set (map_insert k v es) = insert k (fst ` set es)"
  by (induction k v es rule: map_insert.induct) (simp_all add: insert_commute)

lemma distinct_map_insert [simp]:
  "distinct (map fst es) \<Longrightarrow> distinct (map fst (map_insert k v es))"
  by (induction es) auto

lemma map_insert_append: "k \<notin> fst ` set es \<Longrightarrow> map_insert k v es = es @ [(k, v)]"
  by (induction es) auto

lemma map_remove_notin [simp]: "k \<notin> fst ` set es \<Longrightarrow> map_remove k es = es"
  by (induction es) auto

lemma map_of_map_remove [simp, store_rules]:
  "distinct (map fst es) \<Longrightarrow> map_of (map_remove k es) = (map_of es)(k := None)"
  by (induction es) (auto simp: map_of_eq_None_iff [symmetric] intro!: ext)

lemma set_map_remove_subset: "set (map_remove k es) \<subseteq> set es"
  by (induction k es rule: map_remove.induct) auto

lemma distinct_map_remove [simp]:
  "distinct (map fst es) \<Longrightarrow> distinct (map fst (map_remove k es))"
  using set_map_remove_subset by (induction es) fastforce+

lemma jsize_map_of: "map_of es k = Some v \<Longrightarrow> jsize v < jsize (Object es)"
  by (induction es) (auto split: if_splits)

lemma jsize_json_get: "json_get k j = Some v \<Longrightarrow> jsize v < jsize j"
  by (cases j) (auto dest: jsize_map_of)

lemma jsize_pos [simp]: "0 < jsize j"
  by (cases j) auto

lemma split_on_ne [simp]: "split_on c s \<noteq> []"
  by (induction s) (auto split: list.splits)

lemma split_on_append: "c \<notin> set t \<Longrightarrow> split_on c (t @ c # s) = t # split_on c s"
proof (induction t)
  case Nil
  then show ?case by (cases "split_on c s") auto
qed (auto split: list.splits)

lemma split_on_none: "c \<notin> set t \<Longrightarrow> split_on c t = [t]"
  by (induction t) auto

section \<open>Reading back a printed number\<close>

lemma digit_value_digit_char [simp]: "d < 10 \<Longrightarrow> digit_value (digit_char d) = Some d"
  by (simp add: digit_value_def digit_char_def)

lemma parse_digits_append:
  "parse_digits a (xs @ ys) = (case parse_digits a xs of None \<Rightarrow> None | Some b \<Rightarrow> parse_digits b ys)"
  by (induction xs arbitrary: a) (auto split: option.splits)

lemma show_nat_ne [simp]: "show_nat n \<noteq> []"
  by (subst show_nat.simps) simp

lemma digit_char_not_sign [simp]: "d < 10 \<Longrightarrow> digit_char d \<noteq> CHR ''+''" "d < 10 \<Longrightarrow> digit_char d \<noteq> CHR ''-''"
  by (auto dest: digit_value_digit_char simp: digit_value_def split: if_splits)

lemma parse_digits_show_nat: "parse_digits 0 (show_nat n) = Some n"
proof (induction n rule: show_nat.induct)
  case (1 n)
  show ?case
  proof (cases "n < 10")
    case True
    then show ?thesis by (subst show_nat.simps) simp
  next
    case False
    with "1.IH" have "parse_digits 0 (show_nat (n div 10)) = Some (n div 10)" by simp
    with False show ?thesis by (subst show_nat.simps) (simp add: parse_digits_append)
  qed
qed

lemma show_nat_inj: "show_nat a = show_nat b \<longleftrightarrow> a = b"
  by (metis parse_digits_show_nat option.inject)

lemma hd_show_nat: "\<exists>d < 10. hd (show_nat n) = digit_char d"
proof (induction n rule: show_nat.induct)
  case (1 n)
  then show ?case by (cases "n < 10") (subst show_nat.simps, auto)+
qed

lemma show_nat_not_sign: "show_nat n = c # cs \<Longrightarrow> c \<noteq> CHR ''+'' \<and> c \<noteq> CHR ''-''"
  using hd_show_nat [of n] by auto

lemma parse_unsigned_show_nat [simp]:
  assumes "n < 2 ^ b"
  shows "parse_unsigned b (show_nat n) = Some n"
proof (cases "show_nat n")
  case (Cons c cs)
  then have "c \<noteq> CHR ''+''" using show_nat_not_sign by blast
  with Cons assms parse_digits_show_nat [of n] show ?thesis
    by (simp add: parse_unsigned_def)
qed simp

end
