(* ===== verification/Metrics.thy ===== *)
theory Metrics
  imports Json_Value
begin

text \<open>
  The metrics of a job and the factory that hands them out
  (\<open>overload-metrics/src/lib.rs\<close>). Counters are natural numbers and gauges integers: every
  gauge update in the program adds or sets a whole number. A \<open>Metrics\<close> object is shared by
  reference, so the factory maps a job to a reference into a heap of objects. The Prometheus registry is
  a parameter, a record of its two operations that the program calls; \<open>registry_ok\<close> states what its
  documentation promises about duplicates.
\<close>

section \<open>The metrics of one job\<close>

record metrics =
  mt_request_status_count :: "string \<Rightarrow> nat"
  mt_request_count :: nat
  mt_response_time :: "string \<Rightarrow> nat list"
  mt_buckets :: "f64 list"
  mt_attempt :: nat
  mt_success :: nat
  mt_broken :: nat
  mt_dropped :: nat
  mt_pool_size :: int
  mt_idle :: int
  mt_busy :: int
  mt_assertion_failure :: "string \<times> string \<Rightarrow> nat"

definition upstream_request_count :: "nat \<Rightarrow> metrics \<Rightarrow> metrics" where
  "upstream_request_count n m = m\<lparr>mt_request_count := mt_request_count m + n\<rparr>"

definition upstream_request_status_count :: "nat \<Rightarrow> string \<Rightarrow> metrics \<Rightarrow> metrics" where
  "upstream_request_status_count n status m =
     m\<lparr>mt_request_status_count :=
         (mt_request_status_count m)(status := mt_request_status_count m status + n)\<rparr>"

definition upstream_response_time :: "string \<Rightarrow> nat \<Rightarrow> metrics \<Rightarrow> metrics" where
  "upstream_response_time status elapsed m =
     m\<lparr>mt_response_time := (mt_response_time m)(status := mt_response_time m status @ [elapsed])\<rparr>"

definition pool_connection_attempt :: "nat \<Rightarrow> metrics \<Rightarrow> metrics" where
  "pool_connection_attempt n m = m\<lparr>mt_attempt := mt_attempt m + n\<rparr>"

definition pool_connection_success :: "nat \<Rightarrow> metrics \<Rightarrow> metrics" where
  "pool_connection_success n m = m\<lparr>mt_success := mt_success m + n\<rparr>"

definition pool_connection_broken :: "nat \<Rightarrow> metrics \<Rightarrow> metrics" where
  "pool_connection_broken n m = m\<lparr>mt_broken := mt_broken m + n\<rparr>"

definition pool_connection_dropped :: "nat \<Rightarrow> metrics \<Rightarrow> metrics" where
  "pool_connection_dropped n m = m\<lparr>mt_dropped := mt_dropped m + n\<rparr>"

definition pool_connection_busy :: "int \<Rightarrow> metrics \<Rightarrow> metrics" where
  "pool_connection_busy n m = m\<lparr>mt_busy := mt_busy m + n\<rparr>"

definition pool_connection_idle :: "int \<Rightarrow> metrics \<Rightarrow> metrics" where
  "pool_connection_idle n m = m\<lparr>mt_idle := mt_idle m + n\<rparr>"

definition pool_size :: "int \<Rightarrow> metrics \<Rightarrow> metrics" where
  "pool_size n m = m\<lparr>mt_pool_size := n\<rparr>"

definition assertion_parse_failure :: "string \<Rightarrow> metrics \<Rightarrow> metrics" where
  "assertion_parse_failure reason m =
     m\<lparr>mt_assertion_failure := (mt_assertion_failure m)
         ((''parse_err'', reason) := mt_assertion_failure m (''parse_err'', reason) + 1)\<rparr>"

definition assertion_failure :: "u32 \<Rightarrow> string \<Rightarrow> metrics \<Rightarrow> metrics" where
  "assertion_failure i reason m =
     m\<lparr>mt_assertion_failure := (mt_assertion_failure m)
         ((show_nat (unat i), reason) := mt_assertion_failure m (show_nat (unat i), reason) + 1)\<rparr>"

lemmas metrics_defs =
  upstream_request_count_def upstream_request_status_count_def upstream_response_time_def
  pool_connection_attempt_def pool_connection_success_def pool_connection_broken_def
  pool_connection_dropped_def pool_connection_busy_def pool_connection_idle_def pool_size_def
  assertion_parse_failure_def assertion_failure_def

section \<open>The factory\<close>

definition DEFAULT_HISTOGRAM_BUCKET :: "f64 list" where
  "DEFAULT_HISTOGRAM_BUCKET = [(20, 0), (50, 0), (100, 0), (300, 0), (700, 0), (1100, 0)]"

definition default_histogram_bucket :: "f64 list" where
  "default_histogram_bucket = DEFAULT_HISTOGRAM_BUCKET"

type_synonym descriptor = "string \<times> string"

record 'r registry_ops =
  register :: "'r \<Rightarrow> descriptor \<Rightarrow> 'r option"
  unregister :: "'r \<Rightarrow> descriptor \<Rightarrow> 'r option"

record 'r metrics_factory =
  registry :: 'r
  job_metrics :: "(string \<times> nat) list"
  metrics_heap :: "metrics list"

definition metrics_factory_default :: "'r \<Rightarrow> 'r metrics_factory" where
  "metrics_factory_default r = \<lparr>registry = r, job_metrics = [], metrics_heap = []\<rparr>"

definition new_metrics :: "f64 list \<Rightarrow> metrics" where
  "new_metrics buckets =
     \<lparr>mt_request_status_count = (\<lambda>_. 0), mt_request_count = 0, mt_response_time = (\<lambda>_. []),
      mt_buckets = buckets, mt_attempt = 0, mt_success = 0, mt_broken = 0, mt_dropped = 0,
      mt_pool_size = 0, mt_idle = 0, mt_busy = 0, mt_assertion_failure = (\<lambda>_. 0)\<rparr>"

definition registered_collectors :: "string list" where
  "registered_collectors =
     [''upstream_response_time'', ''upstream_request_status_count'', ''upstream_request_count'',
      ''connection_pool_new_connection_attempt'', ''connection_pool_new_connection_success'',
      ''connection_pool_connection_broken'', ''connection_pool_connection_dropped'',
      ''connection_pool_connection_idle'', ''connection_pool_connection_busy'',
      ''connection_pool_size'', ''assertion_failure'']"

definition unregistered_collectors :: "string list" where
  "unregistered_collectors =
     [''connection_pool_size'', ''connection_pool_connection_idle'', ''upstream_request_count'',
      ''connection_pool_connection_busy'', ''connection_pool_connection_dropped'',
      ''connection_pool_connection_broken'', ''connection_pool_new_connection_success'',
      ''connection_pool_new_connection_attempt'', ''upstream_request_status_count'',
      ''upstream_response_time'', ''assertion_failure'']"

fun register_all :: "'r registry_ops \<Rightarrow> string \<Rightarrow> 'r \<Rightarrow> string list \<Rightarrow> 'r option" where
  "register_all R job r [] = Some r"
| "register_all R job r (n # ns) =
     (case register R r (n, job) of None \<Rightarrow> None | Some r' \<Rightarrow> register_all R job r' ns)"

fun unregister_all :: "'r registry_ops \<Rightarrow> string \<Rightarrow> 'r \<Rightarrow> string list \<Rightarrow> 'r" where
  "unregister_all R job r [] = r"
| "unregister_all R job r (n # ns) =
     (case unregister R r (n, job) of
        None \<Rightarrow> unregister_all R job r ns
      | Some r' \<Rightarrow> unregister_all R job r' ns)"

text \<open>
  \<open>metrics_with_buckets\<close> looks the job up under the read lock and, when it is absent, takes the
  write lock and looks again before it creates the metrics. The locked part sees the state that
  other tasks left behind; \<open>None\<close> is the panic of \<open>register(..).unwrap()\<close>.
\<close>

definition metrics_write_locked ::
  "'r registry_ops \<Rightarrow> f64 list \<Rightarrow> string \<Rightarrow> 'r metrics_factory \<Rightarrow> (nat \<times> 'r metrics_factory) option"
where
  "metrics_write_locked R buckets job f =
     (case map_of (job_metrics f) job of
        Some a \<Rightarrow> Some (a, f)
      | None \<Rightarrow>
          (case register_all R job (registry f) registered_collectors of
             None \<Rightarrow> None
           | Some r \<Rightarrow>
               (let a = length (metrics_heap f)
                in Some (a, f\<lparr>registry := r, job_metrics := map_insert job a (job_metrics f),
                              metrics_heap := metrics_heap f @ [new_metrics buckets]\<rparr>))))"

definition metrics_with_buckets ::
  "'r registry_ops \<Rightarrow> f64 list \<Rightarrow> string \<Rightarrow> 'r metrics_factory \<Rightarrow> (nat \<times> 'r metrics_factory) option"
where
  "metrics_with_buckets R buckets job f =
     (case map_of (job_metrics f) job of
        Some a \<Rightarrow> Some (a, f)
      | None \<Rightarrow> metrics_write_locked R buckets job f)"

definition metrics_of_job ::
  "'r registry_ops \<Rightarrow> string \<Rightarrow> 'r metrics_factory \<Rightarrow> (nat \<times> 'r metrics_factory) option" where
  "metrics_of_job R job f = metrics_with_buckets R DEFAULT_HISTOGRAM_BUCKET job f"

definition remove_metrics :: "'r registry_ops \<Rightarrow> string \<Rightarrow> 'r metrics_factory \<Rightarrow> 'r metrics_factory" where
  "remove_metrics R job f =
     (case map_of (job_metrics f) job of
        None \<Rightarrow> f
      | Some _ \<Rightarrow> f\<lparr>job_metrics := map_remove job (job_metrics f),
                    registry := unregister_all R job (registry f) unregistered_collectors\<rparr>)"

section \<open>What the registry promises\<close>

definition registry_ok :: "'r registry_ops \<Rightarrow> ('r \<Rightarrow> descriptor set) \<Rightarrow> bool" where
  "registry_ok R view \<longleftrightarrow>
     (\<forall>r d. (d \<in> view r \<longrightarrow> register R r d = None)
          \<and> (d \<notin> view r \<longrightarrow> (\<exists>r'. register R r d = Some r' \<and> view r' = insert d (view r)))
          \<and> (d \<notin> view r \<longrightarrow> unregister R r d = None)
          \<and> (d \<in> view r \<longrightarrow> (\<exists>r'. unregister R r d = Some r' \<and> view r' = view r - {d})))"

definition factory_inv :: "('r \<Rightarrow> descriptor set) \<Rightarrow> 'r metrics_factory \<Rightarrow> bool" where
  "factory_inv view f \<longleftrightarrow>
     distinct (map fst (job_metrics f))
     \<and> (\<forall>job a. map_of (job_metrics f) job = Some a \<longrightarrow> a < length (metrics_heap f))
     \<and> (\<forall>n \<in> set registered_collectors. \<forall>job.
          (n, job) \<in> view (registry f) \<longleftrightarrow> job \<in> fst ` set (job_metrics f))"

datatype factory_op = MetricsFor "f64 list" string | LockedMetricsFor "f64 list" string | RemoveMetrics string

fun factory_step :: "'r registry_ops \<Rightarrow> factory_op \<Rightarrow> 'r metrics_factory \<Rightarrow> 'r metrics_factory option" where
  "factory_step R (MetricsFor b job) f = map_option snd (metrics_with_buckets R b job f)"
| "factory_step R (LockedMetricsFor b job) f = map_option snd (metrics_write_locked R b job f)"
| "factory_step R (RemoveMetrics job) f = Some (remove_metrics R job f)"

fun factory_run :: "'r registry_ops \<Rightarrow> factory_op list \<Rightarrow> 'r metrics_factory \<Rightarrow> 'r metrics_factory option" where
  "factory_run R [] f = Some f"
| "factory_run R (op # ops) f =
     (case factory_step R op f of None \<Rightarrow> None | Some f' \<Rightarrow> factory_run R ops f')"

section \<open>Lemmas\<close>

lemma register_all_ok:
  assumes "registry_ok R view" "distinct ns" "\<forall>n \<in> set ns. (n, job) \<notin> view r"
  shows "\<exists>r'. register_all R job r ns = Some r' \<and> view r' = view r \<union> {(n, job) | n. n \<in> set ns}"
  using assms(2,3)
proof (induction ns arbitrary: r)
  case (Cons n ns)
  then obtain r1 where r1: "register R r (n, job) = Some r1" "view r1 = insert (n, job) (view r)"
    using assms(1) unfolding registry_ok_def by (metis list.set_intros(1))
  moreover have "\<forall>n \<in> set ns. (n, job) \<notin> view r1" using Cons.prems r1(2) by auto
  ultimately show ?case using Cons.IH [of r1] Cons.prems(1) by auto
qed simp

lemma unregister_all_ok:
  assumes "registry_ok R view"
  shows "view (unregister_all R job r ns) = view r - {(n, job) | n. n \<in> set ns}"
proof (induction ns arbitrary: r)
  case (Cons n ns)
  show ?case
  proof (cases "(n, job) \<in> view r")
    case True
    then obtain r1 where "unregister R r (n, job) = Some r1" "view r1 = view r - {(n, job)}"
      using assms unfolding registry_ok_def by metis
    then show ?thesis using Cons.IH [of r1] by auto
  next
    case False
    then have "unregister R r (n, job) = None" using assms unfolding registry_ok_def by blast
    then show ?thesis using Cons.IH [of r] False by auto
  qed
qed simp

lemma same_collectors: "set unregistered_collectors = set registered_collectors"
  by (simp add: unregistered_collectors_def registered_collectors_def insert_commute)

lemma distinct_registered_collectors: "distinct registered_collectors"
  by (simp add: registered_collectors_def)

lemma factory_inv_default:
  "(\<forall>n \<in> set registered_collectors. \<forall>job. (n, job) \<notin> view r) \<Longrightarrow> factory_inv view (metrics_factory_default r)"
  by (simp add: factory_inv_def metrics_factory_default_def)

lemma metrics_write_locked_inv:
  assumes "registry_ok R view" "factory_inv view f"
  shows "\<exists>a f'. metrics_write_locked R b job f = Some (a, f') \<and> factory_inv view f'
           \<and> map_of (job_metrics f') job = Some a"
proof (cases "map_of (job_metrics f) job")
  case None
  then have "job \<notin> fst ` set (job_metrics f)" by (simp add: map_of_eq_None_iff)
  with assms(2) have fresh: "\<forall>n \<in> set registered_collectors. (n, job) \<notin> view (registry f)"
    by (simp add: factory_inv_def)
  obtain r' where r': "register_all R job (registry f) registered_collectors = Some r'"
      "view r' = view (registry f) \<union> {(n, job) | n. n \<in> set registered_collectors}"
    using register_all_ok [OF assms(1) distinct_registered_collectors fresh] by blast
  with None assms(2) show ?thesis
    by (auto simp: metrics_write_locked_def factory_inv_def Let_def less_Suc_eq)
qed (use assms(2) in \<open>auto simp: metrics_write_locked_def\<close>)

lemma metrics_with_buckets_inv:
  assumes "registry_ok R view" "factory_inv view f"
  shows "\<exists>a f'. metrics_with_buckets R b job f = Some (a, f') \<and> factory_inv view f'
           \<and> map_of (job_metrics f') job = Some a"
  using metrics_write_locked_inv [OF assms] assms(2)
  by (auto simp: metrics_with_buckets_def split: option.splits)

lemma remove_metrics_inv:
  assumes "registry_ok R view" "factory_inv view f"
  shows "factory_inv view (remove_metrics R job f)"
proof (cases "map_of (job_metrics f) job")
  case (Some a)
  let ?es = "job_metrics f"
  have d: "distinct (map fst ?es)" using assms(2) by (simp add: factory_inv_def)
  have "job' \<in> fst ` set (map_remove job ?es) \<longleftrightarrow> job' \<noteq> job \<and> job' \<in> fst ` set ?es" for job'
    using map_of_map_remove [OF d, of job]
    by (metis domIff dom_map_of_conv_image_fst fun_upd_apply)
  with Some assms(2) d show ?thesis
    by (auto simp: remove_metrics_def factory_inv_def unregister_all_ok [OF assms(1)] same_collectors)
qed (use assms(2) in \<open>simp add: remove_metrics_def\<close>)

lemma factory_step_inv:
  assumes "registry_ok R view" "factory_inv view f"
  shows "\<exists>f'. factory_step R op f = Some f' \<and> factory_inv view f'"
proof (cases op)
  case (MetricsFor b job)
  then show ?thesis using metrics_with_buckets_inv [OF assms, of b job] by auto
next
  case (LockedMetricsFor b job)
  then show ?thesis using metrics_write_locked_inv [OF assms, of b job] by auto
next
  case (RemoveMetrics job)
  then show ?thesis using remove_metrics_inv [OF assms] by simp
qed

lemma factory_run_inv:
  assumes "registry_ok R view" "factory_inv view f"
  shows "\<exists>f'. factory_run R ops f = Some f' \<and> factory_inv view f'"
  using assms(2)
proof (induction ops arbitrary: f)
  case (Cons op ops)
  then show ?case using factory_step_inv [OF assms(1) Cons.prems, of op] by auto
qed simp

section \<open>Properties\<close>


definition set_registry :: "descriptor set registry_ops" where
  "set_registry =
     \<lparr>register = (\<lambda>r d. if d \<in> r then None else Some (insert d r)),
      unregister = (\<lambda>r d. if d \<in> r then Some (r - {d}) else None)\<rparr>"


end
