(* ===== verification/Connection_Pool.thy ===== *)
theory Connection_Pool
  imports Metrics
begin

text \<open>
  The connection pool of a job (\<open>cluster-executor/src/connection.rs\<close>).

  An operation of the pool runs under the pool's write lock, but it is suspended at its awaits,
  and at those points the tasks the pool has spawned and the requests that finish may run. Every
  operation is therefore a sequence of segments without an await inside, each a function on the
  pool and the metrics; \<open>get_connections\<close> composes the segments of a call that is not disturbed,
  and \<open>pool_step\<close> interleaves the segments with the spawned tasks and the returns.

  Parameters: the current time, the results of opening connections and the order and the results in
  which the readiness checks finish. An \<open>HttpConnection\<close> carries the identity of its request
  handle.
\<close>

section \<open>State\<close>

record connection_keep_alive =
  ttl :: u32
  max_request_per_connection :: u32

record http_connection =
  request_handle :: nat
  should_drop :: bool
  expire_at :: u64
  remaining_reuse :: i32

record queue_pool =
  max_connection :: i64
  connections :: "http_connection list"
  recyclable_connections :: "http_connection list"
  new_connections :: "http_connection list"
  busy_connections :: usize
  host_port :: string
  elastic :: bool
  keep_alive :: connection_keep_alive
  last_use :: nat
  failed_connection :: usize

datatype pool_task = ResizeTask i64 | AddTask i64 | AppendTask "http_connection list"

definition pool_connection_timeout :: "string option \<Rightarrow> u64" where
  "pool_connection_timeout env_var =
     (case env_var of None \<Rightarrow> 1000
      | Some val \<Rightarrow> (case parse_unsigned 64 val of None \<Rightarrow> 1000 | Some n \<Rightarrow> n))"

definition queue_pool_new :: "string \<Rightarrow> connection_keep_alive \<Rightarrow> bool \<Rightarrow> nat \<Rightarrow> queue_pool" where
  "queue_pool_new hp ka elastic_pool now =
     \<lparr>max_connection = 0, connections = [], recyclable_connections = [], new_connections = [],
      busy_connections = 0, host_port = hp, elastic = elastic_pool, keep_alive = ka,
      last_use = now, failed_connection = 0\<rparr>"

section \<open>Opening and returning connections\<close>

definition get_expiry :: "u64 \<Rightarrow> u32 \<Rightarrow> u64" where
  "get_expiry since_epoch t = u64_saturating_add since_epoch (unat t)"

text \<open>\<open>tcp\<close> says whether the TCP connect succeeded; \<open>handshake\<close> is the request handle of a
  successful handshake.\<close>

definition open_connection ::
  "bool \<Rightarrow> nat option \<Rightarrow> u64 \<Rightarrow> connection_keep_alive \<Rightarrow> http_connection option" where
  "open_connection tcp handshake since_epoch ka =
     (if \<not> tcp then None
      else case handshake of None \<Rightarrow> None
        | Some h \<Rightarrow> Some \<lparr>request_handle = h, should_drop = False,
                          expire_at = get_expiry since_epoch (ttl ka),
                          remaining_reuse = i32_try_into_or_max (unat (max_request_per_connection ka))\<rparr>)"

definition mark_returned :: "u64 \<Rightarrow> http_connection \<Rightarrow> http_connection" where
  "mark_returned since_epoch c =
     (let c = (if expire_at c < since_epoch \<or> remaining_reuse c \<le> 1 then c\<lparr>should_drop := True\<rparr> else c)
      in c\<lparr>remaining_reuse := i32_wrap (remaining_reuse c - 1)\<rparr>)"

definition return_connection ::
  "u64 \<Rightarrow> http_connection \<Rightarrow> queue_pool \<times> metrics \<Rightarrow> queue_pool \<times> metrics" where
  "return_connection since_epoch c = (\<lambda>(p, m).
     (p\<lparr>recyclable_connections := recyclable_connections p @ [mark_returned since_epoch c]\<rparr>,
      pool_connection_idle 1 (pool_connection_busy (- 1) m)))"

section \<open>Spawned tasks\<close>

text \<open>\<open>outcomes\<close> are the results of the opened connections that arrive before the first
  timeout, in the order of arrival. The new connections are appended in a segment of their own,
  after the await of the container's write lock.\<close>

definition open_new_connections ::
  "i64 \<Rightarrow> http_connection option list \<Rightarrow> queue_pool \<times> metrics
     \<Rightarrow> http_connection list \<times> queue_pool \<times> metrics" where
  "open_new_connections n outcomes = (\<lambda>(p, m).
     (let m = pool_connection_attempt (nat n) m;
          conn = map the (filter (\<lambda>x. x \<noteq> None) outcomes);
          len = length conn;
          failed = usize_sub (nat n) len
      in (conn, p\<lparr>failed_connection := failed_connection p + failed\<rparr>,
          pool_connection_idle (int len) (pool_connection_success len m))))"

definition append_new_connections :: "http_connection list \<Rightarrow> queue_pool \<Rightarrow> queue_pool" where
  "append_new_connections conn p = p\<lparr>new_connections := new_connections p @ conn\<rparr>"

definition add_new_connection ::
  "i64 \<Rightarrow> http_connection option list \<Rightarrow> queue_pool \<times> metrics \<Rightarrow> queue_pool \<times> metrics" where
  "add_new_connection n outcomes s =
     (let (conn, p, m) = open_new_connections n outcomes s in (append_new_connections conn p, m))"

definition resize_conn_container :: "http_connection list \<Rightarrow> usize \<Rightarrow> usize \<times> http_connection list" where
  "resize_conn_container container to_be_removed =
     (let len = length container
      in if len < to_be_removed then (len, [])
         else (to_be_removed, take (len - to_be_removed) container))"

definition resize_connection_pool ::
  "i64 \<Rightarrow> http_connection option list \<Rightarrow> queue_pool \<times> metrics \<Rightarrow> queue_pool \<times> metrics" where
  "resize_connection_pool diff outcomes = (\<lambda>(p, m).
     (if diff < 0 then
        (let (removed, rest) = resize_conn_container (new_connections p) (nat \<bar>diff\<bar>)
         in (p\<lparr>new_connections := rest\<rparr>,
             if removed > 0 then pool_connection_idle (- int removed) (pool_connection_dropped removed m)
             else m))
      else if diff > 0 then add_new_connection diff outcomes (p, m)
      else (p, m)))"

text \<open>One segment of a spawned task: what is left of the task, and the new state.\<close>

fun run_pool_task ::
  "pool_task \<Rightarrow> http_connection option list \<Rightarrow> queue_pool \<times> metrics
     \<Rightarrow> pool_task list \<times> queue_pool \<times> metrics" where
  "run_pool_task (ResizeTask diff) outcomes s =
     (if diff > 0 then (let (conn, s) = open_new_connections diff outcomes s in ([AppendTask conn], s))
      else ([], resize_connection_pool diff outcomes s))"
| "run_pool_task (AddTask n) outcomes s =
     (let (conn, s) = open_new_connections n outcomes s in ([AppendTask conn], s))"
| "run_pool_task (AppendTask conn) outcomes s = ([], append_new_connections conn (fst s), snd s)"

definition add_new_connection_mut :: "i64 \<Rightarrow> pool_task list" where
  "add_new_connection_mut n = (if n = 0 then [] else [AddTask n])"

section \<open>Setting the pool size\<close>

definition set_connection_count ::
  "usize \<Rightarrow> queue_pool \<times> metrics \<Rightarrow> pool_task list \<times> queue_pool \<times> metrics" where
  "set_connection_count connection_count = (\<lambda>(p, m).
     (let p = (if elastic p \<and> connection_count \<noteq> i64_as_usize (max_connection p)
               then p\<lparr>elastic := False\<rparr> else p);
          avail_con_len = length (connections p);
          p = (if avail_con_len > connection_count
               then p\<lparr>connections := drop (avail_con_len - connection_count) (connections p)\<rparr> else p);
          dropped = avail_con_len - length (connections p);
          m = pool_connection_dropped dropped m;
          avail_con_len = length (connections p);
          new_size = int connection_count;
          diff = new_size - max_connection p;
          diff = (if diff > 0
                  then let nc = length (new_connections p);
                           active_con = nc + busy_connections p + avail_con_len
                       in max 0 (new_size - int active_con)
                  else diff);
          p = p\<lparr>max_connection := new_size\<rparr>
      in ([ResizeTask diff], p, m)))"

section \<open>Taking connections out\<close>

definition claim_recyclable :: "queue_pool \<Rightarrow> usize \<times> queue_pool" where
  "claim_recyclable p =
     (length (recyclable_connections p),
      p\<lparr>recyclable_connections := [], connections := connections p @ recyclable_connections p\<rparr>)"

definition claim_new :: "queue_pool \<Rightarrow> usize \<times> queue_pool" where
  "claim_new p =
     (length (new_connections p),
      p\<lparr>new_connections := [], connections := connections p @ new_connections p\<rparr>)"

definition enforce_pool_size ::
  "u32 \<Rightarrow> queue_pool \<times> metrics \<Rightarrow> pool_task list \<times> queue_pool \<times> metrics" where
  "enforce_pool_size connection_request = (\<lambda>(p, m).
     (if elastic p then
        (let diff = int (length (connections p)) - int (unat connection_request)
         in (if diff < 0 then add_new_connection_mut \<bar>diff\<bar> else [], p, m))
      else
        (let available = length (connections p);
             current_active = available + busy_connections p;
             diff = int current_active - max_connection p
         in if diff > 0 then
              (let conns = take (nat (max 0 (int available - diff))) (connections p);
                   change = available - length conns
               in ([], p\<lparr>connections := conns\<rparr>,
                   if change > 0 then pool_connection_idle (- int change) (pool_connection_dropped change m)
                   else m))
            else ([], p, m))))"

text \<open>The loop that pops up to \<open>n\<close> connections: the result holds the number of flagged
  connections dropped, the connections whose readiness is checked, and the queue left.\<close>

fun pop_connections :: "nat \<Rightarrow> http_connection list \<Rightarrow> nat \<times> http_connection list \<times> http_connection list" where
  "pop_connections n [] = (0, [], [])"
| "pop_connections n (con # conns) =
     (if n = 0 then (0, [], con # conns)
      else let (dropped, futures, rest) = pop_connections (n - 1) conns
        in if should_drop con then (Suc dropped, futures, rest) else (dropped, con # futures, rest))"

text \<open>From the claim of the new connections to the first readiness check there is no await.\<close>

definition select_connections ::
  "u32 \<Rightarrow> usize \<Rightarrow> queue_pool \<times> metrics
     \<Rightarrow> pool_task list \<times> nat \<times> http_connection list \<times> queue_pool \<times> metrics" where
  "select_connections connection_request returned_to_pool = (\<lambda>(p, m).
     (let (_, p) = claim_new p;
          p = p\<lparr>busy_connections := usize_sub (busy_connections p) returned_to_pool\<rparr>;
          (tasks, p, m) = enforce_pool_size connection_request (p, m);
          (dropped, futures, rest) = pop_connections (unat connection_request) (connections p)
      in (tasks, dropped, futures, p\<lparr>connections := rest\<rparr>, m)))"

text \<open>\<open>checked\<close> pairs every connection whose readiness was checked with the result, in the order of
  completion.\<close>

definition finish_get_connections ::
  "nat \<Rightarrow> (http_connection \<times> bool) list \<Rightarrow> queue_pool \<times> metrics
     \<Rightarrow> pool_task list \<times> http_connection list \<times> queue_pool \<times> metrics" where
  "finish_get_connections dropped checked = (\<lambda>(p, m).
     (let vec = map fst (filter snd checked);
          broken = length (filter (\<lambda>x. \<not> snd x) checked);
          tasks = add_new_connection_mut (int (broken + dropped + failed_connection p));
          p = p\<lparr>failed_connection := 0\<rparr>;
          m = pool_connection_dropped (broken + dropped) (pool_connection_broken broken m);
          len = length vec;
          p = p\<lparr>busy_connections := busy_connections p + len\<rparr>;
          m = pool_connection_idle (- int len) (pool_connection_busy (int len) m)
      in (tasks, vec, p, m)))"

definition get_connections ::
  "(http_connection list \<Rightarrow> (http_connection \<times> bool) list) \<Rightarrow> u32 \<Rightarrow> queue_pool \<times> metrics
     \<Rightarrow> pool_task list \<times> http_connection list \<times> queue_pool \<times> metrics" where
  "get_connections check_ready connection_request = (\<lambda>(p, m).
     (let (returned_to_pool, p) = claim_recyclable p;
          (tasks, dropped, futures, p, m) = select_connections connection_request returned_to_pool (p, m);
          (tasks', vec, p, m) = finish_get_connections dropped (check_ready futures) (p, m)
      in (tasks @ tasks', vec, p, m)))"

section \<open>Interleaving with the spawned tasks\<close>

text \<open>
  \<open>pool_world\<close> is the pool with its metrics, the tasks that are not finished, the connections
  handed out and not yet returned, and the point at which the current \<open>get_connections\<close> call
  waits. Three fields only observe the run: how often each handle was handed out, the largest
  pool size that was set, and the handles that exist.
\<close>

datatype get_phase = NoCall | Claimed u32 usize | Checking nat "http_connection list"

record pool_world =
  w_pool :: queue_pool
  w_metrics :: metrics
  w_tasks :: "pool_task list"
  w_in_flight :: "http_connection list"
  w_phase :: get_phase
  w_uses :: "nat \<Rightarrow> nat"
  w_peak :: int
  w_handles :: "nat set"

definition pool_world_new :: "string \<Rightarrow> connection_keep_alive \<Rightarrow> bool \<Rightarrow> nat \<Rightarrow> f64 list \<Rightarrow> pool_world" where
  "pool_world_new hp ka el now buckets =
     \<lparr>w_pool = queue_pool_new hp ka el now, w_metrics = new_metrics buckets, w_tasks = [],
      w_in_flight = [], w_phase = NoCall, w_uses = (\<lambda>_. 0), w_peak = 0, w_handles = {}\<rparr>"

fun task_size :: "pool_task \<Rightarrow> nat" where
  "task_size (ResizeTask d) = nat d"
| "task_size (AddTask n) = nat n"
| "task_size (AppendTask cs) = length cs"

text \<open>What a task can receive from the network: at most as many results as it opened, and every
  connection is what \<open>open_connection\<close> builds around a new handle.\<close>

definition opened :: "http_connection option list \<Rightarrow> http_connection list" where
  "opened outcomes = map the (filter (\<lambda>x. x \<noteq> None) outcomes)"

definition outcomes_ok :: "pool_world \<Rightarrow> pool_task \<Rightarrow> http_connection option list \<Rightarrow> bool" where
  "outcomes_ok w t outcomes \<longleftrightarrow>
     length outcomes \<le> task_size t
     \<and> distinct (map request_handle (opened outcomes))
     \<and> (\<forall>c \<in> set (opened outcomes). request_handle c \<notin> w_handles w
          \<and> (\<exists>now. open_connection True (Some (request_handle c)) now (keep_alive (w_pool w)) = Some c))"

fun new_handles :: "pool_task \<Rightarrow> http_connection option list \<Rightarrow> nat set" where
  "new_handles (AppendTask cs) outcomes = {}"
| "new_handles t outcomes = request_handle ` set (opened outcomes)"

datatype pool_event = SetCount usize | Claim u32 | Select | Finish | RunTask | Return

inductive pool_step :: "pool_world \<Rightarrow> pool_event \<Rightarrow> pool_world \<Rightarrow> bool" where
  set_count:
    "w_phase w = NoCall \<Longrightarrow>
     set_connection_count n (w_pool w, w_metrics w) = (ts, p, m) \<Longrightarrow>
     pool_step w (SetCount n) (w\<lparr>w_pool := p, w_metrics := m, w_tasks := w_tasks w @ ts,
                    w_peak := max (w_peak w) (int n)\<rparr>)"
| claim:
    "w_phase w = NoCall \<Longrightarrow>
     claim_recyclable (w_pool w) = (r, p) \<Longrightarrow>
     pool_step w (Claim n) (w\<lparr>w_pool := p, w_phase := Claimed n r\<rparr>)"
| select:
    "w_phase w = Claimed n r \<Longrightarrow>
     select_connections n r (w_pool w, w_metrics w) = (ts, dropped, futures, p, m) \<Longrightarrow>
     pool_step w Select (w\<lparr>w_pool := p, w_metrics := m, w_tasks := w_tasks w @ ts,
                    w_phase := Checking dropped futures\<rparr>)"
| finish:
    "w_phase w = Checking dropped futures \<Longrightarrow>
     mset (map fst checked) = mset futures \<Longrightarrow>
     finish_get_connections dropped checked (w_pool w, w_metrics w) = (ts, vec, p, m) \<Longrightarrow>
     pool_step w Finish (w\<lparr>w_pool := p, w_metrics := m, w_tasks := w_tasks w @ ts,
                    w_in_flight := w_in_flight w @ vec, w_phase := NoCall,
                    w_uses := (\<lambda>h. if h \<in> request_handle ` set vec then w_uses w h + 1 else w_uses w h)\<rparr>)"
| task:
    "w_tasks w = ts1 @ t # ts2 \<Longrightarrow>
     outcomes_ok w t outcomes \<Longrightarrow>
     run_pool_task t outcomes (w_pool w, w_metrics w) = (ts, p, m) \<Longrightarrow>
     pool_step w RunTask (w\<lparr>w_pool := p, w_metrics := m, w_tasks := ts1 @ ts @ ts2,
                    w_handles := w_handles w \<union> new_handles t outcomes\<rparr>)"
| return:
    "w_in_flight w = cs1 @ c # cs2 \<Longrightarrow>
     return_connection now c (w_pool w, w_metrics w) = (p, m) \<Longrightarrow>
     pool_step w Return (w\<lparr>w_pool := p, w_metrics := m, w_in_flight := cs1 @ cs2\<rparr>)"

definition pool_reaches :: "pool_world \<Rightarrow> pool_world \<Rightarrow> bool" where
  "pool_reaches = (\<lambda>w w'. \<exists>e. pool_step w e w')\<^sup>*\<^sup>*"

fun shrink_of :: "pool_task \<Rightarrow> nat" where
  "shrink_of (ResizeTask d) = nat (- d)"
| "shrink_of _ = 0"

text \<open>A run is orderly if the task of a reduction of the size is finished before the next segment
  of an operation of the pool runs; other tasks and returns may happen at any time.\<close>

definition no_shrink :: "pool_world \<Rightarrow> bool" where
  "no_shrink w \<longleftrightarrow> (\<forall>t \<in> set (w_tasks w). shrink_of t = 0)"

definition orderly :: "pool_world \<Rightarrow> pool_event \<Rightarrow> bool" where
  "orderly w e \<longleftrightarrow> e = RunTask \<or> e = Return \<or> no_shrink w"

definition orderly_reaches :: "pool_world \<Rightarrow> pool_world \<Rightarrow> bool" where
  "orderly_reaches = (\<lambda>w w'. \<exists>e. pool_step w e w' \<and> orderly w e)\<^sup>*\<^sup>*"

definition pool_initial :: "pool_world \<Rightarrow> bool" where
  "pool_initial w \<longleftrightarrow> (\<exists>hp ka el now buckets. 0 < max_request_per_connection ka
     \<and> w = pool_world_new hp ka el now buckets)"

section \<open>Effects of the segments\<close>

lemma pop_connections_eq:
  "pop_connections n cs =
     (length (filter should_drop (take n cs)), filter (\<lambda>c. \<not> should_drop c) (take n cs), drop n cs)"
proof (induction n cs rule: pop_connections.induct)
  case (2 n con conns)
  then show ?case by (cases n) (auto simp: Let_def)
qed simp

lemma length_filter_take:
  "length (filter P (take n cs)) + length (filter (\<lambda>c. \<not> P c) (take n cs)) + length (drop n cs) = length cs"
  using sum_length_filter_compl [of P "take n cs"] by simp

definition resize_diff :: "usize \<Rightarrow> queue_pool \<Rightarrow> int" where
  "resize_diff n p =
     (let d = int n - max_connection p
      in if d > 0 then max 0 (int n - int (length (new_connections p) + busy_connections p
                                           + min (length (connections p)) n)) else d)"

lemma set_connection_count_eq:
  "set_connection_count n (p, m) =
     ([ResizeTask (resize_diff n p)],
      p\<lparr>elastic := elastic p \<and> n = i64_as_usize (max_connection p),
        connections := drop (length (connections p) - n) (connections p), max_connection := int n\<rparr>,
      pool_connection_dropped (length (connections p) - n) m)"
proof -
  have 1: "(if elastic p \<and> n \<noteq> i64_as_usize (max_connection p) then p\<lparr>elastic := False\<rparr> else p)
           = p\<lparr>elastic := elastic p \<and> n = i64_as_usize (max_connection p)\<rparr>"
    by (cases p) auto
  have 2: "(if n < length (connections q) then q\<lparr>connections := drop (length (connections q) - n) (connections q)\<rparr> else q)
           = q\<lparr>connections := drop (length (connections q) - n) (connections q)\<rparr>" for q :: queue_pool
    by (cases q) auto
  show ?thesis
    unfolding set_connection_count_def prod.case 1 Let_def 2 resize_diff_def
    by (simp, linarith)
qed

lemma set_connection_count_effect:
  assumes "set_connection_count n (p, m) = (ts, p', m')"
  shows "recyclable_connections p' = recyclable_connections p" "new_connections p' = new_connections p"
    "busy_connections p' = busy_connections p" "failed_connection p' = failed_connection p"
    "keep_alive p' = keep_alive p" "max_connection p' = int n" "mt_busy m' = mt_busy m"
    "connections p' = drop (length (connections p) - n) (connections p)"
    "elastic p' = (elastic p \<and> n = i64_as_usize (max_connection p))"
    "ts = [ResizeTask (resize_diff n p)]"
proof -
  note eq = assms [unfolded set_connection_count_eq]
  from eq have p': "p' = p\<lparr>elastic := elastic p \<and> n = i64_as_usize (max_connection p),
        connections := drop (length (connections p) - n) (connections p), max_connection := int n\<rparr>"
    by simp
  show "recyclable_connections p' = recyclable_connections p" "new_connections p' = new_connections p"
    "busy_connections p' = busy_connections p" "failed_connection p' = failed_connection p"
    "keep_alive p' = keep_alive p" "max_connection p' = int n"
    "connections p' = drop (length (connections p) - n) (connections p)"
    "elastic p' = (elastic p \<and> n = i64_as_usize (max_connection p))"
    by (simp_all add: p')
  show "mt_busy m' = mt_busy m" "ts = [ResizeTask (resize_diff n p)]"
    using eq by (auto simp: pool_connection_dropped_def)
qed

lemma claim_recyclable_effect:
  assumes "claim_recyclable p = (r, p')"
  shows "r = length (recyclable_connections p)" "recyclable_connections p' = []"
    "connections p' = connections p @ recyclable_connections p" "new_connections p' = new_connections p"
    "busy_connections p' = busy_connections p" "failed_connection p' = failed_connection p"
    "keep_alive p' = keep_alive p" "max_connection p' = max_connection p" "elastic p' = elastic p"
  using assms by (auto simp: claim_recyclable_def)

text \<open>What is left of the queue after the size is enforced.\<close>

definition enforced :: "queue_pool \<Rightarrow> nat \<Rightarrow> http_connection list \<Rightarrow> http_connection list" where
  "enforced p busy conns =
     (if elastic p then conns
      else take (nat (min (int (length conns)) (max 0 (max_connection p - int busy)))) conns)"

lemma enforce_pool_size_effect:
  assumes "enforce_pool_size n (p, m) = (ts, p', m')"
  shows "p' = p\<lparr>connections := enforced p (busy_connections p) (connections p)\<rparr>" "mt_busy m' = mt_busy m"
    "ts = (if elastic p \<and> length (connections p) < unat n
           then [AddTask (int (unat n) - int (length (connections p)))] else [])"
proof -
  let ?d = "int (length (connections p) + busy_connections p) - max_connection p"
  have "nat (max 0 (int (length (connections p)) - ?d))
          = nat (min (int (length (connections p))) (max 0 (max_connection p - int (busy_connections p))))"
    if "?d > 0" using that by linarith
  moreover have "length (connections p) \<le> nat (min (int (length (connections p))) (max 0 (max_connection p - int (busy_connections p))))"
    if "\<not> ?d > 0" using that by linarith
  ultimately show "p' = p\<lparr>connections := enforced p (busy_connections p) (connections p)\<rparr>"
    using assms by (cases "elastic p"; cases "?d > 0") (simp_all add: enforce_pool_size_def enforced_def Let_def)
  show "mt_busy m' = mt_busy m"
    using assms by (cases "elastic p") (auto simp: enforce_pool_size_def Let_def metrics_defs split: if_splits)
  show "ts = (if elastic p \<and> length (connections p) < unat n
           then [AddTask (int (unat n) - int (length (connections p)))] else [])"
  proof (cases "elastic p")
    case True
    with assms show ?thesis
      by (auto simp: enforce_pool_size_def add_new_connection_mut_def Let_def simp del: of_nat_unat split: if_splits)
  next
    case False
    with assms show ?thesis by (auto simp: enforce_pool_size_def Let_def split: if_splits)
  qed
qed

lemma select_connections_effect:
  assumes "select_connections n r (p, m) = (ts, dropped, futures, p', m')"
  defines "conns \<equiv> enforced p (usize_sub (busy_connections p) r) (connections p @ new_connections p)"
  shows "recyclable_connections p' = recyclable_connections p" "new_connections p' = []"
    "busy_connections p' = usize_sub (busy_connections p) r" "failed_connection p' = failed_connection p"
    "keep_alive p' = keep_alive p" "max_connection p' = max_connection p" "elastic p' = elastic p"
    "mt_busy m' = mt_busy m" "connections p' = drop (unat n) conns"
    "futures = filter (\<lambda>c. \<not> should_drop c) (take (unat n) conns)"
    "dropped = length (filter should_drop (take (unat n) conns))"
    "ts = (if elastic p \<and> length (connections p @ new_connections p) < unat n
           then [AddTask (int (unat n) - int (length (connections p @ new_connections p)))] else [])"
proof -
  define q where "q = p\<lparr>new_connections := [], connections := connections p @ new_connections p,
                         busy_connections := usize_sub (busy_connections p) r\<rparr>"
  obtain ts1 p1 m1 where e: "enforce_pool_size n (q, m) = (ts1, p1, m1)" by (metis prod_cases3)
  note effect = enforce_pool_size_effect [OF e]
  have conns: "enforced q (busy_connections q) (connections q) = conns"
    by (simp add: q_def conns_def enforced_def)
  have "select_connections n r (p, m) =
      (ts1, length (filter should_drop (take (unat n) conns)),
       filter (\<lambda>c. \<not> should_drop c) (take (unat n) conns), q\<lparr>connections := drop (unat n) conns\<rparr>, m1)"
    using e effect(1) conns
    by (simp add: select_connections_def claim_new_def q_def pop_connections_eq)
  with assms(1) have eq: "ts = ts1" "dropped = length (filter should_drop (take (unat n) conns))"
      "futures = filter (\<lambda>c. \<not> should_drop c) (take (unat n) conns)"
      "p' = q\<lparr>connections := drop (unat n) conns\<rparr>" "m' = m1"
    by simp_all
  show "recyclable_connections p' = recyclable_connections p" "new_connections p' = []"
    "busy_connections p' = usize_sub (busy_connections p) r" "failed_connection p' = failed_connection p"
    "keep_alive p' = keep_alive p" "max_connection p' = max_connection p" "elastic p' = elastic p"
    "connections p' = drop (unat n) conns"
    by (simp_all add: eq(4) q_def)
  show "mt_busy m' = mt_busy m" using eq(5) effect(2) by simp
  show "futures = filter (\<lambda>c. \<not> should_drop c) (take (unat n) conns)"
    "dropped = length (filter should_drop (take (unat n) conns))" by (fact eq(3), fact eq(2))
  show "ts = (if elastic p \<and> length (connections p @ new_connections p) < unat n
           then [AddTask (int (unat n) - int (length (connections p @ new_connections p)))] else [])"
    using effect(3) eq(1) by (simp add: q_def)
qed

lemma finish_effect:
  assumes "finish_get_connections dropped checked (p, m) = (ts, vec, p', m')"
  shows "recyclable_connections p' = recyclable_connections p" "new_connections p' = new_connections p"
    "connections p' = connections p" "failed_connection p' = 0"
    "keep_alive p' = keep_alive p" "max_connection p' = max_connection p" "elastic p' = elastic p"
    "vec = map fst (filter snd checked)" "busy_connections p' = busy_connections p + length vec"
    "mt_busy m' = mt_busy m + int (length vec)"
    "ts = add_new_connection_mut (int (length checked - length vec + dropped + failed_connection p))"
proof -
  have "length (filter (\<lambda>x. \<not> snd x) checked) = length checked - length (filter snd checked)"
    using sum_length_filter_compl [of snd checked] by linarith
  with assms show "recyclable_connections p' = recyclable_connections p" "new_connections p' = new_connections p"
    "connections p' = connections p" "failed_connection p' = 0"
    "keep_alive p' = keep_alive p" "max_connection p' = max_connection p" "elastic p' = elastic p"
    "vec = map fst (filter snd checked)" "busy_connections p' = busy_connections p + length vec"
    "mt_busy m' = mt_busy m + int (length vec)"
    "ts = add_new_connection_mut (int (length checked - length vec + dropped + failed_connection p))"
    by (auto simp: finish_get_connections_def Let_def metrics_defs)
qed

lemma return_effect:
  assumes "return_connection now c (p, m) = (p', m')"
  shows "recyclable_connections p' = recyclable_connections p @ [mark_returned now c]"
    "new_connections p' = new_connections p"
    "connections p' = connections p" "failed_connection p' = failed_connection p"
    "busy_connections p' = busy_connections p" "keep_alive p' = keep_alive p"
    "max_connection p' = max_connection p" "elastic p' = elastic p" "mt_busy m' = mt_busy m - 1"
  using assms by (auto simp: return_connection_def metrics_defs)

lemma length_opened: "length (opened outcomes) \<le> length outcomes"
  by (simp add: opened_def)

lemma open_new_connections_effect:
  assumes "open_new_connections n outcomes (p, m) = (conn, p', m')" "length outcomes \<le> nat n"
  shows "conn = opened outcomes" "length conn \<le> nat n" "mt_busy m' = mt_busy m"
    "p' = p\<lparr>failed_connection := failed_connection p + (nat n - length conn)\<rparr>"
proof -
  have "length (opened outcomes) \<le> nat n" using assms(2) length_opened [of outcomes] by linarith
  with assms(1) show "conn = opened outcomes" "length conn \<le> nat n" "mt_busy m' = mt_busy m"
    "p' = p\<lparr>failed_connection := failed_connection p + (nat n - length conn)\<rparr>"
    by (auto simp: open_new_connections_def Let_def metrics_defs opened_def)
qed

text \<open>A segment of a task either opens connections, appends them, or removes new ones.\<close>

lemma run_pool_task_cases:
  assumes "run_pool_task t outcomes (p, m) = (ts, p', m')" "length outcomes \<le> task_size t"
  obtains
    (opens) "ts = [AppendTask (opened outcomes)]" "shrink_of t = 0" "new_handles t outcomes = request_handle ` set (opened outcomes)"
      "length (opened outcomes) \<le> task_size t" "\<And>cs. t \<noteq> AppendTask cs" "mt_busy m' = mt_busy m"
      "p' = p\<lparr>failed_connection := failed_connection p + (task_size t - length (opened outcomes))\<rparr>"
  | (appends) cs where "t = AppendTask cs" "ts = []" "m' = m"
      "p' = p\<lparr>new_connections := new_connections p @ cs\<rparr>"
  | (shrinks) d where "t = ResizeTask d" "d \<le> 0" "ts = []" "mt_busy m' = mt_busy m" "opened outcomes = []"
      "p' = p\<lparr>new_connections := take (length (new_connections p) - nat (- d)) (new_connections p)\<rparr>"
proof (cases t)
  case (AddTask n)
  obtain conn p1 m1 where o: "open_new_connections n outcomes (p, m) = (conn, p1, m1)" by (metis prod_cases3)
  with open_new_connections_effect [OF o] assms AddTask show ?thesis by (intro opens) auto
next
  case (AppendTask cs)
  with assms show ?thesis by (intro appends) (auto simp: append_new_connections_def)
next
  case (ResizeTask d)
  show ?thesis
  proof (cases "d > 0")
    case True
    obtain conn p1 m1 where o: "open_new_connections d outcomes (p, m) = (conn, p1, m1)" by (metis prod_cases3)
    with open_new_connections_effect [OF o] assms ResizeTask True show ?thesis by (intro opens) auto
  next
    case False
    with assms ResizeTask have "outcomes = []" by simp
    moreover have "p' = p\<lparr>new_connections := take (length (new_connections p) - nat (- d)) (new_connections p)\<rparr>"
      using assms(1) ResizeTask False
      by (cases p) (auto simp: resize_connection_pool_def resize_conn_container_def Let_def split: if_splits)
    moreover have "mt_busy m' = mt_busy m" "ts = []"
      using assms(1) ResizeTask False
      by (auto simp: resize_connection_pool_def resize_conn_container_def metrics_defs Let_def split: if_splits)
    ultimately show ?thesis using ResizeTask False by (intro shrinks) (auto simp: opened_def)
  qed
qed

section \<open>Accounting of busy connections\<close>

fun claimed :: "get_phase \<Rightarrow> nat" where
  "claimed (Claimed n r) = r"
| "claimed _ = 0"

fun in_check :: "get_phase \<Rightarrow> http_connection list" where
  "in_check (Checking d cs) = cs"
| "in_check _ = []"

fun dropped_in :: "get_phase \<Rightarrow> nat" where
  "dropped_in (Checking d cs) = d"
| "dropped_in _ = 0"

definition busy_inv :: "pool_world \<Rightarrow> bool" where
  "busy_inv w \<longleftrightarrow>
     busy_connections (w_pool w)
       = length (w_in_flight w) + length (recyclable_connections (w_pool w)) + claimed (w_phase w)
     \<and> mt_busy (w_metrics w) = int (length (w_in_flight w))"

lemma pool_step_busy_inv:
  assumes "busy_inv w" "pool_step w e w'"
  shows "busy_inv w'"
  using assms(2,1)
proof cases
  case (set_count n ts p m)
  note set_count(2) and effect = set_connection_count_effect [OF set_count(4)]
  with set_count assms(1) show ?thesis by (simp add: busy_inv_def)
next
  case (claim r p n)
  with claim_recyclable_effect [OF claim(4)] assms(1) show ?thesis by (simp add: busy_inv_def)
next
  case (select n r ts dropped futures p m)
  with select_connections_effect [OF select(4)] assms(1) show ?thesis by (simp add: busy_inv_def)
next
  case (finish dropped futures checked ts vec p m)
  with finish_effect [OF finish(5)] assms(1) show ?thesis by (simp add: busy_inv_def)
next
  case (task ts1 t ts2 outcomes ts p m)
  from task(4) have "length outcomes \<le> task_size t" by (simp add: outcomes_ok_def)
  from task(5) this task(2) assms(1) show ?thesis
    by (cases rule: run_pool_task_cases) (auto simp: busy_inv_def)
next
  case (return cs1 c cs2 now p m)
  with return_effect [OF return(4)] assms(1) show ?thesis by (simp add: busy_inv_def)
qed

definition peak_inv :: "pool_world \<Rightarrow> bool" where
  "peak_inv w \<longleftrightarrow>
     busy_inv w \<and> \<not> elastic (w_pool w) \<and> 0 \<le> w_peak w \<and> max_connection (w_pool w) \<le> w_peak w
     \<and> int (busy_connections (w_pool w) + length (in_check (w_phase w))) \<le> w_peak w"

lemma enforced_bound:
  "\<not> elastic p \<Longrightarrow> int busy \<le> k \<Longrightarrow> max_connection p \<le> k \<Longrightarrow> int (busy + length (enforced p busy cs)) \<le> k"
  by (simp add: enforced_def min_def max_def) linarith

lemma length_checked:
  "mset (map fst checked) = mset futures \<Longrightarrow> length (map fst (filter snd checked)) \<le> length futures"
  by (metis length_filter_le length_map size_mset)

lemma pool_step_peak_inv:
  assumes "peak_inv w" "pool_step w e w'"
  shows "peak_inv w'"
proof -
  from assms have busy': "busy_inv w'" by (auto simp: peak_inv_def intro: pool_step_busy_inv)
  from assms(1) have busy: "busy_inv w" by (simp add: peak_inv_def)
  from assms(2) show ?thesis
  proof cases
    case (set_count n ts p m)
    with set_connection_count_effect [OF set_count(4)] assms(1) busy' show ?thesis
      by (simp add: peak_inv_def max.coboundedI1)
  next
    case (claim r p n)
    with claim_recyclable_effect [OF claim(4)] assms(1) busy' show ?thesis by (simp add: peak_inv_def)
  next
    case (select n r ts dropped futures p m)
    note effect = select_connections_effect [OF select(4)]
    let ?busy = "usize_sub (busy_connections (w_pool w)) r"
    let ?conns = "enforced (w_pool w) ?busy (connections (w_pool w) @ new_connections (w_pool w))"
    from busy select(3) have "?busy \<le> busy_connections (w_pool w)" by (simp add: busy_inv_def)
    then have "int ?busy \<le> w_peak w" using assms(1) by (simp add: peak_inv_def)
    then have "int (?busy + length ?conns) \<le> w_peak w"
      using assms(1) by (intro enforced_bound) (auto simp: peak_inv_def)
    moreover have "length futures \<le> length ?conns"
      using effect(10) by (metis (no_types, lifting) length_filter_le length_take min.bounded_iff)
    ultimately have "int (?busy + length futures) \<le> w_peak w" by linarith
    with select effect assms(1) busy' show ?thesis by (simp add: peak_inv_def)
  next
    case (finish dropped futures checked ts vec p m)
    have "length vec \<le> length futures" using length_checked [OF finish(4)] finish_effect(8) [OF finish(5)] by simp
    with finish finish_effect [OF finish(5)] assms(1) busy' show ?thesis by (simp add: peak_inv_def)
  next
    case (task ts1 t ts2 outcomes ts p m)
    from task(4) have "length outcomes \<le> task_size t" by (simp add: outcomes_ok_def)
    from task(5) this task(2) assms(1) busy' show ?thesis
      by (cases rule: run_pool_task_cases) (auto simp: peak_inv_def)
  next
    case (return cs1 c cs2 now p m)
    with return_effect [OF return(4)] assms(1) busy' show ?thesis by (simp add: peak_inv_def)
  qed
qed

section \<open>Capacity\<close>

text \<open>Every connection the pool is short of is being opened, is waiting to be refilled, or is
  counted as failed and refilled by the next call.\<close>

definition pending_adds :: "pool_task list \<Rightarrow> nat" where
  "pending_adds ts = sum_list (map task_size ts)"

definition pending_shrink :: "pool_task list \<Rightarrow> nat" where
  "pending_shrink ts = sum_list (map shrink_of ts)"

definition settled_capacity :: "pool_world \<Rightarrow> nat" where
  "settled_capacity w =
     length (connections (w_pool w)) + length (w_in_flight w) + length (recyclable_connections (w_pool w))
     + length (in_check (w_phase w)) + dropped_in (w_phase w)"

definition incoming :: "pool_world \<Rightarrow> nat" where
  "incoming w = length (new_connections (w_pool w)) + pending_adds (w_tasks w) + failed_connection (w_pool w)"

definition capacity_inv :: "pool_world \<Rightarrow> bool" where
  "capacity_inv w \<longleftrightarrow>
     busy_inv w \<and> 0 \<le> max_connection (w_pool w) \<and> (elastic (w_pool w) \<longrightarrow> max_connection (w_pool w) = 0)
     \<and> max_connection (w_pool w) \<le> int (settled_capacity w + (incoming w - pending_shrink (w_tasks w)))"

lemma pending_simps [simp]:
  "pending_adds [] = 0" "pending_shrink [] = 0"
  "pending_adds (t # ts) = task_size t + pending_adds ts"
  "pending_shrink (t # ts) = shrink_of t + pending_shrink ts"
  "pending_adds (xs @ ts) = pending_adds xs + pending_adds ts"
  "pending_shrink (xs @ ts) = pending_shrink xs + pending_shrink ts"
  by (simp_all add: pending_adds_def pending_shrink_def)

lemma pending_add_new_connection_mut [simp]:
  "pending_adds (add_new_connection_mut (int k)) = k" "pending_shrink (add_new_connection_mut k') = 0"
  by (simp_all add: add_new_connection_mut_def)

lemma pending_shrink_zero: "no_shrink w \<Longrightarrow> pending_shrink (w_tasks w) = 0"
  by (simp add: no_shrink_def pending_shrink_def)

lemma resize_diff_capacity:
  assumes "0 \<le> max_connection p"
    and "max_connection p \<le> int (length (connections p) + busy_connections p + length (new_connections p) + a)"
  shows "int n \<le> int (min (length (connections p)) n + busy_connections p
                     + (length (new_connections p) + a + nat (resize_diff n p) - nat (- resize_diff n p)))"
  using assms unfolding resize_diff_def by (auto simp: Let_def min_def max_def)

lemma enforced_capacity:
  assumes "max_connection p \<le> int (length cs + busy + a)" "elastic p \<longrightarrow> max_connection p = 0"
  shows "max_connection p \<le> int (length (enforced p busy cs) + busy + a)"
  using assms by (auto simp: enforced_def min_def max_def)

lemma capacity_inv_set_count:
  assumes "capacity_inv w" "w_phase w = NoCall" "no_shrink w"
    and eff: "set_connection_count n (w_pool w, w_metrics w) = (ts, p, m)"
    and busy': "busy_inv w'"
    and w': "w' = w\<lparr>w_pool := p, w_metrics := m, w_tasks := w_tasks w @ ts, w_peak := k\<rparr>"
  shows "capacity_inv w'"
proof -
  note effect = set_connection_count_effect [OF eff]
  let ?p = "w_pool w" and ?a = "pending_adds (w_tasks w) + failed_connection (w_pool w)"
  have inv: "0 \<le> max_connection ?p" "max_connection ?p \<le>
      int (length (connections ?p) + busy_connections ?p + length (new_connections ?p) + ?a)"
    using assms(1-3) by (auto simp: capacity_inv_def settled_capacity_def incoming_def busy_inv_def
        pending_shrink_zero)
  from assms(1) have el: "elastic p \<longrightarrow> int n = 0"
    by (auto simp: effect(9) capacity_inv_def)
  from resize_diff_capacity [OF inv, of n] assms(1-3) el busy' show ?thesis
    by (simp add: capacity_inv_def settled_capacity_def incoming_def w' effect busy_inv_def
        pending_shrink_zero min_def algebra_simps split: if_splits)
qed

lemma capacity_inv_select:
  assumes "capacity_inv w" "w_phase w = Claimed n r"
    and eff: "select_connections n r (w_pool w, w_metrics w) = (ts, dropped, futures, p, m)"
    and busy': "busy_inv w'"
    and w': "w' = w\<lparr>w_pool := p, w_metrics := m, w_tasks := w_tasks w @ ts, w_phase := Checking dropped futures\<rparr>"
  shows "capacity_inv w'"
proof -
  note effect = select_connections_effect [OF eff]
  let ?p = "w_pool w"
  let ?busy = "usize_sub (busy_connections ?p) r"
  let ?conns = "enforced ?p ?busy (connections ?p @ new_connections ?p)"
  let ?a = "pending_adds (w_tasks w) + failed_connection ?p - pending_shrink (w_tasks w)"
  have busy: "?busy = length (w_in_flight w) + length (recyclable_connections ?p)"
    using assms(1,2) by (simp add: capacity_inv_def busy_inv_def)
  have "max_connection ?p \<le> int (length (connections ?p @ new_connections ?p) + ?busy + ?a)"
    using assms(1,2) busy by (simp add: capacity_inv_def settled_capacity_def incoming_def) linarith
  then have "max_connection ?p \<le> int (length ?conns + ?busy + ?a)"
    using assms(1) by (intro enforced_capacity) (auto simp: capacity_inv_def)
  moreover have "length ?conns = dropped + length futures + length (connections p)"
    unfolding effect(9-11) using length_filter_take [of should_drop "unat n" ?conns] by linarith
  moreover have "pending_shrink ts = 0" using effect(12) by (simp split: if_splits)
  ultimately show ?thesis
    using assms(1) busy' busy by (simp add: capacity_inv_def settled_capacity_def incoming_def w' effect(1-7))
qed

lemma capacity_inv_finish:
  assumes "capacity_inv w" "w_phase w = Checking dropped futures" "mset (map fst checked) = mset futures"
    and "no_shrink w" and eff: "finish_get_connections dropped checked (w_pool w, w_metrics w) = (ts, vec, p, m)"
    and busy': "busy_inv w'"
    and w': "w' = w\<lparr>w_pool := p, w_metrics := m, w_tasks := w_tasks w @ ts,
                    w_in_flight := w_in_flight w @ vec, w_phase := NoCall, w_uses := u\<rparr>"
  shows "capacity_inv w'"
proof -
  note effect = finish_effect [OF eff]
  have "length checked = length futures" using assms(3) by (metis length_map size_mset)
  moreover have "length vec \<le> length checked" by (simp add: effect(8))
  ultimately have "pending_adds ts = length futures - length vec + dropped + failed_connection (w_pool w)"
    "length vec \<le> length futures" "pending_shrink ts = 0"
    unfolding effect(11) by (simp_all only: pending_add_new_connection_mut)
  then show ?thesis
    using assms(1,2) busy' pending_shrink_zero [OF assms(4)]
    by (simp add: capacity_inv_def settled_capacity_def incoming_def w' effect(1-7))
qed

lemma capacity_inv_task:
  assumes "capacity_inv w" "w_tasks w = ts1 @ t # ts2" "length outcomes \<le> task_size t"
    and eff: "run_pool_task t outcomes (w_pool w, w_metrics w) = (ts, p, m)"
    and busy': "busy_inv w'"
    and w': "w' = w\<lparr>w_pool := p, w_metrics := m, w_tasks := ts1 @ ts @ ts2, w_handles := hs\<rparr>"
  shows "capacity_inv w'"
proof -
  let ?in = "\<lambda>w. incoming w - pending_shrink (w_tasks w)"
  have "settled_capacity w' = settled_capacity w \<and> max_connection p = max_connection (w_pool w)
      \<and> elastic p = elastic (w_pool w) \<and> ?in w \<le> ?in w'"
    using eff assms(3)
  proof (cases rule: run_pool_task_cases)
    case opens
    then have "incoming w' = incoming w" "pending_shrink (w_tasks w') = pending_shrink (w_tasks w)"
      by (simp_all add: incoming_def w' assms(2))
    then show ?thesis by (simp add: settled_capacity_def w' opens(7))
  next
    case (appends cs)
    then have "incoming w' = incoming w" "pending_shrink (w_tasks w') = pending_shrink (w_tasks w)"
      by (simp_all add: incoming_def w' assms(2))
    then show ?thesis by (simp add: settled_capacity_def w' appends(4))
  next
    case (shrinks d)
    then have "incoming w \<le> incoming w' + nat (- d)"
      "pending_shrink (w_tasks w) = pending_shrink (w_tasks w') + nat (- d)"
      by (auto simp: incoming_def w' assms(2))
    then show ?thesis by (simp add: settled_capacity_def w' shrinks(6))
  qed
  with assms(1) busy' show ?thesis by (auto simp: capacity_inv_def w')
qed

lemma pool_step_capacity_inv:
  assumes "capacity_inv w" "pool_step w e w'" "orderly w e"
  shows "capacity_inv w'"
proof -
  from assms have busy': "busy_inv w'" by (auto simp: capacity_inv_def intro: pool_step_busy_inv)
  from assms(2) show ?thesis
  proof cases
    case (set_count n ts p m)
    then have "no_shrink w" using assms(3) by (simp add: orderly_def)
    from capacity_inv_set_count [OF assms(1) set_count(3) this set_count(4) busy' set_count(2)] show ?thesis .
  next
    case (claim r p n)
    with claim_recyclable_effect [OF claim(4)] assms(1) busy' show ?thesis
      by (simp add: capacity_inv_def settled_capacity_def incoming_def)
  next
    case (select n r ts dropped futures p m)
    from capacity_inv_select [OF assms(1) select(3,4) busy' select(2)] show ?thesis .
  next
    case (finish dropped futures checked ts vec p m)
    then have "no_shrink w" using assms(3) by (simp add: orderly_def)
    from capacity_inv_finish [OF assms(1) finish(3,4) this finish(5) busy' finish(2)] show ?thesis .
  next
    case (task ts1 t ts2 outcomes ts p m)
    from task(4) have "length outcomes \<le> task_size t" by (simp add: outcomes_ok_def)
    from capacity_inv_task [OF assms(1) task(3) this task(5) busy' task(2)] show ?thesis .
  next
    case (return cs1 c cs2 now p m)
    with return_effect [OF return(4)] assms(1) busy' show ?thesis
      by (simp add: capacity_inv_def settled_capacity_def incoming_def)
  qed
qed

section \<open>Reuse of connections\<close>

fun task_conns :: "pool_task \<Rightarrow> http_connection list" where
  "task_conns (AppendTask cs) = cs"
| "task_conns _ = []"

definition idle_conns :: "pool_world \<Rightarrow> http_connection list" where
  "idle_conns w = connections (w_pool w) @ recyclable_connections (w_pool w) @ new_connections (w_pool w)
     @ in_check (w_phase w) @ concat (map task_conns (w_tasks w))"

definition reuse_cap :: "queue_pool \<Rightarrow> int" where
  "reuse_cap p = i32_try_into_or_max (unat (max_request_per_connection (keep_alive p)))"

definition idle_ok :: "int \<Rightarrow> (nat \<Rightarrow> nat) \<Rightarrow> http_connection \<Rightarrow> bool" where
  "idle_ok cap uses c \<longleftrightarrow> int (uses (request_handle c)) + remaining_reuse c = cap \<and> 0 \<le> remaining_reuse c
     \<and> (should_drop c \<or> 1 \<le> remaining_reuse c)"

definition flight_ok :: "int \<Rightarrow> (nat \<Rightarrow> nat) \<Rightarrow> http_connection \<Rightarrow> bool" where
  "flight_ok cap uses c \<longleftrightarrow> int (uses (request_handle c)) + remaining_reuse c = cap + 1 \<and> 1 \<le> remaining_reuse c
     \<and> \<not> should_drop c"

definition reuse_inv :: "pool_world \<Rightarrow> bool" where
  "reuse_inv w \<longleftrightarrow>
     (let cap = reuse_cap (w_pool w); live = idle_conns w @ w_in_flight w
      in 1 \<le> cap \<and> distinct (map request_handle live) \<and> request_handle ` set live \<subseteq> w_handles w
         \<and> (\<forall>h. int (w_uses w h) \<le> cap \<and> (h \<notin> w_handles w \<longrightarrow> w_uses w h = 0))
         \<and> (\<forall>c \<in> set (idle_conns w). idle_ok cap (w_uses w) c)
         \<and> (\<forall>c \<in> set (in_check (w_phase w)). \<not> should_drop c)
         \<and> (\<forall>c \<in> set (w_in_flight w). flight_ok cap (w_uses w) c))"

lemma reuse_inv_fewer:
  assumes "reuse_inv w" "mset (idle_conns w') \<subseteq># mset (idle_conns w)"
    and "keep_alive (w_pool w') = keep_alive (w_pool w)" "w_in_flight w' = w_in_flight w"
    and "w_uses w' = w_uses w" "w_handles w' = w_handles w"
    and "\<forall>c \<in> set (in_check (w_phase w')). \<not> should_drop c"
  shows "reuse_inv w'"
proof -
  have "mset (idle_conns w' @ w_in_flight w') \<subseteq># mset (idle_conns w @ w_in_flight w)"
    using assms(2,4) by simp
  with assms(1) have "distinct (map request_handle (idle_conns w' @ w_in_flight w'))"
    unfolding reuse_inv_def Let_def by (blast intro: distinct_map_submset)
  moreover have "set (idle_conns w') \<subseteq> set (idle_conns w)"
    using set_mset_mono [OF assms(2)] by simp
  ultimately show ?thesis
    using assms(1,7)
    unfolding reuse_inv_def Let_def reuse_cap_def image_subset_iff set_append assms(3-6) by blast
qed

lemma mset_filter_partition:
  "mset (filter (\<lambda>c. \<not> P c) (take n cs)) + mset (drop n cs) \<subseteq># mset cs"
  by (metis append_take_drop_id mset_append mset_filter multiset_filter_subset subset_mset.add_right_mono)

lemma mset_take_subset: "mset (take n cs) \<subseteq># mset cs" "mset (drop n cs) \<subseteq># mset cs"
  by (metis append_take_drop_id mset_append mset_subset_eq_add_left mset_subset_eq_add_right)+

lemma mset_enforced: "mset (enforced p b cs) \<subseteq># mset cs"
  by (simp add: enforced_def mset_take_subset)

lemma reuse_inv_select:
  assumes "reuse_inv w" "w_phase w = Claimed n r"
    and eff: "select_connections n r (w_pool w, w_metrics w) = (ts, dropped, futures, p, m)"
    and w': "w' = w\<lparr>w_pool := p, w_metrics := m, w_tasks := w_tasks w @ ts, w_phase := Checking dropped futures\<rparr>"
  shows "reuse_inv w'"
proof -
  note effect = select_connections_effect [OF eff]
  let ?conns = "enforced (w_pool w) (usize_sub (busy_connections (w_pool w)) r)
                  (connections (w_pool w) @ new_connections (w_pool w))"
  have "mset futures + mset (connections p) \<subseteq># mset ?conns"
    unfolding effect(9,10) by (rule mset_filter_partition)
  also have "\<dots> \<subseteq># mset (connections (w_pool w) @ new_connections (w_pool w))" by (rule mset_enforced)
  finally have sub: "mset futures + mset (connections p)
      \<subseteq># mset (connections (w_pool w)) + mset (new_connections (w_pool w))"
    by simp
  let ?rest = "mset (recyclable_connections (w_pool w)) + mset (concat (map task_conns (w_tasks w)))"
  have "concat (map task_conns ts) = []" using effect(12) by simp
  then have "mset (idle_conns w') = mset futures + mset (connections p) + ?rest"
    by (simp add: idle_conns_def w' effect(1,2))
  moreover have "mset (idle_conns w) = mset (connections (w_pool w)) + mset (new_connections (w_pool w)) + ?rest"
    by (simp add: idle_conns_def assms(2))
  ultimately have "mset (idle_conns w') \<subseteq># mset (idle_conns w)"
    using subset_mset.add_right_mono [OF sub, of ?rest] by simp
  moreover have "\<forall>c \<in> set futures. \<not> should_drop c" by (simp add: effect(10))
  ultimately show ?thesis by (intro reuse_inv_fewer [OF assms(1)]) (simp_all add: w' effect(5))
qed

lemma reuse_cap_le: "reuse_cap p \<le> i32_max"
  by (simp add: reuse_cap_def i32_try_into_or_max_def)

lemma reuse_inv_finish:
  assumes "reuse_inv w" "w_phase w = Checking dropped futures" "mset (map fst checked) = mset futures"
    and eff: "finish_get_connections dropped checked (w_pool w, w_metrics w) = (ts, vec, p, m)"
    and w': "w' = w\<lparr>w_pool := p, w_metrics := m, w_tasks := w_tasks w @ ts,
                    w_in_flight := w_in_flight w @ vec, w_phase := NoCall,
                    w_uses := (\<lambda>h. if h \<in> request_handle ` set vec then w_uses w h + 1 else w_uses w h)\<rparr>"
  shows "reuse_inv w'"
proof -
  note effect = finish_effect [OF eff]
  have no_conns: "concat (map task_conns ts) = []" unfolding effect(11) by (simp add: add_new_connection_mut_def)
  have sub: "mset vec \<subseteq># mset futures"
    unfolding effect(8) assms(3) [symmetric] by (simp add: mset_filter image_mset_subseteq_mono)
  then have vec: "set vec \<subseteq> set futures" using set_mset_mono by force
  define rest where "rest = idle_conns w'"
  have idle: "mset (idle_conns w) = mset rest + mset futures"
    by (simp add: idle_conns_def rest_def w' effect(1-3) no_conns assms(2))
  have live: "mset (rest @ w_in_flight w @ vec) \<subseteq># mset (idle_conns w @ w_in_flight w)"
    using sub by (simp add: idle ac_simps subset_mset.add_left_mono)
  have inv: "distinct (map request_handle (idle_conns w @ w_in_flight w))"
      "request_handle ` set (idle_conns w @ w_in_flight w) \<subseteq> w_handles w"
      "\<And>c. c \<in> set (idle_conns w) \<Longrightarrow> idle_ok (reuse_cap (w_pool w)) (w_uses w) c"
      "\<And>c. c \<in> set (w_in_flight w) \<Longrightarrow> flight_ok (reuse_cap (w_pool w)) (w_uses w) c"
      "\<And>c. c \<in> set futures \<Longrightarrow> \<not> should_drop c" "\<And>h. int (w_uses w h) \<le> reuse_cap (w_pool w)"
      "1 \<le> reuse_cap (w_pool w)" "\<And>h. h \<notin> w_handles w \<Longrightarrow> w_uses w h = 0"
    using assms(1,2) by (simp_all add: reuse_inv_def Let_def)
  have dist: "distinct (map request_handle (rest @ w_in_flight w @ vec))"
    by (rule distinct_map_submset [OF live inv(1)])
  have idle_set: "set rest \<subseteq> set (idle_conns w)" "set futures \<subseteq> set (idle_conns w)"
    using mset_eq_setD [of "idle_conns w" "rest @ futures"] idle by auto
  have other: "request_handle c \<notin> request_handle ` set vec" if "c \<in> set rest \<union> set (w_in_flight w)" for c
    using dist that by auto
  have cap: "reuse_cap p = reuse_cap (w_pool w)" by (simp add: reuse_cap_def effect(5))
  have vec_ok: "idle_ok (reuse_cap (w_pool w)) (w_uses w) c" "\<not> should_drop c" if "c \<in> set vec" for c
    using that vec idle_set inv(3,5) by auto
  have uses: "w_uses w' h = (if h \<in> request_handle ` set vec then w_uses w h + 1 else w_uses w h)" for h
    by (simp add: w')
  have "idle_ok (reuse_cap p) (w_uses w') c" if "c \<in> set rest" for c
    using that other [of c] idle_set inv(3) [of c] by (auto simp: idle_ok_def uses cap)
  moreover have "flight_ok (reuse_cap p) (w_uses w') c" if "c \<in> set (w_in_flight w @ vec)" for c
    using that other [of c] inv(4) [of c] vec_ok [of c] by (auto simp: idle_ok_def flight_ok_def uses cap)
  moreover have "int (w_uses w' h) \<le> reuse_cap p \<and> (h \<notin> w_handles w \<longrightarrow> w_uses w' h = 0)" for h
    using vec_ok inv(2,6,8) vec idle_set by (force simp: uses cap idle_ok_def)
  moreover have "request_handle ` set (rest @ w_in_flight w @ vec) \<subseteq> w_handles w"
    using inv(2) idle_set vec unfolding image_subset_iff set_append by blast
  ultimately show ?thesis
    using dist inv(7) unfolding reuse_inv_def Let_def rest_def by (simp add: w' cap)
qed

lemma mark_returned_idle_ok:
  assumes "flight_ok cap uses c" "cap \<le> i32_max"
  shows "idle_ok cap uses (mark_returned now c)"
proof -
  have "i32_wrap (remaining_reuse c - 1) = remaining_reuse c - 1"
    using assms by (intro i32_wrap_exact) (auto simp: flight_ok_def)
  with assms(1) show ?thesis by (auto simp: mark_returned_def flight_ok_def idle_ok_def Let_def)
qed

lemma request_handle_mark_returned [simp]: "request_handle (mark_returned now c) = request_handle c"
  by (simp add: mark_returned_def Let_def)

lemma reuse_inv_return:
  assumes "reuse_inv w" "w_in_flight w = cs1 @ c # cs2"
    and eff: "return_connection now c (w_pool w, w_metrics w) = (p, m)"
    and w': "w' = w\<lparr>w_pool := p, w_metrics := m, w_in_flight := cs1 @ cs2\<rparr>"
  shows "reuse_inv w'"
proof -
  note effect = return_effect [OF eff]
  have idle: "mset (idle_conns w') = mset (idle_conns w) + {#mark_returned now c#}"
    by (simp add: idle_conns_def w' effect(1-3))
  then have idle_set: "set (idle_conns w') = insert (mark_returned now c) (set (idle_conns w))"
    using mset_eq_setD [of "idle_conns w'" "mark_returned now c # idle_conns w"] by simp
  have live: "mset (map request_handle (idle_conns w' @ w_in_flight w'))
      = mset (map request_handle (idle_conns w @ w_in_flight w))"
    using idle by (simp add: w' assms(2))
  have cap: "reuse_cap p = reuse_cap (w_pool w)" by (simp add: reuse_cap_def effect(6))
  have "flight_ok (reuse_cap (w_pool w)) (w_uses w) c"
    using assms(1,2) by (simp add: reuse_inv_def Let_def)
  then have "idle_ok (reuse_cap (w_pool w)) (w_uses w) (mark_returned now c)"
    by (intro mark_returned_idle_ok reuse_cap_le)
  moreover have "distinct (map request_handle (idle_conns w' @ w_in_flight w'))"
    using mset_eq_imp_distinct_iff [OF live] assms(1) by (simp only: reuse_inv_def Let_def)
  moreover have "request_handle ` set (idle_conns w' @ w_in_flight w') \<subseteq> w_handles w"
    using mset_eq_setD [OF live] assms(1) unfolding reuse_inv_def Let_def by (metis set_map)
  ultimately show ?thesis
    using assms(1,2) idle_set by (simp add: reuse_inv_def Let_def w' cap)
qed

lemma open_connection_remaining:
  "open_connection tcp h now ka = Some c \<Longrightarrow>
     remaining_reuse c = i32_try_into_or_max (unat (max_request_per_connection ka))"
  by (auto simp: open_connection_def split: if_splits option.splits)

lemma reuse_inv_opens:
  assumes "reuse_inv w" "w_tasks w = ts1 @ t # ts2" "task_conns t = []"
    and "outcomes_ok w t outcomes"
    and p: "p = (w_pool w)\<lparr>failed_connection := f\<rparr>"
    and w': "w' = w\<lparr>w_pool := p, w_metrics := m, w_tasks := ts1 @ [AppendTask (opened outcomes)] @ ts2,
                    w_handles := w_handles w \<union> request_handle ` set (opened outcomes)\<rparr>"
  shows "reuse_inv w'"
proof -
  let ?new = "opened outcomes"
  have idle: "mset (idle_conns w') = mset (idle_conns w) + mset ?new"
    by (simp add: idle_conns_def w' p assms(2,3))
  then have idle_set: "set (idle_conns w') = set (idle_conns w) \<union> set ?new"
    using mset_eq_setD [of "idle_conns w'" "idle_conns w @ ?new"] by simp
  have live: "mset (map request_handle (idle_conns w' @ w_in_flight w'))
      = mset (map request_handle (idle_conns w @ w_in_flight w @ ?new))"
    using idle by (simp add: w')
  have fresh: "request_handle c \<notin> w_handles w" if "c \<in> set ?new" for c
    using assms(4) that unfolding outcomes_ok_def by blast
  have dist_new: "distinct (map request_handle ?new)"
    using assms(4) by (simp add: outcomes_ok_def)
  have cap: "reuse_cap p = reuse_cap (w_pool w)" by (simp add: reuse_cap_def p)
  have new_ok: "idle_ok (reuse_cap (w_pool w)) (w_uses w) c" if "c \<in> set ?new" for c
  proof -
    from assms(4) that
    have "\<exists>now. open_connection True (Some (request_handle c)) now (keep_alive (w_pool w)) = Some c"
      unfolding outcomes_ok_def by blast
    then have "remaining_reuse c = reuse_cap (w_pool w)"
      unfolding reuse_cap_def by (elim exE) (rule open_connection_remaining)
    moreover have "w_uses w (request_handle c) = 0" "1 \<le> reuse_cap (w_pool w)"
      using assms(1) fresh [OF that] by (auto simp: reuse_inv_def Let_def)
    ultimately show ?thesis by (simp add: idle_ok_def)
  qed
  have "distinct (map request_handle (idle_conns w @ w_in_flight w @ ?new))"
    using assms(1) fresh dist_new by (auto simp: reuse_inv_def Let_def)
  then have "distinct (map request_handle (idle_conns w' @ w_in_flight w'))"
    using mset_eq_imp_distinct_iff [OF live] by (simp only:)
  then show ?thesis
    using assms(1) new_ok idle_set by (auto simp: reuse_inv_def Let_def w' cap)
qed

lemma pool_step_reuse_inv:
  assumes "reuse_inv w" "pool_step w e w'"
  shows "reuse_inv w'"
  using assms(2)
proof cases
  case (set_count n ts p m)
  note effect = set_connection_count_effect [OF set_count(4)]
  have "mset (idle_conns w') \<subseteq># mset (idle_conns w)"
    by (simp add: idle_conns_def set_count(2) effect mset_take_subset(2) subset_mset.add_right_mono)
  then show ?thesis
    by (rule reuse_inv_fewer [OF assms(1)]) (simp_all add: set_count effect)
next
  case (claim r p n)
  note effect = claim_recyclable_effect [OF claim(4)]
  have "mset (idle_conns w') = mset (idle_conns w)" by (simp add: idle_conns_def claim(2,3) effect)
  then show ?thesis by (intro reuse_inv_fewer [OF assms(1)]) (simp_all add: claim effect)
next
  case (select n r ts dropped futures p m)
  from reuse_inv_select [OF assms(1) select(3,4,2)] show ?thesis .
next
  case (finish dropped futures checked ts vec p m)
  from reuse_inv_finish [OF assms(1) finish(3,4,5,2)] show ?thesis .
next
  case (task ts1 t ts2 outcomes ts p m)
  from task(4) have "length outcomes \<le> task_size t" by (simp add: outcomes_ok_def)
  from task(5) this show ?thesis
  proof (cases rule: run_pool_task_cases)
    case opens
    then have "task_conns t = []" by (cases t) auto
    from reuse_inv_opens [OF assms(1) task(3) this task(4) opens(7), of w' m] opens(1,3) task(2)
    show ?thesis by simp
  next
    case (appends cs)
    have "mset (idle_conns w') = mset (idle_conns w)"
      by (simp add: idle_conns_def task(2,3) appends)
    then show ?thesis by (intro reuse_inv_fewer [OF assms(1)])
        (use assms(1) in \<open>simp_all add: task(2) appends reuse_inv_def Let_def\<close>)
  next
    case (shrinks d)
    have "mset (idle_conns w') \<subseteq># mset (idle_conns w)"
      by (simp add: idle_conns_def task(2,3) shrinks mset_take_subset(1)
          subset_mset.add_right_mono subset_mset.add_left_mono)
    then show ?thesis by (rule reuse_inv_fewer [OF assms(1)])
        (use assms(1) in \<open>simp_all add: task(2) shrinks reuse_inv_def Let_def\<close>)
  qed
next
  case (return cs1 c cs2 now p m)
  from reuse_inv_return [OF assms(1) return(3,4,2)] show ?thesis .
qed

section \<open>Reachable pools\<close>

definition fixed_pool_initial :: "pool_world \<Rightarrow> bool" where
  "fixed_pool_initial w \<longleftrightarrow> (\<exists>hp ka now buckets. w = pool_world_new hp ka False now buckets)"

lemmas pool_new_defs = pool_world_new_def queue_pool_new_def new_metrics_def

lemma reuse_cap_pos: "0 < max_request_per_connection (keep_alive p) \<Longrightarrow> 1 \<le> reuse_cap p"
  by (simp add: reuse_cap_def i32_try_into_or_max_def word_less_nat_alt del: of_nat_unat)

lemma pool_world_new_inv:
  "busy_inv (pool_world_new hp ka el now b)"
  "peak_inv (pool_world_new hp ka False now b)"
  "capacity_inv (pool_world_new hp ka el now b)"
  "0 < max_request_per_connection ka \<Longrightarrow> reuse_inv (pool_world_new hp ka el now b)"
  using reuse_cap_pos [of "queue_pool_new hp ka el now"]
  by (simp_all add: busy_inv_def peak_inv_def capacity_inv_def settled_capacity_def incoming_def
      reuse_inv_def idle_conns_def Let_def pool_new_defs)

interpretation busy_accounting: step_invariant "\<lambda>w w'. \<exists>e. pool_step w e w'" pool_initial busy_inv
  by unfold_locales (auto simp: pool_initial_def pool_world_new_inv intro: pool_step_busy_inv)

interpretation fixed_size: step_invariant "\<lambda>w w'. \<exists>e. pool_step w e w'" fixed_pool_initial peak_inv
  by unfold_locales (auto simp: fixed_pool_initial_def pool_world_new_inv intro: pool_step_peak_inv)

interpretation replenished: step_invariant "\<lambda>w w'. \<exists>e. pool_step w e w' \<and> orderly w e" pool_initial capacity_inv
  by unfold_locales (auto simp: pool_initial_def pool_world_new_inv intro: pool_step_capacity_inv)

interpretation bounded_reuse: step_invariant "\<lambda>w w'. \<exists>e. pool_step w e w'" pool_initial reuse_inv
  by unfold_locales (auto simp: pool_initial_def pool_world_new_inv intro: pool_step_reuse_inv)

section \<open>Scripted runs\<close>

text \<open>An executable driver of the step relation: the network is given as the handles and times of
  the connections that open.\<close>

datatype pool_cmd =
    CSet usize | CClaim u32 | CSelect | CFinish "bool list"
  | CTask nat "(nat \<times> u64) option list" | CReturn nat u64

definition script_outcomes :: "pool_world \<Rightarrow> (nat \<times> u64) option list \<Rightarrow> http_connection option list" where
  "script_outcomes w = map (\<lambda>x. case x of None \<Rightarrow> None
     | Some (h, now) \<Rightarrow> open_connection True (Some h) now (keep_alive (w_pool w)))"

definition script_handles :: "(nat \<times> u64) option list \<Rightarrow> nat list" where
  "script_handles os = map (\<lambda>x. fst (the x)) (filter (\<lambda>x. x \<noteq> None) os)"

fun pool_exec :: "pool_cmd \<Rightarrow> pool_world \<Rightarrow> pool_world option" where
  "pool_exec (CSet n) w =
     (if w_phase w = NoCall
      then let (ts, p, m) = set_connection_count n (w_pool w, w_metrics w)
        in Some (w\<lparr>w_pool := p, w_metrics := m, w_tasks := w_tasks w @ ts, w_peak := max (w_peak w) (int n)\<rparr>)
      else None)"
| "pool_exec (CClaim n) w =
     (if w_phase w = NoCall
      then let (r, p) = claim_recyclable (w_pool w) in Some (w\<lparr>w_pool := p, w_phase := Claimed n r\<rparr>)
      else None)"
| "pool_exec CSelect w =
     (case w_phase w of
        Claimed n r \<Rightarrow>
          (let (ts, dropped, futures, p, m) = select_connections n r (w_pool w, w_metrics w)
           in Some (w\<lparr>w_pool := p, w_metrics := m, w_tasks := w_tasks w @ ts,
                      w_phase := Checking dropped futures\<rparr>))
      | _ \<Rightarrow> None)"
| "pool_exec (CFinish rs) w =
     (case w_phase w of
        Checking dropped futures \<Rightarrow>
          (if length rs = length futures
           then let (ts, vec, p, m) = finish_get_connections dropped (zip futures rs) (w_pool w, w_metrics w)
             in Some (w\<lparr>w_pool := p, w_metrics := m, w_tasks := w_tasks w @ ts,
                        w_in_flight := w_in_flight w @ vec, w_phase := NoCall,
                        w_uses := (\<lambda>h. if h \<in> request_handle ` set vec then w_uses w h + 1 else w_uses w h)\<rparr>)
           else None)
      | _ \<Rightarrow> None)"
| "pool_exec (CTask i os) w =
     (if i < length (w_tasks w) \<and> length os \<le> task_size (w_tasks w ! i)
         \<and> distinct (script_handles os) \<and> set (script_handles os) \<inter> w_handles w = {}
      then let t = w_tasks w ! i; (ts, p, m) = run_pool_task t (script_outcomes w os) (w_pool w, w_metrics w)
        in Some (w\<lparr>w_pool := p, w_metrics := m,
                   w_tasks := take i (w_tasks w) @ ts @ drop (Suc i) (w_tasks w),
                   w_handles := w_handles w \<union> new_handles t (script_outcomes w os)\<rparr>)
      else None)"
| "pool_exec (CReturn i now) w =
     (if i < length (w_in_flight w)
      then let (p, m) = return_connection now (w_in_flight w ! i) (w_pool w, w_metrics w)
        in Some (w\<lparr>w_pool := p, w_metrics := m,
                   w_in_flight := take i (w_in_flight w) @ drop (Suc i) (w_in_flight w)\<rparr>)
      else None)"

fun pool_script :: "pool_cmd list \<Rightarrow> pool_world \<Rightarrow> pool_world option" where
  "pool_script [] w = Some w"
| "pool_script (c # cs) w = (case pool_exec c w of None \<Rightarrow> None | Some w' \<Rightarrow> pool_script cs w')"

fun cmd_event :: "pool_cmd \<Rightarrow> pool_event" where
  "cmd_event (CSet n) = SetCount n"
| "cmd_event (CClaim n) = Claim n"
| "cmd_event CSelect = Select"
| "cmd_event (CFinish _) = Finish"
| "cmd_event (CTask _ _) = RunTask"
| "cmd_event (CReturn _ _) = Return"

lemma opened_script:
  "opened (script_outcomes w os) = map (\<lambda>x. the (open_connection True (Some (fst (the x))) (snd (the x)) (keep_alive (w_pool w))))
     (filter (\<lambda>x. x \<noteq> None) os)"
  by (induction os) (auto simp: opened_def script_outcomes_def open_connection_def split: option.splits)

lemma handles_opened_script: "map request_handle (opened (script_outcomes w os)) = script_handles os"
  by (simp add: opened_script script_handles_def open_connection_def)

lemma script_outcomes_ok:
  assumes "length os \<le> task_size t" "distinct (script_handles os)" "set (script_handles os) \<inter> w_handles w = {}"
  shows "outcomes_ok w t (script_outcomes w os)"
  unfolding outcomes_ok_def
proof (intro conjI ballI)
  show "length (script_outcomes w os) \<le> task_size t" using assms(1) by (simp add: script_outcomes_def)
  show "distinct (map request_handle (opened (script_outcomes w os)))"
    using assms(2) by (simp add: handles_opened_script)
  fix c assume c: "c \<in> set (opened (script_outcomes w os))"
  then have "request_handle c \<in> set (script_handles os)"
    by (metis handles_opened_script image_eqI set_map)
  with assms(3) show "request_handle c \<notin> w_handles w" by auto
  from c show "\<exists>now. open_connection True (Some (request_handle c)) now (keep_alive (w_pool w)) = Some c"
    by (auto simp: opened_script open_connection_def)
qed

lemma pool_exec_step: "pool_exec c w = Some w' \<Longrightarrow> pool_step w (cmd_event c) w'"
proof (cases c)
  case (CTask i os)
  assume "pool_exec c w = Some w'"
  with CTask show ?thesis
    by (auto simp: Let_def split: if_splits prod.splits simp: id_take_nth_drop
        intro!: pool_step.task [OF id_take_nth_drop] script_outcomes_ok)
next
  case (CReturn i now)
  assume "pool_exec c w = Some w'"
  with CReturn show ?thesis
    by (auto simp: Let_def split: if_splits prod.splits intro!: pool_step.return [OF id_take_nth_drop])
next
  case (CFinish rs)
  assume "pool_exec c w = Some w'"
  with CFinish show ?thesis
    by (auto simp: Let_def split: if_splits prod.splits get_phase.splits intro!: pool_step.finish)
qed (auto simp: Let_def split: if_splits prod.splits get_phase.splits intro: pool_step.intros)

lemma pool_script_reaches: "pool_script cs w = Some w' \<Longrightarrow> pool_reaches w w'"
proof (induction cs arbitrary: w)
  case (Cons c cs)
  then obtain w1 where "pool_exec c w = Some w1" "pool_script cs w1 = Some w'"
    by (auto split: option.splits)
  with Cons.IH pool_exec_step show ?case
    unfolding pool_reaches_def by (blast intro: converse_rtranclp_into_rtranclp)
qed (simp add: pool_reaches_def)

section \<open>Properties\<close>

definition demo_pool :: "bool \<Rightarrow> pool_world" where
  "demo_pool el = pool_world_new ''h:80'' \<lparr>ttl = 1000, max_request_per_connection = 2\<rparr> el 0 []"

lemma demo_pool_initial: "pool_initial (demo_pool el)" "fixed_pool_initial (demo_pool False)"
proof -
  have "0 < max_request_per_connection \<lparr>ttl = 1000, max_request_per_connection = 2\<rparr>" by simp
  then show "pool_initial (demo_pool el)" unfolding pool_initial_def demo_pool_def by blast
  show "fixed_pool_initial (demo_pool False)" unfolding fixed_pool_initial_def demo_pool_def by blast
qed

definition demo_run :: "pool_cmd list" where
  "demo_run = [CSet 2, CTask 0 [Some (7, 5), None], CTask 0 [], CClaim 3, CSelect, CFinish [True]]"

lemma demo_run_eval:
  "map_option (\<lambda>w. (length (w_in_flight w), w_peak w, w_uses w 7, list_all (\<lambda>t. shrink_of t = 0) (w_tasks w)))
     (pool_script demo_run (demo_pool False)) = Some (1, 2, 1, True)"
  by code_simp

definition demo_world :: pool_world where
  "demo_world = the (pool_script demo_run (demo_pool False))"

lemma demo_run_result:
  "pool_script demo_run (demo_pool False) = Some demo_world" "length (w_in_flight demo_world) = 1"
  "w_peak demo_world = 2" "w_uses demo_world 7 = 1" "no_shrink demo_world"
  using demo_run_eval by (auto simp: demo_world_def no_shrink_def list_all_iff)

lemma demo_world_reached: "pool_reaches (demo_pool False) demo_world"
  by (rule pool_script_reaches [OF demo_run_result(1)])



text \<open>C5: a pool that is created with a fixed size never has more connections handed out, being
  checked or waiting to be reclaimed than the largest size that was ever set, even while
  sizes change and tasks are pending.\<close>
theorem pool_size_respected:
  assumes "fixed_pool_initial w\<^sub>0" "pool_reaches w\<^sub>0 w"
  shows "int (length (w_in_flight w) + length (recyclable_connections (w_pool w)) + length (in_check (w_phase w)))
           \<le> w_peak w"
  using fixed_size.reachable_inv [OF assms [unfolded pool_reaches_def]]
  by (simp add: peak_inv_def busy_inv_def)

theorem pool_size_respected_witness:
  "fixed_pool_initial (demo_pool False) \<and> pool_reaches (demo_pool False) demo_world
   \<and> int (length (w_in_flight demo_world)) \<le> 2"
  using pool_size_respected [OF demo_pool_initial(2) demo_world_reached] demo_pool_initial(2)
    demo_world_reached demo_run_result by simp

text \<open>C3: a connection is handed out at most \<open>max_request_per_connection\<close> times (capped at the
  largest \<open>i32\<close>), a flagged connection is never handed out, and no connection is handed out to two
  borrowers at once.\<close>
theorem pool_reuse_bounded:
  assumes "pool_initial w\<^sub>0" "pool_reaches w\<^sub>0 w"
  shows "int (w_uses w h) \<le> i32_try_into_or_max (unat (max_request_per_connection (keep_alive (w_pool w))))
         \<and> (\<forall>c \<in> set (w_in_flight w). \<not> should_drop c \<and> 1 \<le> remaining_reuse c)
         \<and> distinct (map request_handle (w_in_flight w))"
  using bounded_reuse.reachable_inv [OF assms [unfolded pool_reaches_def]]
  by (simp_all add: reuse_inv_def flight_ok_def reuse_cap_def Let_def)

theorem pool_reuse_bounded_witness:
  "pool_initial (demo_pool False) \<and> pool_reaches (demo_pool False) demo_world
   \<and> w_uses demo_world 7 = 1
   \<and> int (w_uses demo_world 7)
        \<le> i32_try_into_or_max (unat (max_request_per_connection (keep_alive (w_pool demo_world))))
   \<and> \<not> should_drop (hd (w_in_flight demo_world))"
proof -
  have "hd (w_in_flight demo_world) \<in> set (w_in_flight demo_world)"
    using demo_run_result by (intro hd_in_set) auto
  with pool_reuse_bounded [OF demo_pool_initial(1) demo_world_reached, of 7]
  show ?thesis
    using demo_pool_initial(1) demo_world_reached demo_run_result by simp
qed

text \<open>C19: on an orderly run the pool never loses capacity for good: in every reachable state in
  which no task, no call and no counted failure is pending, the connections that are queued,
  new, handed out or returned add up to at least the pool size; in general, whatever is missing is
  being opened or is counted for the next refill.\<close>
theorem pool_capacity_replenished:
  assumes "pool_initial w\<^sub>0" "orderly_reaches w\<^sub>0 w" "no_shrink w"
  shows "max_connection (w_pool w)
           \<le> int (length (connections (w_pool w)) + length (new_connections (w_pool w)) + length (w_in_flight w)
                 + length (recyclable_connections (w_pool w)) + length (in_check (w_phase w)) + dropped_in (w_phase w)
                 + sum_list (map task_size (w_tasks w)) + failed_connection (w_pool w))"
  using replenished.reachable_inv [OF assms(1,2) [unfolded orderly_reaches_def]] pending_shrink_zero [OF assms(3)]
  by (simp add: capacity_inv_def settled_capacity_def incoming_def pending_adds_def)

fun orderly_script :: "pool_cmd list \<Rightarrow> pool_world \<Rightarrow> bool" where
  "orderly_script [] w = True"
| "orderly_script (c # cs) w =
     (orderly w (cmd_event c) \<and> (case pool_exec c w of None \<Rightarrow> False | Some w' \<Rightarrow> orderly_script cs w'))"

lemma orderly_script_reaches:
  "pool_script cs w = Some w' \<Longrightarrow> orderly_script cs w \<Longrightarrow> orderly_reaches w w'"
proof (induction cs arbitrary: w)
  case (Cons c cs)
  then obtain w1 where "pool_exec c w = Some w1" "pool_script cs w1 = Some w'" "orderly w (cmd_event c)"
      "orderly_script cs w1"
    by (auto split: option.splits)
  with Cons.IH pool_exec_step show ?case
    unfolding orderly_reaches_def by (blast intro: converse_rtranclp_into_rtranclp)
qed (simp add: orderly_reaches_def)

lemma demo_run_orderly: "orderly_script demo_run (demo_pool False)"
  by code_simp

theorem pool_capacity_replenished_witness:
  "pool_initial (demo_pool False) \<and> orderly_reaches (demo_pool False) demo_world \<and> no_shrink demo_world
   \<and> max_connection (w_pool demo_world)
           \<le> int (length (connections (w_pool demo_world)) + length (new_connections (w_pool demo_world))
                 + length (w_in_flight demo_world) + length (recyclable_connections (w_pool demo_world))
                 + length (in_check (w_phase demo_world)) + dropped_in (w_phase demo_world)
                 + sum_list (map task_size (w_tasks demo_world)) + failed_connection (w_pool demo_world))"
proof -
  have reached: "orderly_reaches (demo_pool False) demo_world"
    by (rule orderly_script_reaches [OF demo_run_result(1) demo_run_orderly])
  show ?thesis
    using demo_pool_initial(1) reached demo_run_result(5)
      pool_capacity_replenished [OF demo_pool_initial(1) reached] by blast
qed

text \<open>Without that order the pool can lose capacity. The size is set to 2, both connections
  open, the size is set to 1 and back to 2 before the task of the reduction has run: the second
  setting sees two connections and asks for none, the late task then removes one. Nothing is
  pending, the size is 2 and one connection is left.\<close>
theorem pool_capacity_lost_by_late_shrink:
  "\<exists>w. pool_reaches (demo_pool False) w \<and> max_connection (w_pool w) = 2
     \<and> w_tasks w = [] \<and> w_phase w = NoCall \<and> failed_connection (w_pool w) = 0 \<and> w_in_flight w = []
     \<and> length (connections (w_pool w)) + length (new_connections (w_pool w))
         + length (recyclable_connections (w_pool w)) = 1"
proof -
  let ?cs = "[CSet 2, CTask 0 [Some (1, 0), Some (2, 0)], CTask 0 [], CSet 1, CSet 2, CTask 1 [], CTask 0 []]"
  have "map_option (\<lambda>w. (max_connection (w_pool w), w_tasks w, w_phase w, failed_connection (w_pool w),
        w_in_flight w, length (connections (w_pool w)) + length (new_connections (w_pool w))
         + length (recyclable_connections (w_pool w)))) (pool_script ?cs (demo_pool False))
      = Some (2, [], NoCall, 0, [], 1)"
    by code_simp
  then show ?thesis
    using pool_script_reaches [of ?cs "demo_pool False"] by auto
qed

definition single_use_pool :: pool_world where
  "single_use_pool = pool_world_new ''h:80'' \<lparr>ttl = 1000, max_request_per_connection = 1\<rparr> False 0 []"

definition single_use_run :: "pool_cmd list" where
  "single_use_run = [CSet 1, CTask 0 [Some (1, 0)], CTask 0 [], CClaim 1, CSelect, CFinish [True],
     CReturn 0 3, CClaim 1, CSelect, CFinish []]"

lemma single_use_eval:
  "map_option (\<lambda>w. (idle_conns w, w_phase w, w_in_flight w, mt_idle (w_metrics w)))
     (pool_script single_use_run single_use_pool) = Some ([], NoCall, [], 1)"
  by code_simp

text \<open>The idle gauge drifts. A connection that is used up is dropped when it is next popped, and the
  gauge that counted it on its return is not reduced: after one connection with a single use
  was opened, used, returned and dropped, nothing is idle and the gauge shows 1.\<close>
theorem pool_idle_gauge_drifts:
  "\<exists>w. pool_reaches single_use_pool w
     \<and> idle_conns w = [] \<and> w_phase w = NoCall \<and> w_in_flight w = [] \<and> mt_idle (w_metrics w) = 1"
  using single_use_eval pool_script_reaches [of single_use_run single_use_pool] by auto

lemma length_enforced:
  "\<not> elastic p \<Longrightarrow> length (enforced p b cs) = min (length cs) (nat (max_connection p - int b))"
  by (simp add: enforced_def)

lemma undisturbed_grant:
  assumes "\<not> elastic p" "length (recyclable_connections p) \<le> busy_connections p"
    and "\<forall>c \<in> set (connections p @ recyclable_connections p @ new_connections p). \<not> should_drop c"
    and "\<forall>cs. mset (map fst (ready cs)) = mset cs \<and> (\<forall>x \<in> set (ready cs). snd x)"
    and "get_connections ready n (p, m) = (ts, vec, p', m')"
  defines "in_use \<equiv> busy_connections p - length (recyclable_connections p)"
    and "all_conns \<equiv> connections p @ recyclable_connections p @ new_connections p"
  shows "length vec = min (unat n) (min (length all_conns) (nat (max_connection p - int in_use)))"
    "mset vec \<subseteq># mset all_conns" "busy_connections p' = in_use + length vec"
    "ts = (if failed_connection p = 0 then [] else [AddTask (int (failed_connection p))])"
    "connections p' = drop (unat n) (enforced p in_use all_conns)"
    "elastic p' = elastic p" "recyclable_connections p' = []" "new_connections p' = []" "failed_connection p' = 0"
    "max_connection p' = max_connection p"
proof -
  obtain r p1 where c: "claim_recyclable p = (r, p1)" by fastforce
  obtain ts1 dropped futures p2 m2 where sel: "select_connections n r (p1, m) = (ts1, dropped, futures, p2, m2)"
    by (metis prod_cases5)
  obtain ts2 vec' p3 m3 where fin: "finish_get_connections dropped (ready futures) (p2, m2) = (ts2, vec', p3, m3)"
    by (metis prod_cases4)
  from assms(5) c sel fin have eq: "vec = vec'" "p' = p3" "ts = ts1 @ ts2"
    by (simp_all add: get_connections_def)
  note ce = claim_recyclable_effect [OF c] and se = select_connections_effect [OF sel] and fe = finish_effect [OF fin]
  let ?conns = "enforced p in_use all_conns"
  have same: "enforced p1 = enforced p" by (intro ext) (simp add: enforced_def ce)
  have conns: "enforced p1 (usize_sub (busy_connections p1) r) (connections p1 @ new_connections p1) = ?conns"
    using assms(2) by (simp add: ce same in_use_def all_conns_def)
  have sub: "set ?conns \<subseteq> set all_conns" using set_mset_mono [OF mset_enforced, of p in_use all_conns] by simp
  then have live: "\<forall>c \<in> set (take (unat n) ?conns). \<not> should_drop c"
    using assms(3) unfolding all_conns_def by (meson in_set_takeD subsetD)
  then have fut: "futures = take (unat n) ?conns" "dropped = 0"
    by (simp_all add: se(10,11) conns filter_id_conv filter_empty_conv)
  have vec: "vec' = map fst (ready futures)" using fe(8) assms(4) by (simp add: filter_id_conv)
  then have "mset vec' = mset futures" using assms(4) by simp
  then have len: "length vec' = length futures" "set vec' = set futures"
    by (metis size_mset, metis mset_eq_setD)
  show "length vec = min (unat n) (min (length all_conns) (nat (max_connection p - int in_use)))"
    unfolding eq len fut(1) length_take length_enforced [OF assms(1)] by (simp only: min.commute)
  show "mset vec \<subseteq># mset all_conns"
    unfolding eq vec fut(1) using assms(4) mset_enforced mset_take_subset subset_mset.order_trans by metis
  show "busy_connections p' = in_use + length vec"
    unfolding eq fe(9) se(3) ce(1,5) in_use_def using assms(2) by simp
  have "ts1 = []" using se(12) assms(1) ce(9) by simp
  moreover have "length (ready futures) = length vec'" using vec by simp
  then have "ts2 = (if failed_connection p = 0 then [] else [AddTask (int (failed_connection p))])"
    unfolding fe(11) se(4) ce(6) fut(2) by (simp add: add_new_connection_mut_def)
  ultimately show "ts = (if failed_connection p = 0 then [] else [AddTask (int (failed_connection p))])"
    unfolding eq(3) by simp
  show "connections p' = drop (unat n) ?conns" unfolding eq fe(3) se(9) conns ..
  show "elastic p' = elastic p" "recyclable_connections p' = []" "new_connections p' = []"
    "failed_connection p' = 0" "max_connection p' = max_connection p"
    unfolding eq by (simp_all only: fe se ce)
qed

text \<open>C20: an undisturbed request for connections on a pool of fixed size whose connections are
  live and ready hands out exactly as many as were asked for, as are there, and as the size
  leaves room for next to those still in use; all of them come from the pool, the busy count
  rises by that number, and every failure counted so far is turned into one refill task.\<close>
theorem get_connections_grants:
  assumes "\<not> elastic p" "length (recyclable_connections p) \<le> busy_connections p"
    and "\<forall>c \<in> set (connections p @ recyclable_connections p @ new_connections p). \<not> should_drop c"
    and "\<forall>cs. mset (map fst (ready cs)) = mset cs \<and> (\<forall>x \<in> set (ready cs). snd x)"
    and "get_connections ready n (p, m) = (ts, vec, p', m')"
  shows "let in_use = busy_connections p - length (recyclable_connections p);
             total = length (connections p) + length (recyclable_connections p) + length (new_connections p)
         in length vec = min (unat n) (min total (nat (max_connection p - int in_use)))
            \<and> set vec \<subseteq> set (connections p @ recyclable_connections p @ new_connections p)
            \<and> busy_connections p' = in_use + length vec
            \<and> ts = (if failed_connection p = 0 then [] else [AddTask (int (failed_connection p))])"
proof -
  note g = undisturbed_grant [OF assms]
  have "set vec \<subseteq> set (connections p @ recyclable_connections p @ new_connections p)"
    using set_mset_mono [OF g(2)] by (simp only: set_mset_mset)
  with g(1,3,4) show ?thesis unfolding Let_def by (simp only: length_append add.assoc simp_thms)
qed

theorem get_connections_grants_witness:
  "let ready = (\<lambda>cs. map (\<lambda>c. (c, True)) cs); c = \<lparr>request_handle = 1, should_drop = False, expire_at = 9, remaining_reuse = 2\<rparr>;
       p = (queue_pool_new ''h'' \<lparr>ttl = 5, max_request_per_connection = 2\<rparr> False 0)\<lparr>max_connection := 2,
             connections := [c], new_connections := [c\<lparr>request_handle := 2\<rparr>, c\<lparr>request_handle := 3\<rparr>]\<rparr>
   in length (fst (snd (get_connections ready 5 (p, new_metrics [])))) = 2"
proof -
  let ?c = "\<lparr>request_handle = 1, should_drop = False, expire_at = 9, remaining_reuse = 2\<rparr>"
  let ?p = "(queue_pool_new ''h'' \<lparr>ttl = 5, max_request_per_connection = 2\<rparr> False 0)\<lparr>max_connection := 2,
             connections := [?c], new_connections := [?c\<lparr>request_handle := 2\<rparr>, ?c\<lparr>request_handle := 3\<rparr>]\<rparr>"
  let ?ready = "\<lambda>cs :: http_connection list. map (\<lambda>c. (c, True)) cs"
  obtain ts vec p' m' where g: "get_connections ?ready 5 (?p, new_metrics []) = (ts, vec, p', m')"
    by (metis prod_cases4)
  have "\<forall>cs. mset (map fst (?ready cs)) = mset cs \<and> (\<forall>x \<in> set (?ready cs). snd x)" by (simp add: comp_def)
  from get_connections_grants [OF _ _ _ this g] g show ?thesis
    by (simp add: queue_pool_new_def Let_def)
qed

end
