(* ===== verification/Data_Gen.thy ===== *)
theory Data_Gen
  imports Json_Value "HOL-Library.Monad_Syntax"
begin

text \<open>
  Random data from JSON schemas (\<open>datagen/src/lib.rs\<close>): parsing and validating a schema, writing
  it back, and generating an object for it.

  A \<open>HashMap\<close> is an association list in its iteration order. Parameters, collected in
  \<open>gen_env\<close>: the random number generators, the regular expression parser and the generator for a
  parsed expression (\<open>None\<close> when it fails or when its output is not UTF-8). A generator that
  panics is \<open>None\<close>: an empty range, a missing key.
\<close>

section \<open>Schemas\<close>

datatype schema_keyword = KMinLength | KMaxLength | KMinimum | KMaximum | KConstant | KPattern

fun keyword_as_str :: "schema_keyword \<Rightarrow> string" where
  "keyword_as_str KMinLength = ''minLength''"
| "keyword_as_str KMaxLength = ''maxLength''"
| "keyword_as_str KMinimum = ''minimum''"
| "keyword_as_str KMaximum = ''maximum''"
| "keyword_as_str KConstant = ''constant''"
| "keyword_as_str KPattern = ''pattern''"

datatype 'h constraints =
    MinLength i64
  | MaxLength i64
  | Minimum i64
  | Maximum i64
  | ConstantInt i64
  | ConstantStr string
  | ConstantValue json
  | Pattern string "'h option"

fun constraint_as_i64 :: "'h constraints \<Rightarrow> i64 option" where
  "constraint_as_i64 (MinLength x) = Some x"
| "constraint_as_i64 (MaxLength x) = Some x"
| "constraint_as_i64 (Minimum x) = Some x"
| "constraint_as_i64 (Maximum x) = Some x"
| "constraint_as_i64 (ConstantInt x) = Some x"
| "constraint_as_i64 _ = None"

fun constraint_as_str :: "'h constraints \<Rightarrow> string option" where
  "constraint_as_str (ConstantStr x) = Some x"
| "constraint_as_str _ = None"

fun as_pattern :: "'h constraints \<Rightarrow> (string \<times> 'h option) option" where
  "as_pattern (Pattern pattern hir) = Some (pattern, hir)"
| "as_pattern _ = None"

fun as_serde_value :: "'h constraints \<Rightarrow> json option" where
  "as_serde_value (ConstantValue x) = Some x"
| "as_serde_value _ = None"

text \<open>The untagged serialisation of a constraint.\<close>

fun constraint_to_value :: "'h constraints \<Rightarrow> json" where
  "constraint_to_value (MinLength x) = Number (Integral x)"
| "constraint_to_value (MaxLength x) = Number (Integral x)"
| "constraint_to_value (Minimum x) = Number (Integral x)"
| "constraint_to_value (Maximum x) = Number (Integral x)"
| "constraint_to_value (ConstantInt x) = Number (Integral x)"
| "constraint_to_value (ConstantStr x) = String x"
| "constraint_to_value (ConstantValue v) = v"
| "constraint_to_value (Pattern pattern _) = String pattern"

type_synonym 'h constraint_map = "(schema_keyword \<times> 'h constraints) list"

datatype 'h data_schema =
    SEmpty
  | SString string "'h constraint_map"
  | SInteger string "'h constraint_map"
  | SObject "string option" "'h data_schema list"
  | SConstantObject "string option" "'h constraint_map"
  | SArray "string option" "'h data_schema list" "'h constraint_map"

abbreviation KEY_FOR_KEYLESS_SCHEMAS :: string where
  "KEY_FOR_KEYLESS_SCHEMAS \<equiv> ''__''"

datatype schema_error =
    PropertiesNotFound
  | TypeNotFound string
  | ObjectPropertiesNotFound string
  | ObjectNeedsPropertiesOrConstant
  | ArrayItemsNotFound string
  | InvalidConstraints json
  | RequiresMinMax json
  | MinimumAboveMaximum json
  | RequiresMinMaxLength json
  | MinLengthAboveMaxLength json

record ('h, 'g) gen_env =
  rng_i64 :: "i64 \<Rightarrow> i64 \<Rightarrow> 'g \<Rightarrow> i64 \<times> 'g"
  rng_alphabetic :: "'g \<Rightarrow> char \<times> 'g"
  regex_parse :: "string \<Rightarrow> 'h option"
  regex_generate :: "'h \<Rightarrow> 'g \<Rightarrow> string option \<times> 'g"

section \<open>Parsing a schema\<close>

fun parse_constraints :: "('h, 'g) gen_env \<Rightarrow> json_map \<Rightarrow> 'h constraint_map \<Rightarrow> 'h constraint_map option" where
  "parse_constraints E [] cs = Some cs"
| "parse_constraints E ((k, v) # es) cs =
     (if k = ''minimum'' then
        do { x \<leftarrow> json_as_i64 v; parse_constraints E es (map_insert KMinimum (Minimum x) cs) }
      else if k = ''maximum'' then
        do { x \<leftarrow> json_as_i64 v; parse_constraints E es (map_insert KMaximum (Maximum x) cs) }
      else if k = ''minLength'' then
        do { x \<leftarrow> json_as_i64 v; parse_constraints E es (map_insert KMinLength (MinLength x) cs) }
      else if k = ''maxLength'' then
        do { x \<leftarrow> json_as_i64 v; parse_constraints E es (map_insert KMaxLength (MaxLength x) cs) }
      else if k = ''constant'' then
        (case json_as_i64 v of
           Some val \<Rightarrow> parse_constraints E es (map_insert KConstant (ConstantInt val) cs)
         | None \<Rightarrow>
             if is_string v
             then do { s \<leftarrow> json_as_str v; parse_constraints E es (map_insert KConstant (ConstantStr s) cs) }
             else parse_constraints E es (map_insert KConstant (ConstantValue v) cs))
      else if k = ''pattern'' then
        do { pattern \<leftarrow> json_as_str v; hir \<leftarrow> regex_parse E pattern;
             parse_constraints E es (map_insert KPattern (Pattern pattern (Some hir)) cs) }
      else parse_constraints E es cs)"

fun opt_less :: "int option \<Rightarrow> int option \<Rightarrow> bool" where
  "opt_less _ None = False"
| "opt_less None (Some _) = True"
| "opt_less (Some a) (Some b) = (a < b)"

definition range_inverted :: "'h constraint_map \<Rightarrow> schema_keyword \<Rightarrow> schema_keyword \<Rightarrow> bool" where
  "range_inverted cs lo hi =
     (case map_of cs lo of None \<Rightarrow> False
      | Some cmin \<Rightarrow> (case map_of cs hi of None \<Rightarrow> False
          | Some cmax \<Rightarrow> opt_less (constraint_as_i64 cmax) (constraint_as_i64 cmin)))"

definition validate_constraints :: "'h constraint_map \<Rightarrow> json \<Rightarrow> schema_error + unit" where
  "validate_constraints cs properties =
     (if (map_of cs KMinimum \<noteq> None) \<noteq> (map_of cs KMaximum \<noteq> None) then Inl (RequiresMinMax properties)
      else if range_inverted cs KMinimum KMaximum then Inl (MinimumAboveMaximum properties)
      else if (map_of cs KMinLength \<noteq> None) \<noteq> (map_of cs KMaxLength \<noteq> None) then Inl (RequiresMinMaxLength properties)
      else if range_inverted cs KMinLength KMaxLength then Inl (MinLengthAboveMaxLength properties)
      else Inr ())"

definition get_constraints :: "('h, 'g) gen_env \<Rightarrow> json \<Rightarrow> schema_error + 'h constraint_map" where
  "get_constraints E property =
     and_then (ok_or (InvalidConstraints property)
                 (do { es \<leftarrow> as_object property; parse_constraints E es [] }))
       (\<lambda>cs. and_then (validate_constraints cs property) (\<lambda>_. Inr cs))"

definition entries_size :: "json_map \<Rightarrow> nat" where
  "entries_size es = sum_list (map (\<lambda>e. Suc (jsize (snd e))) es)"

function parse_properties :: "('h, 'g) gen_env \<Rightarrow> json_map \<Rightarrow> schema_error + 'h data_schema list" where
  "parse_properties E [] = Inr []"
| "parse_properties E ((k, v) # es) =
     and_then (ok_or (TypeNotFound k) (do { t \<leftarrow> json_get ''type'' v; json_as_str t })) (\<lambda>type.
     and_then
       (if type = ''object'' then
          (case json_get ''properties'' v of
             Some props \<Rightarrow>
               and_then (ok_or (ObjectPropertiesNotFound k) (as_object props)) (\<lambda>ps.
               and_then (parse_properties E ps) (\<lambda>ss. Inr [SObject (Some k) ss]))
           | None \<Rightarrow>
               (case json_get ''constant'' v of
                  Some c \<Rightarrow> Inr [SConstantObject (Some k) [(KConstant, ConstantValue c)]]
                | None \<Rightarrow> Inl ObjectNeedsPropertiesOrConstant))
        else if type = ''string'' then and_then (get_constraints E v) (\<lambda>cs. Inr [SString k cs])
        else if type = ''integer'' then and_then (get_constraints E v) (\<lambda>cs. Inr [SInteger k cs])
        else if type = ''array'' then
          and_then (ok_or (ArrayItemsNotFound k) (json_get ''items'' v)) (\<lambda>items.
          and_then (parse_properties E [(KEY_FOR_KEYLESS_SCHEMAS, items)]) (\<lambda>ss.
          and_then (get_constraints E v) (\<lambda>cs. Inr [SArray (Some k) ss cs])))
        else Inr [])
       (\<lambda>d. and_then (parse_properties E es) (\<lambda>ds. Inr (d @ ds))))"
  by pat_completeness auto
termination
proof (relation "measure (\<lambda>(E, es). entries_size es)", goal_cases)
  case (2 E k v es type props ps)
  from 2(3) have "jsize props < jsize v" by (rule jsize_json_get)
  moreover from 2(4) have "jsize props = Suc (entries_size ps)"
    by (cases props) (auto simp: ok_or_Inr_iff entries_size_def)
  ultimately show ?case by (simp add: entries_size_def)
next
  case (3 E k v es type items)
  then have "jsize items < jsize v" by (auto simp: ok_or_Inr_iff intro: jsize_json_get)
  then show ?case by (simp add: entries_size_def)
qed (simp_all add: entries_size_def)

definition data_schema_from_value :: "('h, 'g) gen_env \<Rightarrow> json \<Rightarrow> schema_error + 'h data_schema" where
  "data_schema_from_value E schema =
     and_then (ok_or PropertiesNotFound (do { p \<leftarrow> json_get ''properties'' schema; as_object p }))
       (\<lambda>ps. and_then (parse_properties E ps) (\<lambda>ss. Inr (SObject None ss)))"

section \<open>Writing a schema\<close>

text \<open>\<open>None\<close> is the panic of \<open>name.unwrap()\<close>. \<open>json!("{}")\<close> is the string of two braces.\<close>

definition constraints_to_value :: "'h constraint_map \<Rightarrow> json_map" where
  "constraints_to_value cs = map (\<lambda>(k, c). (keyword_as_str k, constraint_to_value c)) cs"

fun convert_data_schema_to_map :: "'h data_schema list \<Rightarrow> json_map \<Rightarrow> json_map option"
  and convert_schema :: "'h data_schema \<Rightarrow> (string \<times> json) option option" where
  "convert_data_schema_to_map [] properties = Some properties"
| "convert_data_schema_to_map (s # ss) properties =
     (case convert_schema s of
        None \<Rightarrow> None
      | Some None \<Rightarrow> convert_data_schema_to_map ss properties
      | Some (Some (k, v)) \<Rightarrow> convert_data_schema_to_map ss (map_insert k v properties))"
| "convert_schema SEmpty = Some None"
| "convert_schema (SString name cs) =
     Some (Some (name, Object (map_insert ''type'' (String ''string'') (constraints_to_value cs))))"
| "convert_schema (SInteger name cs) =
     Some (Some (name, Object (map_insert ''type'' (String ''integer'') (constraints_to_value cs))))"
| "convert_schema (SObject name ss) =
     (case convert_data_schema_to_map ss [] of None \<Rightarrow> None
      | Some m \<Rightarrow> (case name of None \<Rightarrow> None
          | Some n \<Rightarrow> Some (Some (n, Object [(''type'', String ''object''), (''properties'', Object m)]))))"
| "convert_schema (SArray name ss cs) =
     (case convert_data_schema_to_map ss [] of None \<Rightarrow> None
      | Some items \<Rightarrow>
          (let item = (case map_of items KEY_FOR_KEYLESS_SCHEMAS of None \<Rightarrow> String ''{}'' | Some v \<Rightarrow> v);
               m = foldl (\<lambda>m (k, v). map_insert k v m)
                     [(''type'', String ''array''), (''items'', item)] (constraints_to_value cs)
           in case name of None \<Rightarrow> None | Some n \<Rightarrow> Some (Some (n, Object m))))"
| "convert_schema (SConstantObject name cs) =
     (case name of None \<Rightarrow> None
      | Some n \<Rightarrow> Some (Some (n, Object (map_insert ''type'' (String ''object'') (constraints_to_value cs)))))"

fun data_value_from_schema :: "'h data_schema \<Rightarrow> json option" where
  "data_value_from_schema (SObject _ ss) =
     map_option (\<lambda>m. Object [(''properties'', Object m)]) (convert_data_schema_to_map ss [])"
| "data_value_from_schema _ = Some (String ''{}'')"

section \<open>Generating data\<close>

text \<open>\<open>fastrand::i64(lo..=hi)\<close> panics on an empty range.\<close>

definition rand_i64 :: "('h, 'g) gen_env \<Rightarrow> i64 \<Rightarrow> i64 \<Rightarrow> 'g \<Rightarrow> (i64 \<times> 'g) option" where
  "rand_i64 E lo hi g = (if lo \<le> hi then Some (rng_i64 E lo hi g) else None)"

definition constraint_i64_or :: "'h constraint_map \<Rightarrow> schema_keyword \<Rightarrow> i64 \<Rightarrow> i64" where
  "constraint_i64_or cs k x0 =
     (case do { c \<leftarrow> map_of cs k; constraint_as_i64 c } of None \<Rightarrow> x0 | Some x \<Rightarrow> x)"

definition generate_from_pattern ::
  "('h, 'g) gen_env \<Rightarrow> string \<Rightarrow> 'h option \<Rightarrow> 'g \<Rightarrow> string \<times> 'g" where
  "generate_from_pattern E pattern hir g =
     (let failed = ''Couldn't generate string for: '' @ pattern
      in case (case hir of Some h \<Rightarrow> Some h | None \<Rightarrow> regex_parse E pattern) of
           None \<Rightarrow> (failed, g)
         | Some h \<Rightarrow> (case regex_generate E h g of
               (None, g') \<Rightarrow> (failed, g') | (Some s, g') \<Rightarrow> (s, g')))"

fun take_alphabetic :: "('h, 'g) gen_env \<Rightarrow> nat \<Rightarrow> 'g \<Rightarrow> string \<times> 'g" where
  "take_alphabetic E n g =
     (if n = 0 then ([], g)
      else let (c, g) = rng_alphabetic E g; (cs, g) = take_alphabetic E (n - 1) g in (c # cs, g))"

declare take_alphabetic.simps [simp del]

definition generate_integer_data :: "('h, 'g) gen_env \<Rightarrow> 'h constraint_map \<Rightarrow> 'g \<Rightarrow> (i64 \<times> 'g) option" where
  "generate_integer_data E cs g =
     (case map_of cs KConstant of
        Some c \<Rightarrow> Some (case constraint_as_i64 c of None \<Rightarrow> - (2 ^ 63) | Some x \<Rightarrow> x, g)
      | None \<Rightarrow>
          (case map_of cs KPattern of
             Some c \<Rightarrow>
               (case as_pattern c of
                  Some (pattern, hir) \<Rightarrow>
                    (let (rand_int, g) = generate_from_pattern E pattern hir g
                     in Some (case parse_i64 rand_int of None \<Rightarrow> 0 | Some x \<Rightarrow> x, g))
                | None \<Rightarrow> Some (case constraint_as_i64 c of None \<Rightarrow> - (2 ^ 63) | Some x \<Rightarrow> x, g))
           | None \<Rightarrow> rand_i64 E (constraint_i64_or cs KMinimum 0) (constraint_i64_or cs KMaximum 100) g))"

definition generate_string_data :: "('h, 'g) gen_env \<Rightarrow> 'h constraint_map \<Rightarrow> 'g \<Rightarrow> (string \<times> 'g) option" where
  "generate_string_data E cs g =
     (case map_of cs KConstant of
        Some c \<Rightarrow> Some (case constraint_as_str c of None \<Rightarrow> ''Error: invalid constant constraint'' | Some x \<Rightarrow> x, g)
      | None \<Rightarrow>
          (case do { c \<leftarrow> map_of cs KPattern; as_pattern c } of
             Some (pattern, hir) \<Rightarrow> Some (generate_from_pattern E pattern hir g)
           | None \<Rightarrow>
               do { (size, g) \<leftarrow> rand_i64 E (constraint_i64_or cs KMinLength 1) (constraint_i64_or cs KMaxLength 20) g;
                    Some (take_alphabetic E (i64_as_usize size) g) }))"

function generate_object_data ::
    "('h, 'g) gen_env \<Rightarrow> 'h data_schema list \<Rightarrow> json_map \<Rightarrow> 'g \<Rightarrow> (json_map \<times> 'g) option"
  and generate_datum ::
    "('h, 'g) gen_env \<Rightarrow> 'h data_schema \<Rightarrow> 'g \<Rightarrow> ((string \<times> json) option \<times> 'g) option"
  and generate_items ::
    "('h, 'g) gen_env \<Rightarrow> 'h data_schema list \<Rightarrow> nat \<Rightarrow> 'g \<Rightarrow> (json list \<times> 'g) option" where
  "generate_object_data E [] m g = Some (m, g)"
| "generate_object_data E (d # ds) m g =
     (case generate_datum E d g of
        None \<Rightarrow> None
      | Some (None, g) \<Rightarrow> generate_object_data E ds m g
      | Some (Some (k, v), g) \<Rightarrow> generate_object_data E ds (map_insert k v m) g)"
| "generate_datum E SEmpty g = Some (None, g)"
| "generate_datum E (SString k cs) g =
     map_option (\<lambda>(s, g). (Some (k, String s), g)) (generate_string_data E cs g)"
| "generate_datum E (SInteger k cs) g =
     map_option (\<lambda>(i, g). (Some (k, Number (Integral i)), g)) (generate_integer_data E cs g)"
| "generate_datum E (SObject key ss) g =
     (case key of None \<Rightarrow> None
      | Some k \<Rightarrow> map_option (\<lambda>(m, g). (Some (k, Object m), g)) (generate_object_data E ss [] g))"
| "generate_datum E (SArray key ss cs) g =
     (case key of None \<Rightarrow> None
      | Some k \<Rightarrow>
          (case rand_i64 E (constraint_i64_or cs KMinLength 1) (constraint_i64_or cs KMaxLength 20) g of
             None \<Rightarrow> None
           | Some (len, g) \<Rightarrow>
               map_option (\<lambda>(vs, g). (Some (k, Array vs), g)) (generate_items E ss (nat len) g)))"
| "generate_datum E (SConstantObject key cs) g =
     (case key of None \<Rightarrow> None
      | Some k \<Rightarrow>
          Some (Some (k, case do { c \<leftarrow> map_of cs KConstant; as_serde_value c } of
                           None \<Rightarrow> Object [] | Some v \<Rightarrow> v), g))"
| "generate_items E ss n g =
     (if n = 0 then Some ([], g)
      else case generate_object_data E ss [] g of
          None \<Rightarrow> None
        | Some (m, g) \<Rightarrow>
            (case map_of m KEY_FOR_KEYLESS_SCHEMAS of
               None \<Rightarrow> None
             | Some v \<Rightarrow> map_option (\<lambda>(vs, g). (v # vs, g)) (generate_items E ss (n - 1) g)))"
  by pat_completeness auto
termination
  by (relation "measures [\<lambda>x. case x of Inl (E, ds, m, g) \<Rightarrow> size_list size ds
                   | Inr (Inl (E, d, g)) \<Rightarrow> size d | Inr (Inr (E, ss, n, g)) \<Rightarrow> size_list size ss,
                 \<lambda>x. case x of Inl _ \<Rightarrow> 0 | Inr (Inl _) \<Rightarrow> 0 | Inr (Inr (E, ss, n, g)) \<Rightarrow> Suc n]") auto

declare generate_items.simps [simp del]

text \<open>The root object must have no key.\<close>

fun generate_data :: "('h, 'g) gen_env \<Rightarrow> 'h data_schema \<Rightarrow> 'g \<Rightarrow> (json \<times> 'g) option" where
  "generate_data E (SObject key ss) g =
     (case key of Some _ \<Rightarrow> Some (Null, g)
      | None \<Rightarrow> map_option (\<lambda>(m, g). (Object m, g)) (generate_object_data E ss [] g))"
| "generate_data E _ g = Some (Null, g)"

section \<open>What parsing guarantees\<close>

fun typed_constraint :: "('h, 'g) gen_env \<Rightarrow> schema_keyword \<Rightarrow> 'h constraints \<Rightarrow> bool" where
  "typed_constraint E KMinLength c = (\<exists>x. c = MinLength x \<and> in_i64 x)"
| "typed_constraint E KMaxLength c = (\<exists>x. c = MaxLength x \<and> in_i64 x)"
| "typed_constraint E KMinimum c = (\<exists>x. c = Minimum x \<and> in_i64 x)"
| "typed_constraint E KMaximum c = (\<exists>x. c = Maximum x \<and> in_i64 x)"
| "typed_constraint E KConstant c =
     ((\<exists>x. c = ConstantInt x \<and> in_i64 x) \<or> (\<exists>s. c = ConstantStr s)
      \<or> (\<exists>v. c = ConstantValue v \<and> json_as_i64 v = None \<and> \<not> is_string v))"
| "typed_constraint E KPattern c = (\<exists>p h. c = Pattern p (Some h) \<and> regex_parse E p = Some h)"

definition parsed_constraints :: "('h, 'g) gen_env \<Rightarrow> 'h constraint_map \<Rightarrow> bool" where
  "parsed_constraints E cs \<longleftrightarrow> distinct (map fst cs) \<and> (\<forall>(k, c) \<in> set cs. typed_constraint E k c)
     \<and> validate_constraints cs Null = Inr ()"

lemma validate_constraints_any: "validate_constraints cs p = Inr () \<longleftrightarrow> validate_constraints cs q = Inr ()"
  by (auto simp: validate_constraints_def split: if_splits)

lemma set_map_insert_subset: "set (map_insert k v es) \<subseteq> insert (k, v) (set es)"
  by (induction k v es rule: map_insert.induct) auto

lemma json_as_i64_Some: "json_as_i64 v = Some x \<longleftrightarrow> v = Number (Integral x) \<and> in_i64 x"
  by (cases v rule: json_as_i64.cases) auto

lemma json_as_str_Some: "json_as_str v = Some s \<longleftrightarrow> v = String s"
  by (cases v) auto

lemma json_as_str_None: "\<not> is_string v \<Longrightarrow> json_as_str v = None"
  by (cases v) auto

text \<open>One entry of a property: it is rejected, ignored, or gives one constraint.\<close>

definition constraint_entry :: "('h, 'g) gen_env \<Rightarrow> string \<Rightarrow> json \<Rightarrow> (schema_keyword \<times> 'h constraints) option option" where
  "constraint_entry E k v =
     (if k = ''minimum'' then map_option (\<lambda>x. Some (KMinimum, Minimum x)) (json_as_i64 v)
      else if k = ''maximum'' then map_option (\<lambda>x. Some (KMaximum, Maximum x)) (json_as_i64 v)
      else if k = ''minLength'' then map_option (\<lambda>x. Some (KMinLength, MinLength x)) (json_as_i64 v)
      else if k = ''maxLength'' then map_option (\<lambda>x. Some (KMaxLength, MaxLength x)) (json_as_i64 v)
      else if k = ''constant'' then
        Some (Some (KConstant, case json_as_i64 v of Some x \<Rightarrow> ConstantInt x
                     | None \<Rightarrow> (case json_as_str v of Some s \<Rightarrow> ConstantStr s | None \<Rightarrow> ConstantValue v)))
      else if k = ''pattern'' then
        do { p \<leftarrow> json_as_str v; h \<leftarrow> regex_parse E p; Some (Some (KPattern, Pattern p (Some h))) }
      else Some None)"

lemma parse_constraints_Cons:
  "parse_constraints E ((k, v) # es) cs =
     (case constraint_entry E k v of
        None \<Rightarrow> None
      | Some None \<Rightarrow> parse_constraints E es cs
      | Some (Some (kw, c)) \<Rightarrow> parse_constraints E es (map_insert kw c cs))"
  by (cases v) (simp_all add: constraint_entry_def bind_eq_Some_conv split: option.splits bind_splits)

lemma constraint_entry_typed:
  "constraint_entry E k v = Some (Some (kw, c)) \<Longrightarrow>
     typed_constraint E kw c \<and> k = keyword_as_str kw"
  by (cases v) (auto simp: constraint_entry_def bind_eq_Some_conv json_as_i64_Some split: if_splits option.splits)

lemma constraint_entry_print:
  "typed_constraint E kw c \<Longrightarrow> constraint_entry E (keyword_as_str kw) (constraint_to_value c) = Some (Some (kw, c))"
  by (cases kw) (auto simp: constraint_entry_def json_as_str_None)

declare parse_constraints.simps(2) [simp del]

lemma parse_constraints_typed:
  "parse_constraints E es cs = Some cs' \<Longrightarrow> distinct (map fst cs) \<Longrightarrow> \<forall>(k, c) \<in> set cs. typed_constraint E k c
   \<Longrightarrow> distinct (map fst cs') \<and> (\<forall>(k, c) \<in> set cs'. typed_constraint E k c)"
proof (induction es arbitrary: cs)
  case (Cons e es)
  obtain k v where e: "e = (k, v)" by fastforce
  consider "constraint_entry E k v = Some None" | kw c where "constraint_entry E k v = Some (Some (kw, c))"
    using Cons.prems(1) by (auto simp: e parse_constraints_Cons split: option.splits)
  then show ?case
  proof cases
    case 1
    with Cons.prems show ?thesis by (intro Cons.IH [of cs]) (simp_all add: e parse_constraints_Cons)
  next
    case 2
    then have "typed_constraint E kw c" using constraint_entry_typed by blast
    with Cons.prems(3) set_map_insert_subset [of kw c cs]
    have "\<forall>(k, c) \<in> set (map_insert kw c cs). typed_constraint E k c" by blast
    with Cons.prems 2 show ?thesis
      by (intro Cons.IH [of "map_insert kw c cs"]) (simp_all add: e parse_constraints_Cons)
  qed
qed simp

lemma get_constraints_parsed:
  "get_constraints E v = Inr cs \<Longrightarrow> parsed_constraints E cs"
  using parse_constraints_typed [of E _ "[]" cs] validate_constraints_any [of cs v Null]
  by (auto simp: get_constraints_def parsed_constraints_def and_then_Inr_iff ok_or_Inr_iff bind_eq_Some_conv)

lemma parse_constraints_print:
  assumes "\<forall>(k, c) \<in> set cs. typed_constraint E k c" "distinct (map fst (acc @ cs))"
  shows "parse_constraints E (constraints_to_value cs @ rest) acc = parse_constraints E rest (acc @ cs)"
  using assms
proof (induction cs arbitrary: acc)
  case (Cons e cs)
  obtain k c where e: "e = (k, c)" by fastforce
  from Cons.prems have "typed_constraint E k c" "k \<notin> fst ` set acc" by (auto simp: e)
  moreover have "parse_constraints E (constraints_to_value cs @ rest) (acc @ [e]) = parse_constraints E rest ((acc @ [e]) @ cs)"
    using Cons.prems by (intro Cons.IH) (auto simp: e)
  ultimately show ?case
    by (simp add: constraints_to_value_def e parse_constraints_Cons constraint_entry_print map_insert_append)
qed (simp add: constraints_to_value_def)

lemma get_constraints_print:
  assumes "parsed_constraints E cs" "constraint_entry E k v = Some None"
  shows "get_constraints E (Object (constraints_to_value cs @ [(k, v)])) = Inr cs"
    "constraint_entry E k' v' = Some None \<Longrightarrow> get_constraints E (Object ((k, v) # (k', v') # constraints_to_value cs)) = Inr cs"
proof -
  note p = assms(1) [unfolded parsed_constraints_def]
  have "parse_constraints E (constraints_to_value cs @ [(k, v)]) [] = Some cs"
    using parse_constraints_print [of cs E "[]" "[(k, v)]"] p assms(2) by (simp add: parse_constraints_Cons)
  moreover have valid: "validate_constraints cs q = Inr ()" for q
    using p validate_constraints_any [of cs q Null] by simp
  ultimately show "get_constraints E (Object (constraints_to_value cs @ [(k, v)])) = Inr cs"
    by (simp add: get_constraints_def)
  assume "constraint_entry E k' v' = Some None"
  then have "parse_constraints E ((k, v) # (k', v') # constraints_to_value cs) [] = Some cs"
    using parse_constraints_print [of cs E "[]" "[]"] p assms(2) by (simp add: parse_constraints_Cons)
  then show "get_constraints E (Object ((k, v) # (k', v') # constraints_to_value cs)) = Inr cs"
    using valid by (simp add: get_constraints_def)
qed

fun schema_name :: "'h data_schema \<Rightarrow> string option" where
  "schema_name SEmpty = None"
| "schema_name (SString n _) = Some n"
| "schema_name (SInteger n _) = Some n"
| "schema_name (SObject n _) = n"
| "schema_name (SConstantObject n _) = n"
| "schema_name (SArray n _ _) = n"

fun parsed_schema :: "('h, 'g) gen_env \<Rightarrow> 'h data_schema \<Rightarrow> bool" where
  "parsed_schema E SEmpty = False"
| "parsed_schema E (SString n cs) = parsed_constraints E cs"
| "parsed_schema E (SInteger n cs) = parsed_constraints E cs"
| "parsed_schema E (SObject n ss) =
     (n \<noteq> None \<and> distinct (map schema_name ss) \<and> (\<forall>s \<in> set ss. parsed_schema E s))"
| "parsed_schema E (SConstantObject n cs) = (n \<noteq> None \<and> (\<exists>c. cs = [(KConstant, ConstantValue c)]))"
| "parsed_schema E (SArray n ss cs) =
     (n \<noteq> None \<and> parsed_constraints E cs \<and> (ss = [] \<or> map schema_name ss = [Some KEY_FOR_KEYLESS_SCHEMAS])
      \<and> (\<forall>s \<in> set ss. parsed_schema E s))"

fun well_keyed :: "json \<Rightarrow> bool" where
  "well_keyed (Object es) = (distinct (map fst es) \<and> (\<forall>e \<in> set es. well_keyed (snd e)))"
| "well_keyed (Array xs) = (\<forall>x \<in> set xs. well_keyed x)"
| "well_keyed _ = True"

lemma well_keyed_get: "json_get k v = Some w \<Longrightarrow> well_keyed v \<Longrightarrow> well_keyed w"
  by (cases v) (auto dest: map_of_SomeD)

definition parsed_list :: "('h, 'g) gen_env \<Rightarrow> string list \<Rightarrow> 'h data_schema list \<Rightarrow> bool" where
  "parsed_list E ks ss \<longleftrightarrow> (\<forall>s \<in> set ss. parsed_schema E s) \<and> distinct (map schema_name ss)
     \<and> schema_name ` set ss \<subseteq> Some ` set ks"

lemma parsed_list_single: "parsed_list E [k] ss \<Longrightarrow> ss = [] \<or> map schema_name ss = [Some k]"
  by (cases ss; cases "tl ss") (auto simp: parsed_list_def)

lemma parsed_list_append:
  "parsed_list E [k] d \<Longrightarrow> parsed_list E ks ds \<Longrightarrow> k \<notin> set ks \<Longrightarrow> parsed_list E (k # ks) (d @ ds)"
  using parsed_list_single [of E k d] by (auto simp: parsed_list_def)

lemma parse_properties_parsed:
  assumes "parse_properties E es = Inr ss" "well_keyed (Object es)"
  shows "parsed_list E (map fst es) ss"
  using assms
proof (induction E es arbitrary: ss rule: parse_properties.induct)
  case (2 E k v es)
  obtain type d ds where t: "ok_or (TypeNotFound k) (do { t \<leftarrow> json_get ''type'' v; json_as_str t }) = Inr type"
    and ds: "parse_properties E es = Inr ds" and ss: "ss = d @ ds"
    and d: "(if type = ''object'' then
          (case json_get ''properties'' v of
             Some props \<Rightarrow>
               and_then (ok_or (ObjectPropertiesNotFound k) (as_object props)) (\<lambda>ps.
               and_then (parse_properties E ps) (\<lambda>ss. Inr [SObject (Some k) ss]))
           | None \<Rightarrow>
               (case json_get ''constant'' v of
                  Some c \<Rightarrow> Inr [SConstantObject (Some k) [(KConstant, ConstantValue c)]]
                | None \<Rightarrow> Inl ObjectNeedsPropertiesOrConstant))
        else if type = ''string'' then and_then (get_constraints E v) (\<lambda>cs. Inr [SString k cs])
        else if type = ''integer'' then and_then (get_constraints E v) (\<lambda>cs. Inr [SInteger k cs])
        else if type = ''array'' then
          and_then (ok_or (ArrayItemsNotFound k) (json_get ''items'' v)) (\<lambda>items.
          and_then (parse_properties E [(KEY_FOR_KEYLESS_SCHEMAS, items)]) (\<lambda>ss.
          and_then (get_constraints E v) (\<lambda>cs. Inr [SArray (Some k) ss cs])))
        else Inr []) = Inr d"
    using 2(4) by (auto simp: and_then_Inr_iff)
  have wk: "well_keyed v" "well_keyed (Object es)" "k \<notin> set (map fst es)" using 2(5) by auto
  have "parsed_list E [k] d"
  proof -
    consider (obj) "type = ''object''" | (leaf) "type = ''string'' \<or> type = ''integer''" | (arr) "type = ''array''"
      | (other) "type \<noteq> ''object''" "type \<noteq> ''string''" "type \<noteq> ''integer''" "type \<noteq> ''array''" by blast
    then show ?thesis
    proof cases
      case obj
      show ?thesis
      proof (cases "json_get ''properties'' v")
        case (Some props)
        with d obj obtain ps qs where ps: "as_object props = Some ps" "parse_properties E ps = Inr qs"
          "d = [SObject (Some k) qs]" by (auto simp: and_then_Inr_iff ok_or_Inr_iff)
        then have "well_keyed (Object ps)" using wk(1) well_keyed_get [OF Some] by (cases props) auto
        with 2(1) [OF t obj Some] ps have "parsed_list E (map fst ps) qs" by (simp add: ok_or_Inr_iff)
        then show ?thesis by (auto simp: ps(3) parsed_list_def)
      next
        case None
        with d obj show ?thesis by (auto simp: parsed_list_def split: option.splits)
      qed
    next
      case leaf
      with d obtain cs where "get_constraints E v = Inr cs" "d = [SString k cs] \<or> d = [SInteger k cs]"
        by (elim disjE) (simp_all add: and_then_Inr_iff, blast+)
      then show ?thesis by (auto simp: parsed_list_def dest: get_constraints_parsed)
    next
      case arr
      with d obtain items qs cs where a: "json_get ''items'' v = Some items"
        "parse_properties E [(KEY_FOR_KEYLESS_SCHEMAS, items)] = Inr qs" "get_constraints E v = Inr cs"
        "d = [SArray (Some k) qs cs]"
        by (auto simp: and_then_Inr_iff ok_or_Inr_iff)
      have "well_keyed (Object [(KEY_FOR_KEYLESS_SCHEMAS, items)])" using wk(1) well_keyed_get [OF a(1)] by simp
      with 2(2) [OF t] arr a have p: "parsed_list E [KEY_FOR_KEYLESS_SCHEMAS] qs" by (simp add: ok_or_Inr_iff)
      then show ?thesis
        using parsed_list_single [OF p] get_constraints_parsed [OF a(3)] by (auto simp: a(4) parsed_list_def)
    next
      case other
      with d show ?thesis by (simp add: parsed_list_def)
    qed
  qed
  moreover have "parsed_list E (map fst es) ds" using 2(3) [OF t d ds wk(2)] .
  ultimately show ?case using parsed_list_append [of E k d "map fst es" ds] wk(3) by (simp add: ss)
qed (simp add: parsed_list_def)

declare parse_properties.simps(2) [simp del]

section \<open>Reading back a written schema\<close>

text \<open>Every array has a schema for its items: an item of an unsupported type parses to none.\<close>

fun inhabited :: "'h data_schema \<Rightarrow> bool" where
  "inhabited (SObject n ss) = (\<forall>s \<in> set ss. inhabited s)"
| "inhabited (SArray n ss cs) = (ss \<noteq> [] \<and> (\<forall>s \<in> set ss. inhabited s))"
| "inhabited _ = True"

lemma keyword_as_str_neq:
  "keyword_as_str kw \<noteq> ''type''" "keyword_as_str kw \<noteq> ''items''" "keyword_as_str kw \<noteq> ''properties''"
  by (cases kw; simp)+

lemma keyword_as_str_inj: "keyword_as_str a = keyword_as_str b \<longleftrightarrow> a = b"
  by (cases a; cases b; simp)

lemma constraints_keys: "fst ` set (constraints_to_value cs) = keyword_as_str ` fst ` set cs"
  by (force simp: constraints_to_value_def)

lemma type_not_constraint [simp]:
  "''type'' \<notin> fst ` set (constraints_to_value cs)" "''items'' \<notin> fst ` set (constraints_to_value cs)"
  "''properties'' \<notin> fst ` set (constraints_to_value cs)"
  unfolding constraints_keys image_iff using keyword_as_str_neq by metis+

lemma distinct_constraints_to_value:
  "distinct (map fst cs) \<Longrightarrow> distinct (map fst (constraints_to_value cs))"
  by (induction cs) (auto simp: constraints_to_value_def keyword_as_str_inj image_iff)

lemma foldl_map_insert:
  "distinct (map fst (m @ es)) \<Longrightarrow> foldl (\<lambda>m (k, v). map_insert k v m) m es = m @ es"
proof (induction es arbitrary: m)
  case (Cons e es)
  then show ?case using Cons.IH [of "m @ [e]"] by (cases e) (auto simp: map_insert_append)
qed simp

lemma constraint_entry_other:
  "constraint_entry E ''type'' v = Some None" "constraint_entry E ''items'' v = Some None"
  by (simp_all add: constraint_entry_def)

lemma parse_properties_leaf:
  assumes "parsed_constraints E cs" "t = ''string'' \<and> s = SString k cs \<or> t = ''integer'' \<and> s = SInteger k cs"
    "parse_properties E es = Inr ss"
  shows "parse_properties E ((k, Object (map_insert ''type'' (String t) (constraints_to_value cs))) # es) = Inr (s # ss)"
proof -
  let ?v = "Object (constraints_to_value cs @ [(''type'', String t)])"
  have v: "Object (map_insert ''type'' (String t) (constraints_to_value cs)) = ?v" by (simp add: map_insert_append)
  have "map_of (constraints_to_value cs) ''type'' = None" by (simp add: map_of_eq_None_iff)
  then have "do { t \<leftarrow> json_get ''type'' ?v; json_as_str t } = Some t" by (simp add: map_add_def)
  moreover have "get_constraints E ?v = Inr cs" by (rule get_constraints_print(1) [OF assms(1) constraint_entry_other(1)])
  ultimately show ?thesis
    using assms(2) unfolding v by (subst parse_properties.simps(2)) (elim disjE conjE, simp_all add: assms(3))
qed

lemma parse_properties_array:
  assumes "parsed_constraints E cs" "parse_properties E [(KEY_FOR_KEYLESS_SCHEMAS, v)] = Inr is"
    "parse_properties E es = Inr ss"
  shows "parse_properties E ((k, Object (foldl (\<lambda>m (k, v). map_insert k v m)
            [(''type'', String ''array''), (''items'', v)] (constraints_to_value cs))) # es)
          = Inr (SArray (Some k) is cs # ss)"
proof -
  have "foldl (\<lambda>m (k, v). map_insert k v m) [(''type'', String ''array''), (''items'', v)] (constraints_to_value cs)
      = [(''type'', String ''array''), (''items'', v)] @ constraints_to_value cs"
    using assms(1) distinct_constraints_to_value [of cs]
    by (intro foldl_map_insert) (auto simp: parsed_constraints_def)
  with assms(2,3) get_constraints_print(2) [OF assms(1) constraint_entry_other(1) constraint_entry_other(2), of "String ''array''" v]
  show ?thesis by (subst parse_properties.simps(2)) simp
qed

definition reads_back :: "('h, 'g) gen_env \<Rightarrow> 'h data_schema \<Rightarrow> bool" where
  "reads_back E s \<longleftrightarrow> (\<exists>k v. convert_schema s = Some (Some (k, v)) \<and> schema_name s = Some k
     \<and> (\<forall>es ss. parse_properties E es = Inr ss \<longrightarrow> parse_properties E ((k, v) # es) = Inr (s # ss)))"

lemma convert_reads_back:
  "(\<forall>s \<in> set ss. parsed_schema E s \<and> inhabited s) \<Longrightarrow> distinct (map schema_name ss)
     \<Longrightarrow> schema_name ` set ss \<inter> Some ` fst ` set acc = {}
     \<Longrightarrow> \<exists>es. convert_data_schema_to_map ss acc = Some (acc @ es) \<and> map (\<lambda>e. Some (fst e)) es = map schema_name ss
           \<and> parse_properties E es = Inr ss"
  "parsed_schema E s \<Longrightarrow> inhabited s \<Longrightarrow> reads_back E s"
proof (induction ss acc and s rule: convert_data_schema_to_map_convert_schema.induct)
  case (2 s ss acc)
  from 2(1) 2(4) obtain k v where kv: "convert_schema s = Some (Some (k, v))" "schema_name s = Some k"
      "\<And>es ss. parse_properties E es = Inr ss \<Longrightarrow> parse_properties E ((k, v) # es) = Inr (s # ss)"
    by (auto simp: reads_back_def)
  have "Some k \<in> schema_name ` set (s # ss)" using kv(2) by (metis image_eqI list.set_intros(1))
  with 2(6) have "k \<notin> fst ` set acc" by blast
  then have ins: "map_insert k v acc = acc @ [(k, v)]" by (rule map_insert_append)
  have "\<exists>es. convert_data_schema_to_map ss (map_insert k v acc) = Some (map_insert k v acc @ es)
      \<and> map (\<lambda>e. Some (fst e)) es = map schema_name ss \<and> parse_properties E es = Inr ss"
    using 2(4,5,6) kv(2) by (intro 2(3) [OF kv(1) refl refl]) (auto simp: ins)
  then obtain es where "convert_data_schema_to_map ss (map_insert k v acc) = Some (map_insert k v acc @ es)"
      "map (\<lambda>e. Some (fst e)) es = map schema_name ss" "parse_properties E es = Inr ss" by blast
  with kv ins show ?case by (intro exI [of _ "(k, v) # es"]) simp
next
  case (4 name cs)
  then show ?case using parse_properties_leaf [of E cs "''string''" "SString name cs" name] by (auto simp: reads_back_def)
next
  case (5 name cs)
  then show ?case using parse_properties_leaf [of E cs "''integer''" "SInteger name cs" name] by (auto simp: reads_back_def)
next
  case (6 name ss)
  then obtain n where n: "name = Some n" by auto
  from 6 obtain es where "convert_data_schema_to_map ss [] = Some es" "parse_properties E es = Inr ss" by auto
  moreover have "parse_properties E ((n, Object [(''type'', String ''object''), (''properties'', Object es)]) # qs)
      = Inr (SObject (Some n) ss # ts)" if "parse_properties E es = Inr ss" "parse_properties E qs = Inr ts" for qs ts
    by (subst parse_properties.simps(2)) (simp add: that)
  ultimately show ?case by (simp add: reads_back_def n)
next
  case (7 name ss cs)
  then obtain n where n: "name = Some n" by auto
  from 7 obtain es where es: "convert_data_schema_to_map ss [] = Some es" "map (\<lambda>e. Some (fst e)) es = map schema_name ss"
      "parse_properties E es = Inr ss" by auto
  from 7(2,3) have "map schema_name ss = [Some KEY_FOR_KEYLESS_SCHEMAS]" by auto
  with es(2) obtain v where v: "es = [(KEY_FOR_KEYLESS_SCHEMAS, v)]" by (cases es) auto
  have "parsed_constraints E cs" using 7(2) by simp
  from parse_properties_array [OF this] es(3) v have
    "parse_properties E qs = Inr ts \<Longrightarrow> parse_properties E ((n, Object (foldl (\<lambda>m (k, v). map_insert k v m)
            [(''type'', String ''array''), (''items'', v)] (constraints_to_value cs))) # qs)
          = Inr (SArray (Some n) ss cs # ts)" for qs ts by blast
  then show ?case using es(1) by (simp add: reads_back_def n v)
next
  case (8 name cs)
  then obtain n c where n: "name = Some n" "cs = [(KConstant, ConstantValue c)]" by auto
  have "parse_properties E ((n, Object [(''constant'', c), (''type'', String ''object'')]) # qs)
      = Inr (SConstantObject (Some n) cs # ts)" if "parse_properties E qs = Inr ts" for qs ts
    by (subst parse_properties.simps(2)) (simp add: that n)
  then show ?case by (simp add: reads_back_def constraints_to_value_def n)
qed auto

section \<open>Generated data conforms to the schema\<close>

definition rng_ok :: "('h, 'g) gen_env \<Rightarrow> bool" where
  "rng_ok E \<longleftrightarrow> (\<forall>lo hi g. lo \<le> hi \<longrightarrow> lo \<le> fst (rng_i64 E lo hi g) \<and> fst (rng_i64 E lo hi g) \<le> hi)"

definition int_conforms :: "'h constraint_map \<Rightarrow> int \<Rightarrow> bool" where
  "int_conforms cs i \<longleftrightarrow>
     (\<forall>x. map_of cs KConstant = Some (ConstantInt x) \<longrightarrow> i = x)
     \<and> (map_of cs KConstant = None \<and> map_of cs KPattern = None \<longrightarrow>
          constraint_i64_or cs KMinimum 0 \<le> i \<and> i \<le> constraint_i64_or cs KMaximum 100)"

definition length_conforms :: "'h constraint_map \<Rightarrow> nat \<Rightarrow> bool" where
  "length_conforms cs n \<longleftrightarrow>
     (0 \<le> constraint_i64_or cs KMinLength 1 \<longrightarrow>
        constraint_i64_or cs KMinLength 1 \<le> int n \<and> int n \<le> constraint_i64_or cs KMaxLength 20)"

definition string_conforms :: "'h constraint_map \<Rightarrow> string \<Rightarrow> bool" where
  "string_conforms cs s \<longleftrightarrow>
     (\<forall>x. map_of cs KConstant = Some (ConstantStr x) \<longrightarrow> s = x)
     \<and> (map_of cs KConstant = None \<and> map_of cs KPattern = None \<longrightarrow> length_conforms cs (length s))"

fun entry_conforms :: "'h data_schema \<Rightarrow> string \<times> json \<Rightarrow> bool" where
  "entry_conforms SEmpty e = False"
| "entry_conforms (SString n cs) e = (fst e = n \<and> (case snd e of String s \<Rightarrow> string_conforms cs s | _ \<Rightarrow> False))"
| "entry_conforms (SInteger n cs) e =
     (fst e = n \<and> (case snd e of Number (Integral i) \<Rightarrow> int_conforms cs i | _ \<Rightarrow> False))"
| "entry_conforms (SObject n ss) e =
     (n = Some (fst e) \<and> (case snd e of Object m \<Rightarrow> list_all2 entry_conforms ss m | _ \<Rightarrow> False))"
| "entry_conforms (SConstantObject n cs) e =
     (n = Some (fst e) \<and> map_of cs KConstant = Some (ConstantValue (snd e)))"
| "entry_conforms (SArray n ss cs) e =
     (n = Some (fst e) \<and>
      (case snd e of
         Array vs \<Rightarrow> length_conforms cs (length vs)
           \<and> (\<forall>v \<in> set vs. list_all2 entry_conforms ss [(KEY_FOR_KEYLESS_SCHEMAS, v)])
       | _ \<Rightarrow> False))"

lemma length_take_alphabetic [simp]: "length (fst (take_alphabetic E n g)) = n"
  by (induction n arbitrary: g) (subst take_alphabetic.simps, simp add: split_beta)+

lemma parsed_bounds:
  assumes "parsed_constraints E cs"
  shows "constraint_i64_or cs KMinimum 0 \<le> constraint_i64_or cs KMaximum 100"
    and "constraint_i64_or cs KMinLength 1 \<le> constraint_i64_or cs KMaxLength 20"
    and "constraint_i64_or cs KMaxLength 20 < 2 ^ 63"
proof -
  have typed: "typed_constraint E k c" if "map_of cs k = Some c" for k c
    using assms map_of_SomeD [OF that] by (auto simp: parsed_constraints_def)
  have v: "validate_constraints cs Null = Inr ()" using assms by (simp add: parsed_constraints_def)
  show "constraint_i64_or cs KMinimum 0 \<le> constraint_i64_or cs KMaximum 100"
    using v typed [of KMinimum] typed [of KMaximum]
    by (auto simp: validate_constraints_def range_inverted_def constraint_i64_or_def split: if_splits option.splits)
  show "constraint_i64_or cs KMinLength 1 \<le> constraint_i64_or cs KMaxLength 20"
    using v typed [of KMinLength] typed [of KMaxLength]
    by (auto simp: validate_constraints_def range_inverted_def constraint_i64_or_def split: if_splits option.splits)
  show "constraint_i64_or cs KMaxLength 20 < 2 ^ 63"
    using typed [of KMaxLength] by (cases "map_of cs KMaxLength") (auto simp: constraint_i64_or_def in_i64_def)
qed

lemma rand_i64_ok: "rng_ok E \<Longrightarrow> lo \<le> hi \<Longrightarrow> \<exists>i g'. rand_i64 E lo hi g = Some (i, g') \<and> lo \<le> i \<and> i \<le> hi"
  by (metis rand_i64_def rng_ok_def surjective_pairing)

lemma generate_integer_ok:
  assumes "rng_ok E" "parsed_constraints E cs"
  shows "\<exists>i g'. generate_integer_data E cs g = Some (i, g') \<and> int_conforms cs i"
  using rand_i64_ok [OF assms(1) parsed_bounds(1) [OF assms(2)], of g]
  by (auto simp: generate_integer_data_def int_conforms_def split_beta split: option.splits)

lemma generate_string_ok:
  assumes "rng_ok E" "parsed_constraints E cs"
  shows "\<exists>s g'. generate_string_data E cs g = Some (s, g') \<and> string_conforms cs s"
proof (cases "map_of cs KConstant = None \<and> map_of cs KPattern = None")
  case True
  obtain i g' where i: "rand_i64 E (constraint_i64_or cs KMinLength 1) (constraint_i64_or cs KMaxLength 20) g = Some (i, g')"
      "constraint_i64_or cs KMinLength 1 \<le> i" "i \<le> constraint_i64_or cs KMaxLength 20"
    using rand_i64_ok [OF assms(1) parsed_bounds(2) [OF assms(2)], of g] by blast
  with parsed_bounds(3) [OF assms(2)]
  have "length_conforms cs (i64_as_usize i)" by (auto simp: length_conforms_def)
  then have "string_conforms cs (fst (take_alphabetic E (i64_as_usize i) g'))"
    using True by (simp add: string_conforms_def)
  with True i(1) show ?thesis by (auto simp: generate_string_data_def) (metis surjective_pairing)
next
  case False
  have typed: "typed_constraint E KPattern c" if "map_of cs KPattern = Some c" for c
    using assms(2) map_of_SomeD [OF that] by (auto simp: parsed_constraints_def)
  with False show ?thesis
    by (auto simp: generate_string_data_def string_conforms_def split: option.splits)
qed

lemma entry_conforms_name: "entry_conforms d e \<Longrightarrow> schema_name d = Some (fst e)"
  by (cases d) auto

lemma generate_conforms:
  "rng_ok E \<Longrightarrow> \<forall>d \<in> set ds. parsed_schema E d \<and> inhabited d \<Longrightarrow> distinct (map schema_name ds)
     \<Longrightarrow> schema_name ` set ds \<inter> Some ` fst ` set m = {}
     \<Longrightarrow> \<exists>es g'. generate_object_data E ds m g = Some (m @ es, g') \<and> list_all2 entry_conforms ds es"
  "rng_ok E \<Longrightarrow> parsed_schema E d \<Longrightarrow> inhabited d
     \<Longrightarrow> \<exists>k v g'. generate_datum E d g = Some (Some (k, v), g') \<and> entry_conforms d (k, v)"
  "rng_ok E \<Longrightarrow> \<forall>d \<in> set ss. parsed_schema E d \<and> inhabited d \<Longrightarrow> map schema_name ss = [Some KEY_FOR_KEYLESS_SCHEMAS]
     \<Longrightarrow> \<exists>vs g'. generate_items E ss n g = Some (vs, g') \<and> length vs = n
           \<and> (\<forall>v \<in> set vs. list_all2 entry_conforms ss [(KEY_FOR_KEYLESS_SCHEMAS, v)])"
proof (induction E ds m g and E d g and E ss n g rule: generate_object_data_generate_datum_generate_items.induct)
  case (2 E d ds m g)
  from 2(1) 2(4,5) obtain k v g1 where kv: "generate_datum E d g = Some (Some (k, v), g1)"
      "entry_conforms d (k, v)" by auto
  then have name: "schema_name d = Some k" using entry_conforms_name by fastforce
  then have "Some k \<in> schema_name ` set (d # ds)" by (metis image_eqI list.set_intros(1))
  with 2(7) have "k \<notin> fst ` set m" by blast
  then have ins: "map_insert k v m = m @ [(k, v)]" by (rule map_insert_append)
  obtain es g' where "generate_object_data E ds (map_insert k v m) g1 = Some (map_insert k v m @ es, g')"
      "list_all2 entry_conforms ds es"
    using 2(4-7) name 2(3) [OF kv(1) refl refl refl] by (auto simp: ins)
  with kv ins show ?case by (intro exI [of _ "(k, v) # es"] exI [of _ g']) simp
next
  case (4 E k cs g)
  then obtain s g' where "generate_string_data E cs g = Some (s, g')" "string_conforms cs s"
    using generate_string_ok [of E cs g] by auto
  then show ?case by simp
next
  case (5 E k cs g)
  then obtain i g' where "generate_integer_data E cs g = Some (i, g')" "int_conforms cs i"
    using generate_integer_ok [of E cs g] by auto
  then show ?case by simp
next
  case (6 E key ss g)
  then obtain k where k: "key = Some k" by auto
  with 6 obtain es g' where "generate_object_data E ss [] g = Some (es, g')" "list_all2 entry_conforms ss es" by auto
  then show ?case by (simp add: k)
next
  case (7 E key ss cs g)
  then obtain k where k: "key = Some k" by auto
  have names: "map schema_name ss = [Some KEY_FOR_KEYLESS_SCHEMAS]" using 7(3,4) by auto
  obtain i g1 where i: "rand_i64 E (constraint_i64_or cs KMinLength 1) (constraint_i64_or cs KMaxLength 20) g = Some (i, g1)"
      "constraint_i64_or cs KMinLength 1 \<le> i" "i \<le> constraint_i64_or cs KMaxLength 20"
    using rand_i64_ok [OF 7(2), of "constraint_i64_or cs KMinLength 1" "constraint_i64_or cs KMaxLength 20" g]
      parsed_bounds(2) [of E cs] 7(3) by auto
  then have "length_conforms cs (nat i)" by (auto simp: length_conforms_def)
  moreover obtain vs g' where "generate_items E ss (nat i) g1 = Some (vs, g')" "length vs = nat i"
      "\<forall>v \<in> set vs. list_all2 entry_conforms ss [(KEY_FOR_KEYLESS_SCHEMAS, v)]"
    using 7(1) [OF k i(1) refl 7(2)] names 7(3,4) by auto
  ultimately show ?case by (simp add: k i(1))
next
  case (9 E ss n g)
  show ?case
  proof (cases "n = 0")
    case False
    have disj: "distinct (map schema_name ss)" using 9(5) by simp
    obtain es g1 where es: "generate_object_data E ss [] g = Some (es, g1)" "list_all2 entry_conforms ss es"
      using 9(1) [OF False 9(3,4) disj] by auto
    obtain d where d: "ss = [d]" "schema_name d = Some KEY_FOR_KEYLESS_SCHEMAS" using 9(5) by auto
    with es(2) obtain e where e: "es = [e]" "entry_conforms d e" by (auto simp: list_all2_Cons1)
    then obtain v where v: "es = [(KEY_FOR_KEYLESS_SCHEMAS, v)]" using entry_conforms_name [of d e] d by (cases e) auto
    obtain vs g' where "generate_items E ss (n - 1) g1 = Some (vs, g')" "length vs = n - 1"
        "\<forall>v \<in> set vs. list_all2 entry_conforms ss [(KEY_FOR_KEYLESS_SCHEMAS, v)]"
      using 9(2) [OF False es(1) refl _ 9(3,4,5)] v by auto
    with es v False show ?thesis by (subst generate_items.simps) auto
  qed (subst generate_items.simps, simp)
qed auto

section \<open>Properties\<close>

definition demo_env :: "(string, unit) gen_env" where
  "demo_env = \<lparr>rng_i64 = (\<lambda>lo hi g. (hi, g)), rng_alphabetic = (\<lambda>g. (CHR ''a'', g)),
     regex_parse = (\<lambda>p. Some p), regex_generate = (\<lambda>h g. (Some h, g))\<rparr>"

lemma demo_env_rng_ok: "rng_ok demo_env"
  by (simp add: rng_ok_def demo_env_def)

definition demo_schema :: json where
  "demo_schema = Object [(''properties'', Object
     [(''name'', Object [(''type'', String ''string''), (''minLength'', Number (Integral 2)), (''maxLength'', Number (Integral 3))]),
      (''tags'', Object [(''type'', String ''array''), (''items'', Object [(''type'', String ''integer'')]),
         (''minLength'', Number (Integral 1)), (''maxLength'', Number (Integral 2))])])]"

definition demo_props :: "string data_schema list" where
  "demo_props =
     [SString ''name'' [(KMinLength, MinLength 2), (KMaxLength, MaxLength 3)],
      SArray (Some ''tags'') [SInteger ''__'' []] [(KMinLength, MinLength 1), (KMaxLength, MaxLength 2)]]"

lemma demo_schema_parses:
  "data_schema_from_value demo_env demo_schema = Inr (SObject None demo_props)"
  "well_keyed demo_schema" "\<forall>s \<in> set demo_props. inhabited s"
  by code_simp (simp_all add: demo_schema_def demo_props_def)

lemma data_schema_from_value_parsed:
  assumes "data_schema_from_value E v = Inr s" "well_keyed v"
  obtains ss ks where "s = SObject None ss" "parsed_list E ks ss"
proof -
  from assms(1) obtain p ps ss where p: "json_get ''properties'' v = Some p" "as_object p = Some ps"
      "parse_properties E ps = Inr ss" "s = SObject None ss"
    by (auto simp: data_schema_from_value_def and_then_Inr_iff ok_or_Inr_iff bind_eq_Some_conv)
  moreover have "well_keyed (Object ps)" using well_keyed_get [OF p(1) assms(2)] p(2) by (cases p) auto
  ultimately show thesis using parse_properties_parsed that by blast
qed





text \<open>An array whose items have a type the library does not know is accepted, and generating
  data for it panics as soon as it has an element, whatever the generator returns.\<close>
theorem generate_array_of_unknown_type_panics:
  assumes "rng_ok E"
  shows "\<exists>s. data_schema_from_value E (Object [(''properties'', Object [(''a'', Object
             [(''type'', String ''array''), (''items'', Object [(''type'', String ''number'')])])])]) = Inr s
           \<and> generate_data E s g = None"
proof -
  have "parse_properties E [(''__'', Object [(''type'', String ''number'')])] = Inr []"
    by (subst parse_properties.simps(2)) simp
  then have parsed: "data_schema_from_value E (Object [(''properties'', Object [(''a'', Object
             [(''type'', String ''array''), (''items'', Object [(''type'', String ''number'')])])])])
      = Inr (SObject None [SArray (Some ''a'') [] []])"
    by (simp add: data_schema_from_value_def)
      (subst parse_properties.simps(2), simp add: get_constraints_def parse_constraints_Cons
        constraint_entry_def validate_constraints_def range_inverted_def)
  obtain i g' where "rand_i64 E 1 20 g = Some (i, g')" "1 \<le> i"
    using rand_i64_ok [OF assms, of 1 20 g] by auto
  moreover from this(2) have "generate_items E [] (nat i) g' = None" by (subst generate_items.simps) simp
  ultimately have "generate_data E (SObject None [SArray (Some ''a'') [] []]) g = None"
    by (simp add: constraint_i64_or_def)
  with parsed show ?thesis by blast
qed

theorem generate_array_of_unknown_type_panics_witness:
  "\<exists>s. data_schema_from_value demo_env (Object [(''properties'', Object [(''a'', Object
             [(''type'', String ''array''), (''items'', Object [(''type'', String ''number'')])])])]) = Inr s
           \<and> generate_data demo_env s () = None"
  by (rule generate_array_of_unknown_type_panics [OF demo_env_rng_ok])

text \<open>Lengths are not checked for being negative. A string property with \<open>minLength\<close> and
  \<open>maxLength\<close> both \<open>-1\<close> is accepted, and the size, cast to \<open>usize\<close>, asks for
  \<open>2 ^ 64 - 1\<close> characters.\<close>
theorem generate_string_negative_length:
  assumes "rng_ok E"
  shows "\<exists>cs s g'. get_constraints E (Object [(''minLength'', Number (Integral (- 1))), (''maxLength'', Number (Integral (- 1)))])
             = Inr cs \<and> generate_string_data E cs g = Some (s, g') \<and> length s = 2 ^ 64 - 1"
proof -
  let ?cs = "[(KMinLength, MinLength (- 1)), (KMaxLength, MaxLength (- 1))]"
  have "get_constraints E (Object [(''minLength'', Number (Integral (- 1))), (''maxLength'', Number (Integral (- 1)))]) = Inr ?cs"
    by (simp add: get_constraints_def parse_constraints_Cons constraint_entry_def in_i64_def
        validate_constraints_def range_inverted_def)
  moreover obtain g' where r: "rand_i64 E (- 1) (- 1) g = Some (- 1, g')"
    using rand_i64_ok [OF assms, of "- 1" "- 1" g] by force
  have "i64_as_usize (- 1) = 2 ^ 64 - 1" by (simp add: i64_as_usize_def)
  with r have "map_option (\<lambda>x. length (fst x)) (generate_string_data E ?cs g) = Some (2 ^ 64 - 1)"
    by (simp add: generate_string_data_def constraint_i64_or_def)
  ultimately show ?thesis by auto
qed

theorem generate_string_negative_length_witness:
  "\<exists>cs s g'. get_constraints demo_env (Object [(''minLength'', Number (Integral (- 1))), (''maxLength'', Number (Integral (- 1)))])
             = Inr cs \<and> generate_string_data demo_env cs () = Some (s, g') \<and> length s = 2 ^ 64 - 1"
  by (rule generate_string_negative_length [OF demo_env_rng_ok])

end
