(* ===== verification/Template.thy ===== *)
theory Template
  imports Data_Gen
begin

text \<open>
  Templates inside JSON values (\<open>datagen/src/template.rs\<close>): every string that contains an expression
  between double braces is compiled once and remembered under its JSON pointer; generating a
  body evaluates the expressions and stores the results at those pointers.

  Parameters, collected in \<open>template_env\<close>: the capture of the regular expression
  (\<open>PATTERN_FUNCTION\<close>), the compiler of the scripting engine (an error is its text), and
  the evaluation of a compiled expression together with the conversion of its result (an error is
  its text), which may depend on the state of the random number generator. \<open>None\<close> is a panic.
\<close>

section \<open>JSON pointers\<close>

text \<open>The escapes of a pointer token.\<close>

fun replace2 :: "char \<Rightarrow> char \<Rightarrow> char \<Rightarrow> string \<Rightarrow> string" where
  "replace2 a b c (x # y # zs) = (if x = a \<and> y = b then c # replace2 a b c zs else x # replace2 a b c (y # zs))"
| "replace2 a b c xs = xs"

definition pointer_tokens :: "string \<Rightarrow> string list option" where
  "pointer_tokens p =
     (if p = [] then Some []
      else if hd p \<noteq> CHR ''/'' then None
      else Some (map (\<lambda>t. replace2 CHR ''~'' CHR ''0'' CHR ''~'' (replace2 CHR ''~'' CHR ''1'' CHR ''/'' t))
                   (tl (split_on CHR ''/'' p))))"

definition parse_index :: "string \<Rightarrow> nat option" where
  "parse_index s =
     (if (s \<noteq> [] \<and> hd s = CHR ''+'') \<or> (s \<noteq> [] \<and> hd s = CHR ''0'' \<and> length s \<noteq> 1) then None
      else parse_usize s)"

fun pointer_get :: "string list \<Rightarrow> json \<Rightarrow> json option" where
  "pointer_get [] j = Some j"
| "pointer_get (t # ts) (Object es) = do { v \<leftarrow> map_of es t; pointer_get ts v }"
| "pointer_get (t # ts) (Array xs) = do { i \<leftarrow> parse_index t; v \<leftarrow> vec_get xs i; pointer_get ts v }"
| "pointer_get (t # ts) _ = None"

text \<open>Storing through the reference that \<open>pointer_mut\<close> returns.\<close>

fun pointer_set :: "string list \<Rightarrow> json \<Rightarrow> json \<Rightarrow> json" where
  "pointer_set [] w j = w"
| "pointer_set (t # ts) w (Object es) =
     (case map_of es t of None \<Rightarrow> Object es | Some v \<Rightarrow> Object (map_insert t (pointer_set ts w v) es))"
| "pointer_set (t # ts) w (Array xs) =
     (case do { i \<leftarrow> parse_index t; v \<leftarrow> vec_get xs i; Some (i, v) } of
        None \<Rightarrow> Array xs
      | Some (i, v) \<Rightarrow> Array (xs[i := pointer_set ts w v]))"
| "pointer_set (t # ts) w j = j"

section \<open>Compiling and evaluating the templates of a value\<close>

record ('a, 'g) template_env =
  tpl_captures :: "string \<Rightarrow> string option"
  tpl_compile :: "string \<Rightarrow> string + 'a"
  tpl_eval :: "'a \<Rightarrow> 'g \<Rightarrow> (string + json) \<times> 'g"

definition find_pattern_and_compile :: "('a, 'g) template_env \<Rightarrow> string \<Rightarrow> 'a option option" where
  "find_pattern_and_compile T target =
     (case tpl_captures T target of
        None \<Rightarrow> Some None
      | Some expr \<Rightarrow>
          (case tpl_compile T expr of
             Inr ast \<Rightarrow> Some (Some ast)
           | Inl e \<Rightarrow>
               (case tpl_compile T (CHR 0x60 # e @ [CHR 0x60]) of
                  Inr ast \<Rightarrow> Some (Some ast)
                | Inl _ \<Rightarrow> None)))"

fun parse_templates_inner ::
    "('a, 'g) template_env \<Rightarrow> json \<Rightarrow> string \<Rightarrow> (string \<times> 'a) list \<Rightarrow> (string \<times> 'a) list option"
  and parse_templates_array ::
    "('a, 'g) template_env \<Rightarrow> nat \<Rightarrow> json list \<Rightarrow> string \<Rightarrow> (string \<times> 'a) list \<Rightarrow> (string \<times> 'a) list option"
  and parse_templates_object ::
    "('a, 'g) template_env \<Rightarrow> json_map \<Rightarrow> string \<Rightarrow> (string \<times> 'a) list \<Rightarrow> (string \<times> 'a) list option" where
  "parse_templates_inner T (String str_val) path m =
     (case find_pattern_and_compile T str_val of
        None \<Rightarrow> None | Some None \<Rightarrow> Some m | Some (Some ast) \<Rightarrow> Some (map_insert path ast m))"
| "parse_templates_inner T (Array vals) path m = parse_templates_array T 0 vals path m"
| "parse_templates_inner T (Object vals) path m = parse_templates_object T vals path m"
| "parse_templates_inner T Null path m = Some m"
| "parse_templates_inner T (Bool _) path m = Some m"
| "parse_templates_inner T (Number _) path m = Some m"
| "parse_templates_array T pos [] path m = Some m"
| "parse_templates_array T pos (v # vals) path m =
     (case parse_templates_inner T v (path @ CHR ''/'' # show_nat pos) m of
        None \<Rightarrow> None | Some m \<Rightarrow> parse_templates_array T (Suc pos) vals path m)"
| "parse_templates_object T [] path m = Some m"
| "parse_templates_object T ((key, v) # vals) path m =
     (case parse_templates_inner T v (path @ CHR ''/'' # key) m of
        None \<Rightarrow> None | Some m \<Rightarrow> parse_templates_object T vals path m)"

definition parse_templates :: "('a, 'g) template_env \<Rightarrow> json \<Rightarrow> (string \<times> 'a) list option" where
  "parse_templates T json = parse_templates_inner T json [] []"

definition eval_template :: "('a, 'g) template_env \<Rightarrow> 'a \<Rightarrow> 'g \<Rightarrow> json \<times> 'g" where
  "eval_template T ast g =
     (case tpl_eval T ast g of (Inl e, g) \<Rightarrow> (String e, g) | (Inr v, g) \<Rightarrow> (v, g))"

fun populate_data :: "('a, 'g) template_env \<Rightarrow> json \<Rightarrow> (string \<times> 'a) list \<Rightarrow> 'g \<Rightarrow> json \<times> 'g" where
  "populate_data T json [] g = (json, g)"
| "populate_data T json ((path, ast) # templates) g =
     (case do { ts \<leftarrow> pointer_tokens path; v \<leftarrow> pointer_get ts json; Some ts } of
        None \<Rightarrow> populate_data T json templates g
      | Some ts \<Rightarrow>
          (let (v, g) = eval_template T ast g in populate_data T (pointer_set ts v json) templates g))"

section \<open>The functions templates can call\<close>

definition random_int :: "('h, 'g) gen_env \<Rightarrow> i64 \<Rightarrow> i64 \<Rightarrow> 'g \<Rightarrow> (i64 \<times> 'g) option" where
  "random_int E l h g = (if l < h then Some (rng_i64 E l (h - 1) g) else None)"

text \<open>A pattern that cannot be parsed or generated gives the text of its error, \<open>error_text\<close>.\<close>

definition random_str_pattern :: "('h, 'g) gen_env \<Rightarrow> (string \<Rightarrow> string) \<Rightarrow> string \<Rightarrow> 'g \<Rightarrow> string \<times> 'g" where
  "random_str_pattern E error_text regex g =
     (case regex_parse E regex of
        None \<Rightarrow> (error_text regex, g)
      | Some gen \<Rightarrow> (let (s, g) = regex_generate E gen g in (case s of None \<Rightarrow> error_text regex | Some v \<Rightarrow> v, g)))"

definition random_str :: "('h, 'g) gen_env \<Rightarrow> i64 \<Rightarrow> i64 \<Rightarrow> 'g \<Rightarrow> (string \<times> 'g) option" where
  "random_str E min_len max_len g =
     (let min_len = max 1 min_len; max_len = max min_len max_len
      in do { (size, g) \<leftarrow> rand_i64 E min_len max_len g; Some (take_alphabetic E (i64_as_usize size) g) })"

text \<open>\<open>parse_error\<close> is the text of the parse error.\<close>

definition to_int :: "(string \<Rightarrow> string) \<Rightarrow> string \<Rightarrow> json" where
  "to_int parse_error int_str =
     (case parse_i64 int_str of None \<Rightarrow> String (parse_error int_str) | Some i \<Rightarrow> Number (Integral i))"

section \<open>Pointers and paths\<close>

definition path_of :: "string list \<Rightarrow> string" where
  "path_of ts = concat (map (\<lambda>t. CHR ''/'' # t) ts)"

definition clean_token :: "string \<Rightarrow> bool" where
  "clean_token t \<longleftrightarrow> CHR ''/'' \<notin> set t \<and> CHR ''~'' \<notin> set t"

lemma split_on_path:
  "\<forall>t \<in> set ts. clean_token t \<Longrightarrow> split_on CHR ''/'' (path_of ts) = [] # ts"
proof (induction ts)
  case (Cons t ts)
  then have "split_on CHR ''/'' (path_of ts) = [] # ts" "CHR ''/'' \<notin> set t" by (auto simp: clean_token_def)
  then have "split_on CHR ''/'' (t @ path_of ts) = t # ts"
    by (cases ts) (auto simp: path_of_def split_on_none split_on_append split: list.splits if_splits)
  then show ?case by (simp add: path_of_def)
qed (simp add: path_of_def)

lemma replace2_clean [simp]: "a \<notin> set t \<Longrightarrow> replace2 a b c t = t"
  by (induction a b c t rule: replace2.induct) auto

lemma pointer_tokens_path: "\<forall>t \<in> set ts. clean_token t \<Longrightarrow> pointer_tokens (path_of ts) = Some ts"
proof (cases ts)
  case (Cons t ts')
  assume clean: "\<forall>t \<in> set ts. clean_token t"
  have "map (\<lambda>t. replace2 CHR ''~'' CHR ''0'' CHR ''~'' (replace2 CHR ''~'' CHR ''1'' CHR ''/'' t)) ts = ts"
    using clean by (intro map_idI) (simp add: clean_token_def)
  moreover have "path_of ts \<noteq> []" "hd (path_of ts) = CHR ''/''" by (simp_all add: Cons path_of_def)
  ultimately show ?thesis
    unfolding pointer_tokens_def split_on_path [OF clean] by (simp only: list.sel if_False simp_thms)
qed (simp add: path_of_def pointer_tokens_def)

lemma path_of_inj: "\<forall>t \<in> set ts \<union> set us. clean_token t \<Longrightarrow> path_of ts = path_of us \<Longrightarrow> ts = us"
  by (metis UnI1 UnI2 option.inject pointer_tokens_path)

lemma clean_token_append: "clean_token (s @ t) \<longleftrightarrow> clean_token s \<and> clean_token t"
  by (auto simp: clean_token_def)

lemma digit_char_clean: "d < 10 \<Longrightarrow> clean_token [digit_char d]"
proof -
  have "digit_value CHR ''/'' = None" "digit_value CHR ''~'' = None" by (simp_all add: digit_value_def)
  moreover assume "d < 10"
  ultimately show ?thesis using digit_value_digit_char [of d] by (auto simp: clean_token_def)
qed

lemma show_nat_clean: "clean_token (show_nat n)"
proof (induction n rule: show_nat.induct)
  case (1 n)
  then show ?case by (subst show_nat.simps) (simp add: clean_token_append digit_char_clean)
qed

lemma show_nat_leading_zero: "hd (show_nat n) = CHR ''0'' \<Longrightarrow> length (show_nat n) = 1"
proof (induction n rule: show_nat.induct)
  case (1 n)
  show ?case
  proof (cases "n < 10")
    case True
    then show ?thesis by (subst show_nat.simps) simp
  next
    case False
    then have n: "show_nat n = show_nat (n div 10) @ [digit_char (n mod 10)]" by (subst show_nat.simps) simp
    with 1 False have "length (show_nat (n div 10)) = 1" "hd (show_nat (n div 10)) = CHR ''0''" by simp_all
    moreover have "show_nat (n div 10) \<noteq> ''0''"
      using False parse_digits_show_nat [of "n div 10"] by (auto simp: digit_value_def)
    ultimately show ?thesis by (cases "show_nat (n div 10)") auto
  qed
qed

lemma parse_index_show_nat [simp]: "n < 2 ^ 64 \<Longrightarrow> parse_index (show_nat n) = Some n"
  using show_nat_leading_zero [of n] show_nat_not_sign [of n] parse_unsigned_show_nat [of n 64]
  by (cases "show_nat n") (auto simp: parse_index_def)

section \<open>Filling in the templates\<close>

text \<open>The values the pointers are meant for: keys without the characters a pointer escapes, no
  duplicate keys, and arrays whose indices fit a \<open>usize\<close>.\<close>

fun clean :: "json \<Rightarrow> bool" where
  "clean (Array xs) = (length xs < 2 ^ 64 \<and> (\<forall>x \<in> set xs. clean x))"
| "clean (Object es) = (distinct (map fst es) \<and> (\<forall>e \<in> set es. clean_token (fst e) \<and> clean (snd e)))"
| "clean _ = True"

text \<open>\<open>filled T j r S\<close>: \<open>r\<close> is \<open>j\<close> with every template whose pointer is in \<open>S\<close> replaced by
  a result of its expression.\<close>

function filled :: "('a, 'g) template_env \<Rightarrow> json \<Rightarrow> json \<Rightarrow> string list set \<Rightarrow> bool" where
  "filled T (String s) r S =
     (case find_pattern_and_compile T s of
        Some (Some ast) \<Rightarrow> if [] \<in> S then (\<exists>g. r = fst (eval_template T ast g)) else r = String s
      | _ \<Rightarrow> r = String s)"
| "filled T (Array xs) r S =
     (\<exists>ys. r = Array ys \<and> length ys = length xs
        \<and> (\<forall>i < length xs. filled T (xs ! i) (ys ! i) {ts. show_nat i # ts \<in> S}))"
| "filled T (Object es) r S =
     (\<exists>fs. r = Object fs \<and> map fst fs = map fst es
        \<and> (\<forall>i < length es. filled T (snd (es ! i)) (snd (fs ! i)) {ts. fst (es ! i) # ts \<in> S}))"
| "filled T Null r S = (r = Null)"
| "filled T (Bool b) r S = (r = Bool b)"
| "filled T (Number n) r S = (r = Number n)"
  by pat_completeness auto
termination
proof (relation "measure (\<lambda>(T, j, r, S). jsize j)", goal_cases)
  case (2 T xs r S ys i)
  then show ?case using member_le_sum_list [of "jsize (xs ! i)" "map jsize xs"] by simp
next
  case (3 T es r S fs i)
  then show ?case
    using member_le_sum_list [of "Suc (jsize (snd (es ! i)))" "map (\<lambda>e. Suc (jsize (snd e))) es"] by force
qed simp

text \<open>The pointers of the templates of a value, with their expressions.\<close>

inductive template_in :: "('a, 'g) template_env \<Rightarrow> json \<Rightarrow> string list \<Rightarrow> 'a \<Rightarrow> bool" for T where
  leaf: "find_pattern_and_compile T s = Some (Some ast) \<Longrightarrow> template_in T (String s) [] ast"
| item: "i < length xs \<Longrightarrow> template_in T (xs ! i) ts ast \<Longrightarrow> template_in T (Array xs) (show_nat i # ts) ast"
| entry: "i < length es \<Longrightarrow> template_in T (snd (es ! i)) ts ast \<Longrightarrow> template_in T (Object es) (fst (es ! i) # ts) ast"

inductive_simps template_in_simps:
  "template_in T (String s) ts ast" "template_in T (Array xs) ts ast" "template_in T (Object es) ts ast"
  "template_in T Null ts ast" "template_in T (Bool b) ts ast" "template_in T (Number n) ts ast"

lemma template_in_clean: "template_in T j ts ast \<Longrightarrow> clean j \<Longrightarrow> \<forall>t \<in> set ts. clean_token t"
  by (induction rule: template_in.induct) (auto simp: show_nat_clean)

lemma filled_empty: "filled T j j {}"
  by (induction j rule: jsize.induct) (auto split: option.splits)

lemma filled_all:
  "filled T j r S \<Longrightarrow> (\<And>ts ast. template_in T j ts ast \<Longrightarrow> ts \<in> S) \<Longrightarrow> filled T j r UNIV"
proof (induction T j r S rule: filled.induct)
  case (1 T s r S)
  then show ?case by (auto simp: template_in_simps split: option.splits)
next
  case (2 T xs r S)
  then obtain ys where ys: "r = Array ys" "length ys = length xs"
    "\<And>i. i < length xs \<Longrightarrow> filled T (xs ! i) (ys ! i) {ts. show_nat i # ts \<in> S}" by auto
  have "filled T (xs ! i) (ys ! i) UNIV" if "i < length xs" for i
    using 2(1) [OF that ys(3) [OF that]] 2(3) that by (auto simp: template_in_simps)
  then show ?case using ys(1,2) by simp
next
  case (3 T es r S)
  then obtain fs where fs: "r = Object fs" "map fst fs = map fst es"
    "\<And>i. i < length es \<Longrightarrow> filled T (snd (es ! i)) (snd (fs ! i)) {ts. fst (es ! i) # ts \<in> S}" by auto
  have "filled T (snd (es ! i)) (snd (fs ! i)) UNIV" if "i < length es" for i
    using 3(1) [OF that fs(3) [OF that]] 3(3) that by (auto simp: template_in_simps)
  then show ?case using fs(1,2) by simp
qed simp_all

lemma map_insert_nth:
  "distinct (map fst es) \<Longrightarrow> i < length es \<Longrightarrow> map_insert (fst (es ! i)) w es = es[i := (fst (es ! i), w)]"
proof (induction es arbitrary: i)
  case (Cons e es)
  show ?case
  proof (cases i)
    case 0
    then show ?thesis by (cases e) simp
  next
    case (Suc k)
    with Cons.prems have "fst (es ! k) \<in> fst ` set es" "k < length es" by simp_all
    with Cons.prems(1) have "fst e \<noteq> fst (es ! k)" by auto
    with Cons Suc show ?thesis by (cases e) simp
  qed
qed simp

lemma map_of_fst_nth: "distinct (map fst es) \<Longrightarrow> i < length es \<Longrightarrow> map_of es (fst (es ! i)) = Some (snd (es ! i))"
  by (metis map_of_eq_Some_iff nth_mem prod.collapse)

lemma filled_step:
  assumes "template_in T j p ast" "clean j" "filled T j r S" "p \<notin> S"
  shows "pointer_get p r \<noteq> None \<and> filled T j (pointer_set p (fst (eval_template T ast g)) r) (insert p S)"
  using assms
proof (induction arbitrary: r S rule: template_in.induct)
  case (leaf s ast)
  then show ?case by auto
next
  case (item i xs ts ast)
  then obtain ys where ys: "r = Array ys" "length ys = length xs"
    "\<And>k. k < length xs \<Longrightarrow> filled T (xs ! k) (ys ! k) {ts. show_nat k # ts \<in> S}" by auto
  let ?w = "fst (eval_template T ast g)"
  have idx: "parse_index (show_nat i) = Some i" using item.hyps item.prems(1) by simp
  have IH: "pointer_get ts (ys ! i) \<noteq> None"
      "filled T (xs ! i) (pointer_set ts ?w (ys ! i)) (insert ts {ts. show_nat i # ts \<in> S})"
    using item.IH [of "ys ! i" "{ts. show_nat i # ts \<in> S}"] item.prems item.hyps(1) ys(3) by auto
  have "filled T (xs ! k) (ys[i := pointer_set ts ?w (ys ! i)] ! k)
          {us. show_nat k # us \<in> insert (show_nat i # ts) S}" if "k < length xs" for k
  proof (cases "k = i")
    case True
    have "{us. show_nat i # us \<in> insert (show_nat i # ts) S} = insert ts {ts. show_nat i # ts \<in> S}" by auto
    with True IH(2) that ys(2) show ?thesis by simp
  next
    case False
    have "show_nat k \<noteq> show_nat i" using False parse_digits_show_nat [of k] parse_digits_show_nat [of i] by force
    with ys(3) [OF that] False show ?thesis by simp
  qed
  with IH(1) ys(1,2) item.hyps(1) idx show ?case by (simp add: vec_get_def)
next
  case (entry i es ts ast)
  then obtain fs where fs: "r = Object fs" "map fst fs = map fst es"
    "\<And>k. k < length es \<Longrightarrow> filled T (snd (es ! k)) (snd (fs ! k)) {ts. fst (es ! k) # ts \<in> S}" by auto
  let ?w = "fst (eval_template T ast g)" and ?k = "fst (es ! i)"
  have len: "length fs = length es" using fs(2) by (metis length_map)
  have keys: "fst (fs ! k) = fst (es ! k)" if "k < length es" for k
    using fs(2) that len by (metis nth_map)
  have dist: "distinct (map fst fs)" using entry.prems(1) fs(2) by simp
  have get: "map_of fs ?k = Some (snd (fs ! i))"
    using map_of_fst_nth [OF dist, of i] entry.hyps(1) keys len by simp
  have ins: "map_insert ?k w fs = fs[i := (?k, w)]" for w
    using map_insert_nth [OF dist, of i] entry.hyps(1) keys len by simp
  have IH: "pointer_get ts (snd (fs ! i)) \<noteq> None"
      "filled T (snd (es ! i)) (pointer_set ts ?w (snd (fs ! i))) (insert ts {ts. ?k # ts \<in> S})"
    using entry.IH [of "snd (fs ! i)" "{ts. ?k # ts \<in> S}"] entry.prems entry.hyps(1) fs(3) by auto
  have "filled T (snd (es ! k)) (snd (fs[i := (?k, pointer_set ts ?w (snd (fs ! i)))] ! k))
          {us. fst (es ! k) # us \<in> insert (?k # ts) S}" if "k < length es" for k
  proof (cases "k = i")
    case True
    have "{us. ?k # us \<in> insert (?k # ts) S} = insert ts {ts. ?k # ts \<in> S}" by auto
    with True IH(2) that len show ?thesis by simp
  next
    case False
    have "fst (es ! k) \<noteq> ?k"
      using False that entry.hyps(1) entry.prems(1) by (simp add: distinct_conv_nth)
    with fs(3) [OF that] False show ?thesis by simp
  qed
  moreover have "map fst (fs[i := (?k, w)]) = map fst es" for w
    using fs(2) entry.hyps(1) by (simp add: map_update) (metis list_update_id nth_map)
  ultimately show ?case using IH(1) fs(1) get ins by simp
qed

section \<open>The remembered templates\<close>

definition records :: "(string \<times> 'a) list \<Rightarrow> (string \<times> 'a) list \<Rightarrow> (string list \<times> 'a) set \<Rightarrow> bool" where
  "records m m' P \<longleftrightarrow>
     (distinct (map fst m) \<longrightarrow> distinct (map fst m')) \<and> fst ` set m' = fst ` set m \<union> (\<lambda>x. path_of (fst x)) ` P
     \<and> set m' \<subseteq> set m \<union> (\<lambda>x. (path_of (fst x), snd x)) ` P"

lemma records_refl: "records m m {}"
  by (simp add: records_def)

lemma records_trans: "records m m1 P \<Longrightarrow> records m1 m2 Q \<Longrightarrow> records m m2 (P \<union> Q)"
proof -
  have sub: "X \<subseteq> Z \<union> (A \<union> B)" if "X \<subseteq> Y \<union> B" "Y \<subseteq> Z \<union> A" for A B X Y Z :: "(string \<times> 'a) set"
    using that by blast
  assume "records m m1 P" "records m1 m2 Q"
  then show ?thesis unfolding records_def image_Un by (elim conjE, intro conjI sub [where Y = "set m1"]) (simp_all add: Un_assoc)
qed

lemma records_insert: "records m (map_insert (path_of ts) ast m) {(ts, ast)}"
  using set_map_insert_subset [of "path_of ts" ast m] by (auto simp: records_def)

lemma path_of_snoc: "path_of pre @ CHR ''/'' # t = path_of (pre @ [t])"
  by (simp add: path_of_def)

definition templates_below :: "('a, 'g) template_env \<Rightarrow> string list \<Rightarrow> json \<Rightarrow> (string list \<times> 'a) set" where
  "templates_below T pre j = {(pre @ ts, ast) | ts ast. template_in T j ts ast}"

lemma templates_below_array_Cons:
  "(\<Union>i < length (v # vals). templates_below T (pre @ [show_nat (pos + i)]) ((v # vals) ! i))
     = templates_below T (pre @ [show_nat pos]) v
       \<union> (\<Union>i < length vals. templates_below T (pre @ [show_nat (Suc pos + i)]) (vals ! i))"
  by (auto simp: lessThan_Suc_eq_insert_0 image_iff)

lemma templates_below_array:
  "templates_below T pre (Array xs) = (\<Union>i < length xs. templates_below T (pre @ [show_nat i]) (xs ! i))"
  by (auto simp: templates_below_def template_in_simps)

lemma templates_below_object:
  "templates_below T pre (Object es) = (\<Union>e \<in> set es. templates_below T (pre @ [fst e]) (snd e))"
proof -
  have "templates_below T pre (Object es) = (\<Union>i < length es. templates_below T (pre @ [fst (es ! i)]) (snd (es ! i)))"
    by (auto simp: templates_below_def template_in_simps)
  also have "\<dots> = (\<Union>e \<in> set es. templates_below T (pre @ [fst e]) (snd e))"
    unfolding set_conv_nth by blast
  finally show ?thesis .
qed

lemma parse_templates_records:
  "parse_templates_inner T j path m = Some m' \<Longrightarrow> path = path_of pre \<Longrightarrow> records m m' (templates_below T pre j)"
  "parse_templates_array T pos vals path m = Some m' \<Longrightarrow> path = path_of pre \<Longrightarrow>
     records m m' (\<Union>i < length vals. templates_below T (pre @ [show_nat (pos + i)]) (vals ! i))"
  "parse_templates_object T es path m = Some m' \<Longrightarrow> path = path_of pre \<Longrightarrow>
     records m m' (\<Union>e \<in> set es. templates_below T (pre @ [fst e]) (snd e))"
proof (induction T j path m and T pos vals path m and T es path m arbitrary: pre m' and pre m' and pre m'
    rule: parse_templates_inner_parse_templates_array_parse_templates_object.induct)
  case (1 T s path m)
  then consider "find_pattern_and_compile T s = Some None" "m' = m"
    | ast where "find_pattern_and_compile T s = Some (Some ast)" "m' = map_insert path ast m"
    by (auto split: option.splits)
  then show ?case
  proof cases
    case 1
    then have "templates_below T pre (String s) = {}" by (simp add: templates_below_def template_in_simps)
    with 1(2) show ?thesis by (simp add: records_refl)
  next
    case 2
    then have "templates_below T pre (String s) = {(pre, ast)}" by (simp add: templates_below_def template_in_simps)
    with 2(2) \<open>path = path_of pre\<close> show ?thesis by (simp add: records_insert)
  qed
next
  case (8 T pos v vals path m)
  then obtain m1 where m1: "parse_templates_inner T v (path @ CHR ''/'' # show_nat pos) m = Some m1"
      "parse_templates_array T (Suc pos) vals path m1 = Some m'"
    by (auto split: option.splits)
  have "path @ CHR ''/'' # show_nat pos = path_of (pre @ [show_nat pos])" using 8(4) by (simp add: path_of_snoc)
  from records_trans [OF 8(1) [OF m1(1) this] 8(2) [OF m1(1) m1(2) 8(4)]]
  show ?case unfolding templates_below_array_Cons .
next
  case (10 T key v vals path m)
  then obtain m1 where m1: "parse_templates_inner T v (path @ CHR ''/'' # key) m = Some m1"
      "parse_templates_object T vals path m1 = Some m'"
    by (auto split: option.splits)
  have "path @ CHR ''/'' # key = path_of (pre @ [key])" using 10(4) by (simp add: path_of_snoc)
  from records_trans [OF 10(1) [OF m1(1) this] 10(2) [OF m1(1) m1(2) 10(4)]]
  show ?case by simp
next
  case (2 T vals path m)
  then show ?case using 2(1) [of m' pre] by (simp add: templates_below_array)
next
  case (3 T vals path m)
  then show ?case using 3(1) [of m' pre] by (simp add: templates_below_object)
qed (simp_all add: templates_below_def template_in_simps records_refl)

lemma populate_filled:
  assumes "\<forall>(path, ast) \<in> set ms. \<exists>ts. path = path_of ts \<and> template_in T j ts ast" "distinct (map fst ms)" "clean j"
    and "filled T j r S" "\<forall>ts \<in> S. (\<forall>t \<in> set ts. clean_token t) \<and> path_of ts \<notin> fst ` set ms"
  shows "\<exists>S'. filled T j (fst (populate_data T r ms g)) (S \<union> S') \<and> (\<forall>ts. path_of ts \<in> fst ` set ms \<and> (\<forall>t \<in> set ts. clean_token t) \<longrightarrow> ts \<in> S')"
  using assms
proof (induction ms arbitrary: r S g)
  case Nil
  then show ?case by (intro exI [of _ "{}"]) simp
next
  case (Cons m ms)
  obtain path ast where m: "m = (path, ast)" by fastforce
  obtain ts where ts: "path = path_of ts" "template_in T j ts ast" using Cons.prems(1) m by auto
  have clean: "\<forall>t \<in> set ts. clean_token t" using template_in_clean [OF ts(2) Cons.prems(3)] .
  have "ts \<notin> S" using Cons.prems(5) m ts(1) by auto
  note step = filled_step [OF ts(2) Cons.prems(3,4) this, of g]
  obtain v g' where v: "eval_template T ast g = (v, g')" by fastforce
  have "\<forall>us \<in> insert ts S. (\<forall>t \<in> set us. clean_token t) \<and> path_of us \<notin> fst ` set ms"
    using Cons.prems(2,5) m ts(1) clean by auto
  from Cons.IH [OF _ _ Cons.prems(3) _ this, of "pointer_set ts v r" g'] Cons.prems(1,2) step v
  obtain S' where S': "filled T j (fst (populate_data T (pointer_set ts v r) ms g')) (insert ts S \<union> S')"
      "\<forall>ts. path_of ts \<in> fst ` set ms \<and> (\<forall>t \<in> set ts. clean_token t) \<longrightarrow> ts \<in> S'" by auto
  obtain w where "pointer_get ts r = Some w" using step by auto
  then have "populate_data T r (m # ms) g = populate_data T (pointer_set ts v r) ms g'"
    by (simp add: m ts(1) pointer_tokens_path [OF clean] v)
  moreover have "us \<in> insert ts S'" if "path_of us \<in> fst ` set (m # ms)" "\<forall>t \<in> set us. clean_token t" for us
    using that S'(2) path_of_inj [of us ts] clean by (auto simp: m ts(1))
  ultimately show ?case using S'(1) by (intro exI [of _ "insert ts S'"]) simp
qed

section \<open>Properties\<close>

definition demo_templates :: "(string, unit) template_env" where
  "demo_templates =
     \<lparr>tpl_captures = (\<lambda>s. if take 2 s = ''{{'' then Some (drop 2 s) else None), tpl_compile = Inr,
      tpl_eval = (\<lambda>ast g. (Inr (Number (Integral 7)), g))\<rparr>"

definition demo_body :: json where
  "demo_body = Object [(''a'', String ''{{randomInt(1,9)}}''), (''b'', Array [String ''x'', String ''{{f()}}''])]"



text \<open>The pointer of a template is built from the keys as they are, without the escapes a JSON
  pointer needs. A template under the key \<open>a/b\<close> is remembered under a pointer that leads nowhere,
  and the generated body still contains the unevaluated template.\<close>
theorem populate_data_misses_slash_keys:
  "parse_templates demo_templates (Object [(''a/b'', String ''{{f()}}'')]) = Some [(''/a/b'', ''f()}}'')]
   \<and> fst (populate_data demo_templates (Object [(''a/b'', String ''{{f()}}'')]) [(''/a/b'', ''f()}}'')] ())
       = Object [(''a/b'', String ''{{f()}}'')]"
  by code_simp

text \<open>\<open>randomStr\<close> never fails: its length is between the requested minimum, raised to at
  least one, and the requested maximum, raised to at least that minimum.\<close>
theorem random_str_length:
  assumes "rng_ok E" "min_len < 2 ^ 63" "max_len < 2 ^ 63"
  shows "\<exists>s g'. random_str E min_len max_len g = Some (s, g')
           \<and> max 1 min_len \<le> int (length s) \<and> int (length s) \<le> max (max 1 min_len) max_len"
proof -
  obtain i g1 where i: "rand_i64 E (max 1 min_len) (max (max 1 min_len) max_len) g = Some (i, g1)"
      "max 1 min_len \<le> i" "i \<le> max (max 1 min_len) max_len"
    using rand_i64_ok [OF assms(1), of "max 1 min_len" "max (max 1 min_len) max_len" g] by auto
  then have "0 \<le> i" "i < 2 ^ 64" using assms(2,3) by auto
  moreover obtain s g' where s: "take_alphabetic E (i64_as_usize i) g1 = (s, g')" by fastforce
  moreover from s have "length s = i64_as_usize i" by (metis fst_conv length_take_alphabetic)
  ultimately have "int (length s) = i" by simp
  with i s show ?thesis by (simp add: random_str_def Let_def)
qed

theorem random_str_length_witness:
  "\<exists>s g'. random_str demo_env (- 3) 2 () = Some (s, g') \<and> 1 \<le> int (length s) \<and> int (length s) \<le> 2"
  using random_str_length [OF demo_env_rng_ok, of "- 3" 2 "()"] by simp

end
