(* ===== verification/Lua_Helper.thy ===== *)
theory Lua_Helper
  imports Overload_Prelude
begin

text \<open>
  Loading and calling Lua assertion functions (\<open>lua-helper/src/lib.rs\<close>).

  The Lua interpreter is a parameter (\<open>lua_env\<close>): evaluating a chunk to a function, the
  registry, and calling a function. A value a script returns is a table, seen through the conversions
  of its three fields, or a value of another type; a conversion that fails gives its error text.
\<close>

datatype lua_value =
    LuaTable "string + int" "string + bool" "string + string"
  | LuaOther string

record ('f, 'k) lua_env =
  lua_eval_function :: "string \<Rightarrow> string + 'f"
  lua_create_registry_value :: "'f \<Rightarrow> string + 'k"
  lua_registry_value :: "'k \<Rightarrow> string + 'f"
  lua_call :: "'f \<Rightarrow> string \<Rightarrow> string \<Rightarrow> string option \<Rightarrow> string \<Rightarrow> string + lua_value list"

record lua_assertion_result =
  lua_assertion_id :: i32
  lua_assertion_result_of :: "string + unit"

definition lua_error :: "string \<Rightarrow> lua_assertion_result" where
  "lua_error e = \<lparr>lua_assertion_id = i32_max, lua_assertion_result_of = Inl e\<rparr>"

fun from_lua :: "lua_value \<Rightarrow> string + lua_assertion_result" where
  "from_lua (LuaTable i success err) =
     and_then i (\<lambda>i. and_then success (\<lambda>ok.
       if ok then Inr \<lparr>lua_assertion_id = i, lua_assertion_result_of = Inr ()\<rparr>
       else and_then err (\<lambda>e. Inr \<lparr>lua_assertion_id = i, lua_assertion_result_of = Inl e\<rparr>)))"
| "from_lua (LuaOther type_name) = Inl ''expected table''"

fun from_lua_vec :: "lua_value list \<Rightarrow> string + lua_assertion_result list" where
  "from_lua_vec [] = Inr []"
| "from_lua_vec (v # vs) = and_then (from_lua v) (\<lambda>r. and_then (from_lua_vec vs) (\<lambda>rs. Inr (r # rs)))"

definition load_lua_func :: "('f, 'k) lua_env \<Rightarrow> string \<Rightarrow> 'f option" where
  "load_lua_func L chunk = (case lua_eval_function L chunk of Inl _ \<Rightarrow> None | Inr f \<Rightarrow> Some f)"

definition load_lua_func_with_registry :: "('f, 'k) lua_env \<Rightarrow> string \<Rightarrow> 'k option" where
  "load_lua_func_with_registry L chunk =
     (case lua_eval_function L chunk of
        Inl _ \<Rightarrow> None
      | Inr f \<Rightarrow> (case lua_create_registry_value L f of Inl _ \<Rightarrow> None | Inr k \<Rightarrow> Some k))"

definition verify_lua_chunk :: "('f, 'k) lua_env \<Rightarrow> string \<Rightarrow> string + unit" where
  "verify_lua_chunk L chunk = (case lua_eval_function L chunk of Inr _ \<Rightarrow> Inr () | Inl e \<Rightarrow> Inl e)"

definition call_lua_func_from_registry ::
  "('f, 'k) lua_env \<Rightarrow> 'k \<Rightarrow> string \<Rightarrow> string \<Rightarrow> string option \<Rightarrow> string
     \<Rightarrow> lua_assertion_result list + unit" where
  "call_lua_func_from_registry L func_key meth url req_body resp_body =
     (case lua_registry_value L func_key of
        Inr f \<Rightarrow>
          (case and_then (lua_call L f meth url req_body resp_body) from_lua_vec of
             Inl e \<Rightarrow> Inl [lua_error e]
           | Inr r \<Rightarrow> if r = [] then Inr () else Inl r)
      | Inl e \<Rightarrow> Inl [lua_error e])"

end
