(* ===== verification/Response_Assert.thy ===== *)
theory Response_Assert
  imports Lua_Helper Json_Value
begin

text \<open>
  Assertions on responses (\<open>response-assert/src/lib.rs\<close>).

  Parameters: compiling a JSON path and selecting with it (\<open>path_env\<close>), and the Lua interpreter.
  The texts of the errors, which quote the assertion for the log, are replaced by the reason they
  state.
\<close>

section \<open>Assertions\<close>

record 'p path_env =
  jsonpath_compile :: "string \<Rightarrow> string + 'p"
  jsonpath_select :: "'p \<Rightarrow> json \<Rightarrow> string + json list"

record 'p json_path =
  jp_path :: string
  jp_inner :: 'p

definition json_path_try_from :: "'p path_env \<Rightarrow> string \<Rightarrow> string + 'p json_path" where
  "json_path_try_from P path =
     (case jsonpath_compile P path of
        Inl e \<Rightarrow> Inl (''Error creating json path: '' @ e)
      | Inr c \<Rightarrow> Inr \<lparr>jp_path = path, jp_inner = c\<rparr>)"

datatype 'p expectation =
    RequestPath u8
  | RequestQueryParam string
  | RequestBody "'p json_path"
  | ExpectConstant json

datatype 'p actual =
    FromJsonResponse "'p json_path"
  | ActualConstant json

record 'p assertion =
  as_id :: u32
  as_expectation :: "'p expectation"
  as_actual :: "'p actual"

record 'p response_assertion =
  simple_assertions :: "'p assertion list option"
  lua_assertion :: "string list option"

datatype assertion_reason =
    SegmentNumberTooBig
  | QueryParamNotFound
  | FailedToExtract string
  | NoRequestBody
  | ExpectationEmpty
  | Unequal "json list" "json list"
  | SelectError string
  | LuaMessage string

datatype assertion_error =
    InvalidExpectation u32 assertion_reason
  | FailedAssert u32 assertion_reason
  | InvalidActual u32 assertion_reason
  | LuaAssertionFailure u32 assertion_reason

fun assertion_error_id :: "assertion_error \<Rightarrow> u32" where
  "assertion_error_id (InvalidExpectation i _) = i"
| "assertion_error_id (FailedAssert i _) = i"
| "assertion_error_id (InvalidActual i _) = i"
| "assertion_error_id (LuaAssertionFailure i _) = i"

text \<open>\<open>IntoStaticStr\<close>: the name of the variant.\<close>

fun assertion_error_str :: "assertion_error \<Rightarrow> string" where
  "assertion_error_str (InvalidExpectation _ _) = ''InvalidExpectation''"
| "assertion_error_str (FailedAssert _ _) = ''FailedAssert''"
| "assertion_error_str (InvalidActual _ _) = ''InvalidActual''"
| "assertion_error_str (LuaAssertionFailure _ _) = ''LuaAssertionFailure''"

definition assertion_error_try_from :: "lua_assertion_result \<Rightarrow> unit + assertion_error" where
  "assertion_error_try_from v =
     (case lua_assertion_result_of v of
        Inr _ \<Rightarrow> Inl ()
      | Inl e \<Rightarrow> Inr (LuaAssertionFailure (word_of_int (lua_assertion_id v)) (LuaMessage e)))"

section \<open>Simple assertions\<close>

text \<open>The part of a request URI that assertions read.\<close>

record uri =
  uri_path :: string
  uri_query :: "string option"

text \<open>\<open>query.split_at(query.find('=').unwrap())\<close> and the text after the equals sign; \<open>None\<close> is the
  panic of \<open>unwrap\<close>.\<close>

fun split_pair :: "string \<Rightarrow> (string \<times> string) option" where
  "split_pair [] = None"
| "split_pair (x # xs) =
     (if x = CHR ''='' then Some ([], xs)
      else map_option (\<lambda>(a, b). (x # a, b)) (split_pair xs))"

fun query_map :: "string list \<Rightarrow> (string \<times> string) list \<Rightarrow> (string \<times> string) list option" where
  "query_map [] m = Some m"
| "query_map (q # qs) m =
     (case split_pair q of None \<Rightarrow> None | Some (k, v) \<Rightarrow> query_map qs (map_insert k v m))"

definition request_params :: "uri \<Rightarrow> (string \<times> string) list option" where
  "request_params url =
     (case uri_query url of None \<Rightarrow> Some [] | Some queries \<Rightarrow> query_map (split_on CHR ''&'' queries) [])"

text \<open>The locals of the loop: the errors so far, the split path and the query parameters once an
  assertion has needed them, and whether all assertions matched.\<close>

record assert_state =
  errors :: "assertion_error list"
  paths :: "string list option"
  params :: "(string \<times> string) list option"
  all_matched :: bool

definition push_error :: "assertion_error \<Rightarrow> assert_state \<Rightarrow> assert_state" where
  "push_error e s = s\<lparr>errors := errors s @ [e]\<rparr>"

fun eval_expectation ::
  "'p path_env \<Rightarrow> uri \<Rightarrow> json option \<Rightarrow> u32 \<Rightarrow> 'p expectation \<Rightarrow> assert_state
     \<Rightarrow> (json list option \<times> assert_state) option" where
  "eval_expectation P url body i (RequestPath segment) s =
     (let split = (case paths s of None \<Rightarrow> split_on CHR ''/'' (uri_path url) | Some p \<Rightarrow> p);
          s = s\<lparr>paths := Some split\<rparr>;
          pos = unat segment
      in if length split < pos + 1
         then Some (None, push_error (InvalidExpectation i SegmentNumberTooBig) s)
         else Some (Some [String (split ! pos)], s))"
| "eval_expectation P url body i (RequestQueryParam param_name) s =
     (case (case params s of None \<Rightarrow> request_params url | Some m \<Rightarrow> Some m) of
        None \<Rightarrow> None
      | Some m \<Rightarrow>
          (let s = s\<lparr>params := Some m\<rparr>
           in case map_of m param_name of
                Some t \<Rightarrow> Some (Some [String t], s)
              | None \<Rightarrow> Some (None, push_error (InvalidExpectation i QueryParamNotFound) s)))"
| "eval_expectation P url body i (ExpectConstant val) s = Some (Some [val], s)"
| "eval_expectation P url body i (RequestBody path) s =
     (case body of
        Some b \<Rightarrow>
          (case jsonpath_select P (jp_inner path) b of
             Inr vs \<Rightarrow> Some (Some vs, s)
           | Inl e \<Rightarrow> Some (None, push_error (InvalidExpectation i (FailedToExtract e)) s))
      | None \<Rightarrow> Some (None, push_error (InvalidExpectation i NoRequestBody) s))"

definition compare_actual ::
  "'p path_env \<Rightarrow> json \<Rightarrow> u32 \<Rightarrow> 'p actual \<Rightarrow> json list \<Rightarrow> assert_state \<Rightarrow> bool \<times> assert_state" where
  "compare_actual P response i act expect s =
     (if expect = [] then (False, push_error (InvalidExpectation i ExpectationEmpty) s)
      else case act of
          FromJsonResponse path \<Rightarrow>
            (case jsonpath_select P (jp_inner path) response of
               Inr vs \<Rightarrow> if vs = expect then (True, s) else (False, push_error (FailedAssert i (Unequal expect vs)) s)
             | Inl e \<Rightarrow> (False, push_error (InvalidActual i (SelectError e)) s))
        | ActualConstant val \<Rightarrow>
            if expect = [val] then (True, s) else (False, push_error (FailedAssert i (Unequal expect [val])) s))"

fun assert_loop ::
  "'p path_env \<Rightarrow> uri \<Rightarrow> json option \<Rightarrow> json \<Rightarrow> 'p assertion list \<Rightarrow> assert_state \<Rightarrow> assert_state option" where
  "assert_loop P url body response [] s = Some s"
| "assert_loop P url body response (a # as) s =
     (case eval_expectation P url body (as_id a) (as_expectation a) s of
        None \<Rightarrow> None
      | Some (expectation, s) \<Rightarrow>
          (let (matched, s) = (case expectation of
                 None \<Rightarrow> (False, s)
               | Some expect \<Rightarrow> compare_actual P response (as_id a) (as_actual a) expect s);
               s = (if matched then s else s\<lparr>all_matched := False\<rparr>)
           in assert_loop P url body response as s))"

definition simple_assert ::
  "'p path_env \<Rightarrow> 'p response_assertion \<Rightarrow> uri \<Rightarrow> json option \<Rightarrow> json \<Rightarrow> (assertion_error list + unit) option" where
  "simple_assert P assertions request_url request_body response =
     (let as = (case simple_assertions assertions of None \<Rightarrow> [] | Some as \<Rightarrow> as)
      in map_option (\<lambda>s. if all_matched s then Inr () else Inl (errors s))
           (assert_loop P request_url request_body response as
              \<lparr>errors = [], paths = None, params = None, all_matched = True\<rparr>))"

section \<open>Lua assertions\<close>

fun join_lines :: "string list \<Rightarrow> string" where
  "join_lines [] = []"
| "join_lines [l] = l"
| "join_lines (l # ls) = l @ [CHR 0x0A] @ join_lines ls"

definition lua_failures :: "lua_assertion_result list + unit \<Rightarrow> assertion_error list + unit" where
  "lua_failures r =
     (case r of
        Inr _ \<Rightarrow> Inr ()
      | Inl rs \<Rightarrow> Inl (concat (map (\<lambda>v. case assertion_error_try_from v of Inl _ \<Rightarrow> [] | Inr e \<Rightarrow> [e]) rs)))"

text \<open>The executor: the function it holds, and its answer to one message. A message carries the
  response body, the method, the URL, the request body and the headers, which are not used.\<close>

definition init_lua_executor :: "('f, 'k) lua_env \<Rightarrow> 'p response_assertion \<Rightarrow> 'k option" where
  "init_lua_executor L response_assert =
     (case lua_assertion response_assert of
        None \<Rightarrow> None
      | Some chunks \<Rightarrow>
          if chunks \<noteq> [] then load_lua_func_with_registry L (join_lines chunks) else None)"

definition lua_executor_answer ::
  "('f, 'k) lua_env \<Rightarrow> 'k \<Rightarrow> string \<Rightarrow> string \<Rightarrow> string \<Rightarrow> string option \<Rightarrow> assertion_error list + unit" where
  "lua_executor_answer L func_key resp_body meth url req_body =
     lua_failures (call_lua_func_from_registry L func_key meth url req_body resp_body)"

text \<open>The loop of the executor: one answer for each message, in order, until the channel is closed.\<close>

fun lua_executor_loop ::
  "('f, 'k) lua_env \<Rightarrow> 'k \<Rightarrow> (string \<times> string \<times> string \<times> string option) list \<Rightarrow> (assertion_error list + unit) list" where
  "lua_executor_loop L func_key [] = []"
| "lua_executor_loop L func_key ((resp_body, meth, url, req_body) # msgs) =
     lua_executor_answer L func_key resp_body meth url req_body # lua_executor_loop L func_key msgs"

section \<open>What an assertion means\<close>

fun expected :: "'p path_env \<Rightarrow> uri \<Rightarrow> json option \<Rightarrow> 'p expectation \<Rightarrow> json list option" where
  "expected P url body (RequestPath segment) = map_option (\<lambda>t. [String t]) (vec_get (split_on CHR ''/'' (uri_path url)) (unat segment))"
| "expected P url body (RequestQueryParam name) =
     (case request_params url of None \<Rightarrow> None | Some m \<Rightarrow> map_option (\<lambda>t. [String t]) (map_of m name))"
| "expected P url body (ExpectConstant val) = Some [val]"
| "expected P url body (RequestBody path) =
     (case body of None \<Rightarrow> None
      | Some b \<Rightarrow> (case jsonpath_select P (jp_inner path) b of Inl _ \<Rightarrow> None | Inr vs \<Rightarrow> Some vs))"

fun observed :: "'p path_env \<Rightarrow> json \<Rightarrow> 'p actual \<Rightarrow> json list option" where
  "observed P response (FromJsonResponse path) =
     (case jsonpath_select P (jp_inner path) response of Inl _ \<Rightarrow> None | Inr vs \<Rightarrow> Some vs)"
| "observed P response (ActualConstant val) = Some [val]"

definition assertion_holds :: "'p path_env \<Rightarrow> uri \<Rightarrow> json option \<Rightarrow> json \<Rightarrow> 'p assertion \<Rightarrow> bool" where
  "assertion_holds P url body response a \<longleftrightarrow>
     (case expected P url body (as_expectation a) of
        None \<Rightarrow> False
      | Some vs \<Rightarrow> vs \<noteq> [] \<and> observed P response (as_actual a) = Some vs)"

definition cache_ok :: "uri \<Rightarrow> assert_state \<Rightarrow> bool" where
  "cache_ok url s \<longleftrightarrow> paths s \<in> {None, Some (split_on CHR ''/'' (uri_path url))} \<and> params s \<in> {None, request_params url}"

definition error_ids :: "assert_state \<Rightarrow> u32 list" where
  "error_ids s = map assertion_error_id (errors s)"

lemma eval_expectation_expected:
  assumes "cache_ok url s" "\<And>name. e = RequestQueryParam name \<Longrightarrow> request_params url \<noteq> None"
  obtains s' where "eval_expectation P url body i e s = Some (expected P url body e, s')" "cache_ok url s'"
    "all_matched s' = all_matched s"
    "error_ids s' = error_ids s @ (if expected P url body e = None then [i] else [])"
proof (cases e)
  case (RequestPath segment)
  then show ?thesis
    using assms(1) by (intro that [of "snd (the (eval_expectation P url body i e s))"])
      (auto simp: cache_ok_def vec_get_def error_ids_def push_error_def Let_def split: option.splits)
next
  case (RequestQueryParam name)
  with assms(2) obtain m where "request_params url = Some m" by auto
  with RequestQueryParam show ?thesis
    using assms(1) by (intro that [of "snd (the (eval_expectation P url body i e s))"])
      (auto simp: cache_ok_def error_ids_def push_error_def Let_def split: option.splits)
next
  case (RequestBody path)
  then show ?thesis
    using assms(1) by (intro that [of "snd (the (eval_expectation P url body i e s))"])
      (auto simp: cache_ok_def error_ids_def push_error_def split: option.splits sum.splits)
next
  case (ExpectConstant val)
  then show ?thesis using assms(1) by (intro that [of s]) (auto simp: error_ids_def)
qed

lemma compare_actual_observed:
  obtains s' where "compare_actual P response i act vs s = (vs \<noteq> [] \<and> observed P response act = Some vs, s')"
    "paths s' = paths s" "params s' = params s" "all_matched s' = all_matched s"
    "error_ids s' = error_ids s @ (if vs \<noteq> [] \<and> observed P response act = Some vs then [] else [i])"
  by (rule that [of "snd (compare_actual P response i act vs s)"])
    (auto simp: compare_actual_def error_ids_def push_error_def split: actual.splits sum.splits)

lemma assert_loop_spec:
  assumes "cache_ok url s" "\<And>a name. a \<in> set as \<Longrightarrow> as_expectation a = RequestQueryParam name \<Longrightarrow> request_params url \<noteq> None"
  shows "\<exists>s'. assert_loop P url body response as s = Some s'
           \<and> all_matched s' = (all_matched s \<and> (\<forall>a \<in> set as. assertion_holds P url body response a))
           \<and> error_ids s' = error_ids s @ map as_id (filter (\<lambda>a. \<not> assertion_holds P url body response a) as)"
  using assms
proof (induction as arbitrary: s)
  case (Cons a as)
  obtain s1 where s1: "eval_expectation P url body (as_id a) (as_expectation a) s = Some (expected P url body (as_expectation a), s1)"
      "cache_ok url s1" "all_matched s1 = all_matched s"
      "error_ids s1 = error_ids s @ (if expected P url body (as_expectation a) = None then [as_id a] else [])"
    using eval_expectation_expected [OF Cons.prems(1), of "as_expectation a"] Cons.prems(2) by (metis list.set_intros(1))
  show ?case
  proof (cases "expected P url body (as_expectation a)")
    case None
    let ?s = "s1\<lparr>all_matched := False\<rparr>"
    have "cache_ok url ?s" using s1(2) by (simp add: cache_ok_def)
    from Cons.IH [OF this] Cons.prems(2) s1 None show ?thesis
      by (auto simp: assertion_holds_def error_ids_def)
  next
    case (Some vs)
    obtain s2 where s2: "compare_actual P response (as_id a) (as_actual a) vs s1 = (assertion_holds P url body response a, s2)"
        "paths s2 = paths s1" "params s2 = params s1" "all_matched s2 = all_matched s1"
        "error_ids s2 = error_ids s1 @ (if assertion_holds P url body response a then [] else [as_id a])"
      using compare_actual_observed [of P response "as_id a" "as_actual a" vs s1] Some by (auto simp: assertion_holds_def)
    let ?s = "if assertion_holds P url body response a then s2 else s2\<lparr>all_matched := False\<rparr>"
    have "cache_ok url ?s" using s1(2) s2 by (simp add: cache_ok_def)
    from Cons.IH [OF this] Cons.prems(2) s1 s2 Some show ?thesis
      by (auto simp: error_ids_def split: if_splits)
  qed
qed simp

section \<open>Properties\<close>


definition key_paths :: "string path_env" where
  "key_paths = \<lparr>jsonpath_compile = Inr,
     jsonpath_select = (\<lambda>k j. case json_get k j of None \<Rightarrow> Inr [] | Some v \<Rightarrow> Inr [v])\<rparr>"

definition demo_assertions :: "string response_assertion" where
  "demo_assertions = \<lparr>simple_assertions = Some
     [\<lparr>as_id = 1, as_expectation = RequestPath 2, as_actual = FromJsonResponse \<lparr>jp_path = ''id'', jp_inner = ''id''\<rparr>\<rparr>,
      \<lparr>as_id = 2, as_expectation = RequestQueryParam ''q'', as_actual = ActualConstant (String ''x'')\<rparr>],
     lua_assertion = None\<rparr>"

definition demo_uri :: uri where
  "demo_uri = \<lparr>uri_path = ''/users/7'', uri_query = Some ''q=y''\<rparr>"


text \<open>An assertion on a query parameter panics when a part of the query has no equals sign, whatever
  parameter it asks for.\<close>
theorem simple_assert_panics_on_flag_parameter:
  assumes "CHR ''='' \<notin> set q" "CHR ''&'' \<notin> set q"
  shows "simple_assert P \<lparr>simple_assertions = Some [\<lparr>as_id = i, as_expectation = RequestQueryParam name, as_actual = act\<rparr>],
             lua_assertion = l\<rparr> \<lparr>uri_path = p, uri_query = Some q\<rparr> body response = None"
proof -
  have "split_pair q = None" using assms(1) by (induction q) auto
  then have "request_params \<lparr>uri_path = p, uri_query = Some q\<rparr> = None"
    using assms(2) by (simp add: request_params_def split_on_none)
  then show ?thesis by (simp add: simple_assert_def)
qed

theorem simple_assert_panics_on_flag_parameter_witness:
  "simple_assert key_paths \<lparr>simple_assertions = Some [\<lparr>as_id = 3, as_expectation = RequestQueryParam ''q'',
       as_actual = ActualConstant Null\<rparr>], lua_assertion = None\<rparr>
     \<lparr>uri_path = ''/'', uri_query = Some ''verbose''\<rparr> None Null = None"
  by (rule simple_assert_panics_on_flag_parameter) simp_all



end
