(* ===== verification/Url_Params.thy ===== *)
theory Url_Params
  imports Json_Value
begin

text \<open>
  URL parameters of generated requests (\<open>overload-http/src/request_specs.rs\<close>): finding the
  placeholders \<open>{name}\<close> of a URL, keeping them in a \<open>BinaryHeap\<close>, and replacing them by
  generated values at the recorded positions. The heap is the vector of the standard library with
  its \<open>push\<close>; \<open>iter\<close> visits the vector from the front. A string is its bytes.

  The lemmas show that replacing from right to left is a textual substitution, which is what the
  heap's order gives for one or two placeholders and fails to give for three.
\<close>

section \<open>Model\<close>

record url_param =
  up_name :: string
  up_start :: usize
  up_end :: usize

text \<open>\<open>BinaryHeap::push\<close>: the new element is moved up from the end while it is greater than its
  parent; elements are compared by their start.\<close>

function sift_up :: "url_param list \<Rightarrow> nat \<Rightarrow> url_param list" where
  "sift_up xs pos =
     (if pos = 0 then xs
      else let parent = (pos - 1) div 2
        in if up_start (xs ! pos) \<le> up_start (xs ! parent) then xs
           else sift_up (xs[pos := xs ! parent, parent := xs ! pos]) parent)"
  by pat_completeness auto
termination by (relation "measure snd") auto

declare sift_up.simps [simp del]

definition heap_push :: "url_param list \<Rightarrow> url_param \<Rightarrow> url_param list" where
  "heap_push xs x = sift_up (xs @ [x]) (length xs)"

definition param_char :: "char \<Rightarrow> bool" where
  "param_char c \<longleftrightarrow> (CHR ''a'' \<le> c \<and> c \<le> CHR ''z'') \<or> (CHR ''A'' \<le> c \<and> c \<le> CHR ''Z'')
     \<or> (CHR ''0'' \<le> c \<and> c \<le> CHR ''9'') \<or> c = CHR ''_'' \<or> c = CHR ''-''"

text \<open>The matches of the pattern: an opening brace, at least one name character, a closing brace.\<close>

function find_matches :: "nat \<Rightarrow> string \<Rightarrow> url_param list" where
  "find_matches i [] = []"
| "find_matches i (c # cs) =
     (let run = takeWhile param_char cs; rest = dropWhile param_char cs
      in if c = CHR ''{'' \<and> run \<noteq> [] \<and> rest \<noteq> [] \<and> hd rest = CHR ''}''
         then \<lparr>up_name = run, up_start = i, up_end = i + length run + 2\<rparr>
                # find_matches (i + length run + 2) (tl rest)
         else find_matches (i + 1) cs)"
  by pat_completeness auto
termination
proof (relation "measure (\<lambda>(i, cs). length cs)", goal_cases)
  case (2 i c cs run rest)
  then show ?case using length_dropWhile_le [of param_char cs] by (cases rest) auto
qed auto

definition find_param_positions :: "string \<Rightarrow> url_param list" where
  "find_param_positions url = foldl heap_push [] (find_matches 0 url)"

definition replace_range :: "usize \<Rightarrow> usize \<Rightarrow> string \<Rightarrow> string \<Rightarrow> string option" where
  "replace_range start end val url =
     (if start \<le> end \<and> end \<le> length url then Some (take start url @ val @ drop end url) else None)"

definition param_text :: "json \<Rightarrow> string" where
  "param_text p_val =
     (case json_as_str p_val of Some s \<Rightarrow> s
      | None \<Rightarrow> (case json_as_i64 p_val of None \<Rightarrow> ''unknown'' | Some t \<Rightarrow> show_int t))"

fun substitute_param_with_data :: "string \<Rightarrow> url_param list \<Rightarrow> json \<Rightarrow> string option" where
  "substitute_param_with_data url [] data = Some url"
| "substitute_param_with_data url (p # ps) data =
     (case json_get (up_name p) data of
        None \<Rightarrow> substitute_param_with_data url ps data
      | Some p_val \<Rightarrow>
          (case replace_range (up_start p) (up_end p) (param_text p_val) url of
             None \<Rightarrow> None
           | Some url \<Rightarrow> substitute_param_with_data url ps data))"

section \<open>Substitution in the text\<close>

text \<open>What the replacement means: every placeholder with a value is replaced by its text.\<close>

function expand_params :: "json \<Rightarrow> string \<Rightarrow> string" where
  "expand_params data [] = []"
| "expand_params data (c # cs) =
     (let run = takeWhile param_char cs; rest = dropWhile param_char cs
      in if c = CHR ''{'' \<and> run \<noteq> [] \<and> rest \<noteq> [] \<and> hd rest = CHR ''}''
         then (case json_get run data of None \<Rightarrow> c # run @ ''}'' | Some v \<Rightarrow> param_text v)
                @ expand_params data (tl rest)
         else c # expand_params data cs)"
  by pat_completeness auto
termination
proof (relation "measure (\<lambda>(data, cs). length cs)", goal_cases)
  case (2 data c cs run rest)
  then show ?case using length_dropWhile_le [of param_char cs] by (cases rest) auto
qed auto

lemma substitute_append:
  "substitute_param_with_data url (ps @ qs) data =
     (case substitute_param_with_data url ps data of None \<Rightarrow> None
      | Some url \<Rightarrow> substitute_param_with_data url qs data)"
  by (induction ps arbitrary: url) (auto split: option.splits)

lemma substitute_right_to_left:
  "substitute_param_with_data (pre @ url) (rev (find_matches (length pre) url)) data
     = Some (pre @ expand_params data url)"
proof (induction "length pre" url arbitrary: pre rule: find_matches.induct)
  case (2 c cs)
  define run where "run = takeWhile param_char cs"
  define rest where "rest = dropWhile param_char cs"
  have cs: "cs = run @ rest" by (simp add: run_def rest_def)
  show ?case
  proof (cases "c = CHR ''{'' \<and> run \<noteq> [] \<and> rest \<noteq> [] \<and> hd rest = CHR ''}''")
    case True
    then obtain tl where rest: "rest = CHR ''}'' # tl" by (cases rest) auto
    let ?p = "\<lparr>up_name = run, up_start = length pre, up_end = length pre + length run + 2\<rparr>"
    let ?pre = "pre @ c # run @ ''}''"
    have m: "find_matches (length pre) (c # cs) = ?p # find_matches (length ?pre) tl"
      using True rest by (simp add: run_def [symmetric] rest_def [symmetric] Let_def)
    have e: "expand_params data (c # cs)
        = (case json_get run data of None \<Rightarrow> c # run @ ''}'' | Some v \<Rightarrow> param_text v) @ expand_params data tl"
      using True rest by (simp add: run_def [symmetric] rest_def [symmetric] Let_def split: option.split)
    have "substitute_param_with_data (?pre @ tl) (rev (find_matches (length ?pre) tl)) data
        = Some (?pre @ expand_params data tl)"
      using 2(1) [of run rest ?pre] True rest by (simp add: run_def rest_def)
    moreover have u: "pre @ c # cs = ?pre @ tl" using cs rest by simp
    ultimately show ?thesis
      unfolding m e u
      by (auto simp: substitute_append replace_range_def split: option.splits)
  next
    case False
    have "substitute_param_with_data ((pre @ [c]) @ cs) (rev (find_matches (length (pre @ [c])) cs)) data
        = Some ((pre @ [c]) @ expand_params data cs)"
      using 2(2) [of run rest "pre @ [c]"] False by (simp add: run_def rest_def)
    then show ?thesis using False
      by (auto simp: run_def [symmetric] rest_def [symmetric] Let_def)
  qed
qed simp

lemma find_matches_start: "p \<in> set (find_matches i url) \<Longrightarrow> i \<le> up_start p"
  by (induction i url rule: find_matches.induct) (fastforce simp: Let_def split: if_splits)+

lemma find_matches_increasing: "sorted_wrt (\<lambda>p q. up_start p < up_start q) (find_matches i url)"
proof (induction i url rule: find_matches.induct)
  case (2 i c cs)
  then show ?case using find_matches_start by (fastforce simp: Let_def)
qed simp

lemma heap_of_two:
  "up_start p < up_start q \<Longrightarrow> heap_push (heap_push [] p) q = [q, p]"
  by (simp add: heap_push_def sift_up.simps)

lemma find_param_positions_two:
  assumes "length (find_matches 0 url) \<le> 2"
  shows "find_param_positions url = rev (find_matches 0 url)"
proof -
  consider "find_matches 0 url = []" | p where "find_matches 0 url = [p]"
    | p q where "find_matches 0 url = [p, q]"
    using assms by (cases "find_matches 0 url" rule: remdups_adj.cases) auto
  then show ?thesis
  proof cases
    case 3
    then have "up_start p < up_start q" using find_matches_increasing [of 0 url] by simp
    with 3 show ?thesis by (simp add: find_param_positions_def heap_of_two)
  qed (simp_all add: find_param_positions_def heap_push_def sift_up.simps)
qed

section \<open>Properties\<close>

text \<open>C34: with at most two placeholders in the URL, replacing them at the recorded positions is the
  textual substitution of the placeholders, and does not panic, whatever the lengths of the values.\<close>
theorem substitute_params_exact:
  assumes "length (find_matches 0 url) \<le> 2"
  shows "substitute_param_with_data url (find_param_positions url) data = Some (expand_params data url)"
  using substitute_right_to_left [of "[]" url data] find_param_positions_two [OF assms] by simp

theorem substitute_params_exact_witness:
  "substitute_param_with_data ''/u/{id}/p/{page}'' (find_param_positions ''/u/{id}/p/{page}'')
     (Object [(''id'', Number (Integral 42)), (''page'', String ''last'')]) = Some ''/u/42/p/last''"
proof -
  have "length (find_matches 0 ''/u/{id}/p/{page}'') \<le> 2" by code_simp
  moreover have "expand_params (Object [(''id'', Number (Integral 42)), (''page'', String ''last'')]) ''/u/{id}/p/{page}''
      = ''/u/42/p/last''" by code_simp
  ultimately show ?thesis using substitute_params_exact by simp
qed

text \<open>With three placeholders the heap yields the last, the first and then the middle one, whose
  position is stale once the first has been replaced by a text of another length: the URL is
  corrupted, or the replacement is out of range and panics.\<close>
theorem substitute_three_params_wrong:
  "(let url = ''/{a}/{b}/{c}'';
        data = Object [(''a'', String ''long''), (''b'', String ''x''), (''c'', String ''y'')]
    in expand_params data url = ''/long/x/y''
       \<and> substitute_param_with_data url (find_param_positions url) data = Some ''/longx}/y'')
   \<and> (let url = ''/{first}/{b}/{c}'';
         data = Object [(''first'', String ''''), (''b'', String ''x''), (''c'', String ''y'')]
     in expand_params data url = ''//x/y''
       \<and> substitute_param_with_data url (find_param_positions url) data = None)"
  by code_simp

end
