(* ===== verification/Http_Types.thy ===== *)
theory Http_Types
  imports Rate_Spec Connection_Pool Template Response_Assert Url_Params
begin

text \<open>
  The requests of the HTTP interface (\<open>overload-http/src/lib.rs\<close> and
  \<open>overload-http/src/request_specs.rs\<close>): the job description with its rate, connection and
  request specifications, the conversions that run when one is deserialised, the query
  parameters of the status endpoint and the error value of the interface.

  The derived serialisers are modelled by what they keep: \<open>receive_request\<close> is a request that is
  serialised on one node and deserialised on another, with every skipped field set to its default
  and every conversion attribute applied. \<open>None\<close> is a panic.

  Parameters: the HTTP method and header parsers, the random generator and regular expression
  library of \<open>Data_Gen\<close>, the template engine of \<open>Template\<close>, the JSONPath library.
\<close>

section \<open>Environment\<close>

definition path_join :: "string \<Rightarrow> string \<Rightarrow> string" where
  "path_join p q =
     (if q \<noteq> [] \<and> hd q = CHR ''/'' then q
      else if p = [] \<or> last p = CHR ''/'' then p @ q else p @ CHR ''/'' # q)"

definition data_dir_path :: "string option \<Rightarrow> string" where
  "data_dir_path env_var = (case env_var of Some e \<Rightarrow> path_join ''/'' e | None \<Rightarrow> ''/tmp'')"

definition http_port :: "string option \<Rightarrow> nat" where
  "http_port env_var =
     (case env_var of None \<Rightarrow> 3030
      | Some port \<Rightarrow> (case parse_unsigned 16 port of None \<Rightarrow> 3030 | Some n \<Rightarrow> n))"

text \<open>\<open>Path::set_extension\<close>: the file name is the last component, trailing separators and
  \<open>.\<close> components not counted; the root and \<open>..\<close> have no file name. Paths here are absolute.\<close>

fun trim_rev :: "string \<Rightarrow> string" where
  "trim_rev (c # d # cs) =
     (if c = CHR ''/'' then trim_rev (d # cs)
      else if c = CHR ''.'' \<and> d = CHR ''/'' then trim_rev cs
      else c # d # cs)"
| "trim_rev [c] = (if c = CHR ''/'' then [] else [c])"
| "trim_rev [] = []"

definition stem_rev :: "string \<Rightarrow> string" where
  "stem_rev f =
     (case dropWhile (\<lambda>c. c \<noteq> CHR ''.'') f of
        [] \<Rightarrow> f | _ # stem \<Rightarrow> if stem = [] then f else stem)"

definition set_extension :: "string \<Rightarrow> string \<Rightarrow> string" where
  "set_extension ext p =
     (let r = trim_rev (rev p);
          f = takeWhile (\<lambda>c. c \<noteq> CHR ''/'') r;
          dir = dropWhile (\<lambda>c. c \<noteq> CHR ''/'') r
      in if f = [] \<or> f = ''..'' then p else rev dir @ rev (stem_rev f) @ CHR ''.'' # ext)"

definition file_name_deserializer :: "string option \<Rightarrow> string \<Rightarrow> string" where
  "file_name_deserializer env_var file_name =
     set_extension ''sqlite'' (path_join (data_dir_path env_var) file_name)"

section \<open>Requests to the target\<close>

datatype scheme = HTTP

record target =
  t_host :: string
  t_port :: u16
  t_protocol :: scheme

record http_req =
  hr_id :: string
  hr_method :: string
  hr_url :: string
  hr_body :: "string option"
  hr_headers :: "(string \<times> string) list"

record sqlite_row =
  row_rowid :: i64
  row_method :: string
  row_url :: string
  row_body :: "string option"
  row_headers :: string

definition http_req_from_row ::
  "(string \<Rightarrow> string option) \<Rightarrow> (string \<Rightarrow> (string \<times> string) list option) \<Rightarrow> sqlite_row \<Rightarrow> http_req option" where
  "http_req_from_row method_from headers_from row =
     (case method_from (row_method row) of
        None \<Rightarrow> None
      | Some m \<Rightarrow> Some \<lparr>hr_id = show_int (row_rowid row), hr_method = m, hr_url = row_url row,
                        hr_body = row_body row,
                        hr_headers = (case headers_from (row_headers row) of None \<Rightarrow> [] | Some h \<Rightarrow> h)\<rparr>)"

definition connection_keep_alive_default :: connection_keep_alive where
  "connection_keep_alive_default = \<lparr>ttl = - 1, max_request_per_connection = - 1\<rparr>"

datatype load_generation_mode = Batch usize | Immediate

section \<open>Request specifications\<close>

record request_list =
  rl_data :: "http_req list"

definition default_usize_max :: usize where
  "default_usize_max = 2147483647"

text \<open>\<open>'db\<close> is an open SQLite connection.\<close>

record 'db request_file =
  rf_file_name :: string
  rf_inner :: "'db option"
  rf_size :: usize

definition request_file_new :: "string \<Rightarrow> 'db request_file" where
  "request_file_new file_name = \<lparr>rf_file_name = file_name, rf_inner = None, rf_size = default_usize_max\<rparr>"

definition request_file_clone :: "'db request_file \<Rightarrow> 'db request_file" where
  "request_file_clone f = request_file_new (rf_file_name f)"

record 'db split_request_file =
  sf_file_name :: string
  sf_inner :: "'db option"
  sf_size :: usize
  range_start_inclusive :: usize
  range_end_inclusive :: usize
  next_read_cursor :: usize

definition clone_with_new_range :: "'db split_request_file \<Rightarrow> usize \<times> usize \<Rightarrow> 'db split_request_file" where
  "clone_with_new_range f r =
     \<lparr>sf_file_name = sf_file_name f, sf_inner = None, sf_size = sf_size f,
      range_start_inclusive = fst r, range_end_inclusive = snd r, next_read_cursor = fst r\<rparr>"

definition split_request_file_clone :: "'db split_request_file \<Rightarrow> 'db split_request_file" where
  "split_request_file_clone f = f\<lparr>sf_inner := None\<rparr>"

record 'h random_data_request =
  rd_init :: bool
  rd_method :: string
  rd_url :: string
  rd_url_param_pos :: "url_param list option"
  rd_headers :: "(string \<times> string) list"
  rd_body_schema :: "'h data_schema option"
  rd_uri_param_schema :: "'h data_schema option"

record 'a json_template =
  jt_method :: string
  jt_url :: json
  jt_headers :: "(string \<times> string) list"
  jt_body :: json
  jt_url_template :: "(string \<times> 'a) list"
  jt_body_template :: "(string \<times> 'a) list"

record json_template_request =
  jr_method :: string
  jr_url :: json
  jr_headers :: "(string \<times> string) list"
  jr_body :: json

definition validate_url_str :: "string \<Rightarrow> string + unit" where
  "validate_url_str url =
     (if url = [] \<or> hd url \<noteq> CHR ''/'' then Inl ''Invalid url - requires string starting with /'' else Inr ())"

definition validate_url_json_val :: "('a, 'g) template_env \<Rightarrow> json \<Rightarrow> string + unit" where
  "validate_url_json_val T url =
     (case json_as_str url of
        None \<Rightarrow> Inl ''Invalid url - requires string starting with /''
      | Some url \<Rightarrow> if tpl_captures T url \<noteq> None then Inr () else validate_url_str url)"

definition json_template_try_from ::
  "('a, 'g) template_env \<Rightarrow> json_template_request \<Rightarrow> (string + 'a json_template) option" where
  "json_template_try_from T v =
     (case validate_url_json_val T (jr_url v) of
        Inl e \<Rightarrow> Some (Inl e)
      | Inr _ \<Rightarrow>
          do { ut \<leftarrow> parse_templates T (jr_url v);
               bt \<leftarrow> parse_templates T (jr_body v);
               Some (Inr \<lparr>jt_method = jr_method v, jt_url = jr_url v, jt_headers = jr_headers v,
                          jt_body = jr_body v, jt_url_template = ut, jt_body_template = bt\<rparr>) })"

definition json_template_into :: "'a json_template \<Rightarrow> json_template_request" where
  "json_template_into t =
     \<lparr>jr_method = jt_method t, jr_url = jt_url t, jr_headers = jt_headers t, jr_body = jt_body t\<rparr>"

datatype ('h, 'a, 'db) request_spec_enum =
    RequestList request_list
  | RequestFile "'db request_file"
  | SplitRequestFile "'db split_request_file"
  | RandomDataRequest "'h random_data_request"
  | JsonTemplateRequest "'a json_template"

datatype rate_spec_enum =
    ConstantRate constant_rate
  | Linear linear
  | ArraySpec array_spec
  | Steps steps

datatype concurrent_connection_rate_spec =
    ConnConstantRate constant_rate
  | ConnLinear linear
  | ConnArraySpec array_spec
  | ConnSteps steps
  | ConnElastic elastic_spec

section \<open>The job description\<close>

record ('h, 'a, 'p, 'db) request =
  rq_name :: "string option"
  rq_duration :: u32
  rq_target :: target
  rq_req :: "('h, 'a, 'db) request_spec_enum"
  rq_qps :: rate_spec_enum
  rq_concurrent_connection :: concurrent_connection_rate_spec
  rq_connection_keep_alive :: connection_keep_alive
  rq_histogram_buckets :: "f64 list"
  rq_response_assertion :: "'p response_assertion option"
  rq_generation_mode :: load_generation_mode

text \<open>The shadow type has the same fields; a field with a default is \<open>None\<close> when it is absent from
  the input.\<close>

record ('h, 'a, 'p, 'db) request_shadow =
  rs_name :: "string option"
  rs_duration :: u32
  rs_target :: target
  rs_req :: "('h, 'a, 'db) request_spec_enum"
  rs_qps :: rate_spec_enum
  rs_concurrent_connection :: "concurrent_connection_rate_spec option"
  rs_connection_keep_alive :: "connection_keep_alive option"
  rs_histogram_buckets :: "f64 list option"
  rs_response_assertion :: "'p response_assertion option"
  rs_generation_mode :: "load_generation_mode option"

definition default_generation_mode :: load_generation_mode where
  "default_generation_mode = Immediate"

definition default_concurrent_connection :: concurrent_connection_rate_spec where
  "default_concurrent_connection = ConnElastic elastic_default"

definition or_default :: "'x \<Rightarrow> 'x option \<Rightarrow> 'x" where
  "or_default d x = (case x of None \<Rightarrow> d | Some v \<Rightarrow> v)"

definition ascii_lower :: "char \<Rightarrow> char" where
  "ascii_lower c = (if CHR ''A'' \<le> c \<and> c \<le> CHR ''Z'' then char_of (of_char c + 32 :: nat) else c)"

definition is_host_header :: "string \<Rightarrow> bool" where
  "is_host_header x \<longleftrightarrow> map ascii_lower x = ''host''"

definition validate_and_update_host_header ::
  "target \<Rightarrow> (string \<times> string) list \<Rightarrow> (string \<times> string) list" where
  "validate_and_update_host_header t headers =
     (let host_exists = list_ex (\<lambda>h. is_host_header (fst h)) headers
      in if \<not> host_exists then map_insert ''host'' (t_host t) headers else headers)"

fun update_spec_headers ::
  "target \<Rightarrow> ('h, 'a, 'db) request_spec_enum \<Rightarrow> ('h, 'a, 'db) request_spec_enum" where
  "update_spec_headers t (JsonTemplateRequest req) =
     JsonTemplateRequest (req\<lparr>jt_headers := validate_and_update_host_header t (jt_headers req)\<rparr>)"
| "update_spec_headers t (RandomDataRequest req) =
     RandomDataRequest (req\<lparr>rd_headers := validate_and_update_host_header t (rd_headers req)\<rparr>)"
| "update_spec_headers t s = s"

definition request_from :: "('h, 'a, 'p, 'db) request_shadow \<Rightarrow> ('h, 'a, 'p, 'db) request" where
  "request_from value =
     \<lparr>rq_name = rs_name value, rq_duration = rs_duration value, rq_target = rs_target value,
      rq_req = update_spec_headers (rs_target value) (rs_req value), rq_qps = rs_qps value,
      rq_concurrent_connection = or_default default_concurrent_connection (rs_concurrent_connection value),
      rq_connection_keep_alive = or_default connection_keep_alive_default (rs_connection_keep_alive value),
      rq_histogram_buckets = or_default default_histogram_bucket (rs_histogram_buckets value),
      rq_response_assertion = rs_response_assertion value,
      rq_generation_mode = or_default default_generation_mode (rs_generation_mode value)\<rparr>"

record ('h, 'a, 'p, 'db) multi_request =
  mr_name :: "string option"
  mr_requests :: "('h, 'a, 'p, 'db) request list"

section \<open>Sending a request to another node\<close>

datatype receive_error = RateInvalid rate_error | SchemaInvalid schema_error | UrlInvalid string

definition map_error :: "('e \<Rightarrow> 'f) \<Rightarrow> 'e + 'x \<Rightarrow> 'f + 'x" where
  "map_error f r = map_sum f id r"

definition receive_steps :: "steps \<Rightarrow> receive_error + steps" where
  "receive_steps s =
     map_error RateInvalid (steps_deserialize
       (map (\<lambda>x. \<lparr>sh_start = st_start x, sh_end = st_end x, sh_rate = st_rate x\<rparr>) (steps_of s)))"

fun receive_rate :: "rate_spec_enum \<Rightarrow> receive_error + rate_spec_enum" where
  "receive_rate (Steps s) = and_then (receive_steps s) (\<lambda>s. Inr (Steps s))"
| "receive_rate r = Inr r"

fun receive_connection_rate ::
  "concurrent_connection_rate_spec \<Rightarrow> receive_error + concurrent_connection_rate_spec" where
  "receive_connection_rate (ConnSteps s) = and_then (receive_steps s) (\<lambda>s. Inr (ConnSteps s))"
| "receive_connection_rate r = Inr r"

fun receive_schema ::
  "('h, 'g) gen_env \<Rightarrow> 'h data_schema option \<Rightarrow> (receive_error + 'h data_schema option) option" where
  "receive_schema E None = Some (Inr None)"
| "receive_schema E (Some s) =
     map_option (\<lambda>v. and_then (map_error SchemaInvalid (data_schema_from_value E v)) (\<lambda>s. Inr (Some s)))
       (data_value_from_schema s)"

text \<open>A skipped field has its default on the receiving side: no open file, the default size, no
  recorded URL parameters.\<close>

fun receive_spec ::
  "('h, 'g) gen_env \<Rightarrow> ('a, 'k) template_env \<Rightarrow> string option \<Rightarrow> ('h, 'a, 'db) request_spec_enum
     \<Rightarrow> (receive_error + ('h, 'a, 'db) request_spec_enum) option" where
  "receive_spec E T env_var (RequestList l) = Some (Inr (RequestList l))"
| "receive_spec E T env_var (RequestFile f) =
     Some (Inr (RequestFile (request_file_new (file_name_deserializer env_var (rf_file_name f)))))"
| "receive_spec E T env_var (SplitRequestFile f) =
     Some (Inr (SplitRequestFile (f\<lparr>sf_file_name := file_name_deserializer env_var (sf_file_name f),
                                    sf_inner := None, sf_size := default_usize_max\<rparr>)))"
| "receive_spec E T env_var (RandomDataRequest r) =
     do { b \<leftarrow> receive_schema E (rd_body_schema r);
          u \<leftarrow> receive_schema E (rd_uri_param_schema r);
          Some (and_then b (\<lambda>b. and_then u (\<lambda>u. Inr (RandomDataRequest
            (r\<lparr>rd_init := False, rd_url_param_pos := None, rd_body_schema := b, rd_uri_param_schema := u\<rparr>))))) }"
| "receive_spec E T env_var (JsonTemplateRequest t) =
     map_option (\<lambda>r. and_then (map_error UrlInvalid r) (\<lambda>t. Inr (JsonTemplateRequest t)))
       (json_template_try_from T (json_template_into t))"

definition receive_request ::
  "('h, 'g) gen_env \<Rightarrow> ('a, 'k) template_env \<Rightarrow> string option \<Rightarrow> ('h, 'a, 'p, 'db) request
     \<Rightarrow> (receive_error + ('h, 'a, 'p, 'db) request) option" where
  "receive_request E T env_var r =
     do { spec \<leftarrow> receive_spec E T env_var (rq_req r);
          Some (and_then spec (\<lambda>spec.
                and_then (receive_rate (rq_qps r)) (\<lambda>qps.
                and_then (receive_connection_rate (rq_concurrent_connection r)) (\<lambda>conns.
                Inr (request_from
                  \<lparr>rs_name = rq_name r, rs_duration = rq_duration r, rs_target = rq_target r, rs_req = spec,
                   rs_qps = qps, rs_concurrent_connection = Some conns,
                   rs_connection_keep_alive = Some (rq_connection_keep_alive r),
                   rs_histogram_buckets = Some (rq_histogram_buckets r),
                   rs_response_assertion = rq_response_assertion r,
                   rs_generation_mode = Some (rq_generation_mode r)\<rparr>))))) }"

section \<open>Errors and answers of the interface\<close>

record generic_error =
  error_code :: nat
  ge_message :: string
  ge_data :: "(string \<times> string) list"

definition generic_error_default :: generic_error where
  "generic_error_default = \<lparr>error_code = 65535, ge_message = [], ge_data = []\<rparr>"

definition generic_error_new :: "string \<Rightarrow> nat \<Rightarrow> generic_error" where
  "generic_error_new msg code = generic_error_default\<lparr>error_code := code, ge_message := msg\<rparr>"

definition internal_500 :: "string \<Rightarrow> generic_error" where
  "internal_500 msg = generic_error_default\<lparr>error_code := 500, ge_message := msg\<rparr>"

definition error_unknown :: generic_error where
  "error_unknown = internal_500 ''Unknown error''"

definition from_error :: "nat \<Rightarrow> string \<Rightarrow> generic_error" where
  "from_error code err_text = generic_error_new err_text code"

definition generic_error_from_http :: "string \<Rightarrow> generic_error" where
  "generic_error_from_http err_text = generic_error_default\<lparr>error_code := 400, ge_message := err_text\<rparr>"

definition generic_error_from :: "string \<Rightarrow> generic_error" where
  "generic_error_from err_text = generic_error_default\<lparr>error_code := 500, ge_message := err_text\<rparr>"

definition generic_error_fmt :: "generic_error \<Rightarrow> string" where
  "generic_error_fmt e =
     ''('' @ show_nat (error_code e) @ '', '' @ ge_message e @ '', '' @ show_nat (length (ge_data e)) @ '')''"

record test_job_response =
  tr_job_id :: string
  tr_message :: string

datatype job_status_query_params = JobId string | PagerOptions usize usize

fun job_status_query_params_fmt :: "job_status_query_params \<Rightarrow> string" where
  "job_status_query_params_fmt (JobId job_id) = ''job_id='' @ job_id"
| "job_status_query_params_fmt (PagerOptions offset limit) =
     ''offset='' @ show_nat offset @ ''&limit='' @ show_nat limit"

text \<open>The text of a \<open>ParseIntError\<close>.\<close>

fun digits_error :: "nat \<Rightarrow> nat \<Rightarrow> string \<Rightarrow> string" where
  "digits_error bits acc [] = []"
| "digits_error bits acc (c # cs) =
     (case digit_value c of
        None \<Rightarrow> ''invalid digit found in string''
      | Some d \<Rightarrow> if 2 ^ bits \<le> 10 * acc + d then ''number too large to fit in target type''
                  else digits_error bits (10 * acc + d) cs)"

definition parse_int_error :: "string \<Rightarrow> string" where
  "parse_int_error s =
     (if s = [] then ''cannot parse integer from empty string''
      else if s = ''+'' \<or> s = ''-'' then ''invalid digit found in string''
      else digits_error 64 0 (if hd s = CHR ''+'' then tl s else s))"

definition job_status_query_params_try_from ::
  "(string \<times> string) list \<Rightarrow> generic_error + job_status_query_params" where
  "job_status_query_params_try_from value =
     (let job_id = map_of value ''job_id''; value = map_remove ''job_id'' value
      in and_then
        (case job_id of
           Some job_id \<Rightarrow> Inr (JobId job_id, value)
         | None \<Rightarrow>
             (let offset = or_default ''0'' (map_of value ''offset''); value = map_remove ''offset'' value
              in and_then (ok_or (generic_error_new (''Invalid offset '' @ offset @ '', '' @ parse_int_error offset) 400)
                             (parse_usize offset)) (\<lambda>offset.
                 let limit = or_default ''20'' (map_of value ''limit''); value = map_remove ''limit'' value
                 in and_then (ok_or (generic_error_new (''Invalid limit '' @ show_nat offset @ '', '' @ parse_int_error limit) 400)
                                (parse_usize limit)) (\<lambda>limit.
                    if limit < 1 then Inl (generic_error_new ''limit can't be less than 1'' 400)
                    else Inr (PagerOptions offset limit, value)))))
        (\<lambda>(params, value). if value = [] then Inr params
                            else Inl (generic_error_new ''Invalid or too many query params'' 400)))"

section \<open>File names\<close>

lemma trim_rev_last: "trim_rev xs \<noteq> [] \<Longrightarrow> last (trim_rev xs) = last xs"
proof (induction xs rule: trim_rev.induct)
  case (1 c d cs)
  consider (slash) "c = CHR ''/''" | (dot) "c = CHR ''.''" "d = CHR ''/''"
    | (stop) "c \<noteq> CHR ''/''" "\<not> (c = CHR ''.'' \<and> d = CHR ''/'')" by blast
  then show ?case
  proof cases
    case slash
    with 1 show ?thesis by simp
  next
    case dot
    with 1 show ?thesis by (cases "cs = []") simp_all
  next
    case stop
    then have "trim_rev (c # d # cs) = c # d # cs" by auto
    then show ?thesis by simp
  qed
next
  case (2 c)
  then show ?case by (cases "c = CHR ''/''") simp_all
qed simp

lemma stem_rev_parts: "f \<noteq> [] \<Longrightarrow> stem_rev f \<noteq> [] \<and> set (stem_rev f) \<subseteq> set f"
proof (cases "dropWhile (\<lambda>c. c \<noteq> CHR ''.'') f")
  case (Cons c cs)
  then have "set (c # cs) \<subseteq> set f" by (metis set_dropWhileD subsetI)
  moreover assume "f \<noteq> []"
  ultimately show ?thesis by (simp add: stem_rev_def Cons)
next
  case Nil
  then have "stem_rev f = f" unfolding stem_rev_def by (simp only: list.case)
  then show "f \<noteq> [] \<Longrightarrow> ?thesis" by simp
qed

lemma stem_rev_sqlite: "stem \<noteq> [] \<Longrightarrow> stem_rev (''etilqs.'' @ stem) = stem"
  by (simp add: stem_rev_def)

lemma set_extension_absolute:
  assumes "p \<noteq> []" "hd p = CHR ''/''"
  shows "set_extension ext p \<noteq> [] \<and> hd (set_extension ext p) = CHR ''/''"
proof -
  define r where "r = trim_rev (rev p)"
  define f where "f = takeWhile (\<lambda>c. c \<noteq> CHR ''/'') r"
  define dir where "dir = dropWhile (\<lambda>c. c \<noteq> CHR ''/'') r"
  have split: "r = f @ dir" by (simp add: f_def dir_def)
  show ?thesis
  proof (cases "f = [] \<or> f = ''..''")
    case True
    then show ?thesis using assms by (simp add: set_extension_def r_def f_def Let_def)
  next
    case False
    have "r \<noteq> []" using False split by auto
    then have "last r = CHR ''/''" using trim_rev_last [of "rev p"] assms by (simp add: r_def last_rev)
    then have "CHR ''/'' \<in> set r" using \<open>r \<noteq> []\<close> last_in_set by fastforce
    then have "dir \<noteq> []" by (auto simp: dir_def dropWhile_eq_Nil_conv)
    moreover from this have "last dir = CHR ''/''" using \<open>last r = CHR ''/''\<close> split by simp
    ultimately have "rev dir \<noteq> [] \<and> hd (rev dir) = CHR ''/''" by (simp add: hd_rev)
    then show ?thesis using False
      by (simp add: set_extension_def r_def [symmetric] f_def [symmetric] dir_def [symmetric] Let_def)
  qed
qed

lemma set_extension_idem: "set_extension ''sqlite'' (set_extension ''sqlite'' p) = set_extension ''sqlite'' p"
proof -
  define r where "r = trim_rev (rev p)"
  define f where "f = takeWhile (\<lambda>c. c \<noteq> CHR ''/'') r"
  define dir where "dir = dropWhile (\<lambda>c. c \<noteq> CHR ''/'') r"
  show ?thesis
  proof (cases "f = [] \<or> f = ''..''")
    case True
    then show ?thesis by (simp add: set_extension_def r_def f_def Let_def)
  next
    case False
    let ?q = "rev dir @ rev (stem_rev f) @ ''.sqlite''"
    have q: "set_extension ''sqlite'' p = ?q" using False
      by (simp add: set_extension_def r_def [symmetric] f_def [symmetric] dir_def [symmetric] Let_def)
    have "CHR ''/'' \<notin> set f" by (auto simp: f_def dest: set_takeWhileD)
    with stem_rev_parts [of f] False have stem: "stem_rev f \<noteq> []" "CHR ''/'' \<notin> set (stem_rev f)" by auto
    have dir: "takeWhile (\<lambda>c. c \<noteq> CHR ''/'') dir = []"
      using hd_dropWhile [of "\<lambda>c. c \<noteq> CHR ''/''" r] by (cases dir) (simp_all add: dir_def [symmetric])
    then have dir2: "dropWhile (\<lambda>c. c \<noteq> CHR ''/'') dir = dir"
      by (metis append_Nil takeWhile_dropWhile_id)
    have ns: "\<And>c. c \<in> set (stem_rev f) \<Longrightarrow> c \<noteq> CHR ''/''" using stem(2) by auto
    have "takeWhile (\<lambda>c. c \<noteq> CHR ''/'') (stem_rev f @ dir) = stem_rev f"
      "dropWhile (\<lambda>c. c \<noteq> CHR ''/'') (stem_rev f @ dir) = dir"
      using takeWhile_append2 [of "stem_rev f" "\<lambda>c. c \<noteq> CHR ''/''" dir]
        dropWhile_append2 [of "stem_rev f" "\<lambda>c. c \<noteq> CHR ''/''" dir] ns dir dir2 by auto
    note td = this
    have rq: "rev ?q = ''etilqs.'' @ stem_rev f @ dir" by simp
    have t: "trim_rev (rev ?q) = rev ?q" unfolding rq by simp
    have tw: "takeWhile (\<lambda>c. c \<noteq> CHR ''/'') (rev ?q) = ''etilqs.'' @ stem_rev f"
      unfolding rq using td(1) by simp
    have dw: "dropWhile (\<lambda>c. c \<noteq> CHR ''/'') (rev ?q) = dir"
      unfolding rq using td(2) by simp
    have st: "stem_rev (''etilqs.'' @ stem_rev f) = stem_rev f"
      using stem_rev_sqlite stem(1) by blast
    have "set_extension ''sqlite'' ?q = ?q"
      unfolding set_extension_def Let_def unfolding t unfolding tw dw unfolding st by simp
    with q show ?thesis by simp
  qed
qed

lemma data_dir_path_absolute: "data_dir_path env_var \<noteq> [] \<and> hd (data_dir_path env_var) = CHR ''/''"
  by (auto simp: data_dir_path_def path_join_def split: option.splits)

lemma path_join_absolute: "p \<noteq> [] \<Longrightarrow> hd p = CHR ''/'' \<Longrightarrow> path_join p q \<noteq> [] \<and> hd (path_join p q) = CHR ''/''"
  by (auto simp: path_join_def)

lemma file_name_stable:
  "file_name_deserializer env_var' (file_name_deserializer env_var name) = file_name_deserializer env_var name"
proof -
  let ?f = "file_name_deserializer env_var name"
  have "?f \<noteq> [] \<and> hd ?f = CHR ''/''"
    using path_join_absolute data_dir_path_absolute set_extension_absolute
    by (simp add: file_name_deserializer_def)
  then have "path_join (data_dir_path env_var') ?f = ?f" by (simp add: path_join_def)
  then show ?thesis by (simp add: file_name_deserializer_def set_extension_idem)
qed

section \<open>A received request is received unchanged\<close>

lemma sort_key_sorted: "sorted (map f xs) \<Longrightarrow> sort_key f xs = xs"
  by (induction xs) (auto simp: insort_is_Cons)

lemma receive_steps_stable:
  assumes "steps_deserialize vs = Inr s"
  shows "receive_steps s = Inr s"
proof -
  let ?m = "map (\<lambda>v. \<lparr>st_start = sh_start v, st_end = sh_end v, st_rate = sh_rate v\<rparr>) vs"
  have all: "list_all (\<lambda>v. sh_start v < sh_end v) vs" and t: "steps_try_from ?m = Inr s"
    using assms by (auto simp: steps_deserialize_def step_list_from_Inr split: sum.splits)
  then have ok: "list_all (\<lambda>s. st_start s < st_end s) ?m" by (simp add: list_all_length)
  with t have s: "valid_steps (sort_key st_start ?m)" "s = \<lparr>current_step = 0, steps_of = sort_key st_start ?m\<rparr>"
    by (simp_all add: steps_try_from_Inr)
  let ?ss = "steps_of s"
  have l: "list_all (\<lambda>s. st_start s < st_end s) ?ss" using ok s(2) by (simp add: list_all_iff)
  have sorted: "sort_key st_start ?ss = ?ss" using s(2) by (simp add: sort_key_sorted)
  have again: "map (\<lambda>v. \<lparr>st_start = sh_start v, st_end = sh_end v, st_rate = sh_rate v\<rparr>)
      (map (\<lambda>x. \<lparr>sh_start = st_start x, sh_end = st_end x, sh_rate = st_rate x\<rparr>) ?ss) = ?ss"
    by (auto intro!: map_idI)
  have "step_list_from (map (\<lambda>x. \<lparr>sh_start = st_start x, sh_end = st_end x, sh_rate = st_rate x\<rparr>) ?ss) = Inr ?ss"
    unfolding step_list_from_Inr again using l by (simp add: list_all_length)
  moreover have "steps_try_from ?ss = Inr s"
    unfolding steps_try_from_Inr [OF l] sorted using s by simp
  ultimately show ?thesis by (simp add: receive_steps_def steps_deserialize_def map_error_def)
qed

lemma host_header_stable [simp]:
  "validate_and_update_host_header t (validate_and_update_host_header t hs) = validate_and_update_host_header t hs"
proof -
  have h: "is_host_header ''host''" by code_simp
  have "list_ex (\<lambda>h. is_host_header (fst h)) (map_insert ''host'' v hs)" for v
    by (induction hs) (auto simp: h)
  then show ?thesis by (simp add: validate_and_update_host_header_def Let_def)
qed

lemma update_spec_headers_stable [simp]: "update_spec_headers t (update_spec_headers t s) = update_spec_headers t s"
  by (cases s) simp_all

definition accepted_schema :: "('h, 'g) gen_env \<Rightarrow> 'h data_schema \<Rightarrow> bool" where
  "accepted_schema E s \<longleftrightarrow> (\<exists>v ss. data_schema_from_value E v = Inr s \<and> well_keyed v \<and> s = SObject None ss
     \<and> (\<forall>x \<in> set ss. inhabited x))"

fun accepted_rate :: "rate_spec_enum \<Rightarrow> bool" where
  "accepted_rate (Steps s) = (\<exists>vs. steps_deserialize vs = Inr s)"
| "accepted_rate _ = True"

fun accepted_connection_rate :: "concurrent_connection_rate_spec \<Rightarrow> bool" where
  "accepted_connection_rate (ConnSteps s) = (\<exists>vs. steps_deserialize vs = Inr s)"
| "accepted_connection_rate _ = True"

text \<open>A specification as the deserialiser of a node with the data directory \<open>env_var\<close> returns it.\<close>

fun accepted_spec ::
  "('h, 'g) gen_env \<Rightarrow> ('a, 'k) template_env \<Rightarrow> string option \<Rightarrow> ('h, 'a, 'db) request_spec_enum \<Rightarrow> bool" where
  "accepted_spec E T env_var (RequestList l) = True"
| "accepted_spec E T env_var (RequestFile f) = (\<exists>n. f = request_file_new (file_name_deserializer env_var n))"
| "accepted_spec E T env_var (SplitRequestFile f) =
     (sf_inner f = None \<and> sf_size f = default_usize_max \<and> (\<exists>n. sf_file_name f = file_name_deserializer env_var n))"
| "accepted_spec E T env_var (RandomDataRequest r) =
     (\<not> rd_init r \<and> rd_url_param_pos r = None \<and> pred_option (accepted_schema E) (rd_body_schema r)
      \<and> pred_option (accepted_schema E) (rd_uri_param_schema r))"
| "accepted_spec E T env_var (JsonTemplateRequest t) = (\<exists>q. json_template_try_from T q = Some (Inr t))"

lemma receive_schema_stable:
  assumes "pred_option (accepted_schema E) s"
  shows "receive_schema E s = Some (Inr s)"
proof (cases s)
  case (Some x)
  with assms obtain v ss where x: "data_schema_from_value E v = Inr (SObject None ss)" "well_keyed v"
      "x = SObject None ss" "\<forall>x \<in> set ss. inhabited x" by (auto simp: accepted_schema_def)
  from data_schema_from_value_parsed [OF x(1,2)] obtain ks where "parsed_list E ks ss" by auto
  with convert_reads_back(1) [of ss E "[]"] x(3,4) show ?thesis
    by (auto simp: Some parsed_list_def data_schema_from_value_def map_error_def)
qed simp

lemma receive_template_stable:
  assumes "json_template_try_from T q = Some (Inr t)"
  shows "json_template_try_from T (json_template_into (t\<lparr>jt_headers := hs\<rparr>)) = Some (Inr (t\<lparr>jt_headers := hs\<rparr>))"
  using assms by (auto simp: json_template_try_from_def json_template_into_def split: sum.splits bind_splits)

lemma receive_spec_stable:
  assumes "accepted_spec E T env_var s"
  shows "receive_spec E T env_var' (update_spec_headers t s) = Some (Inr (update_spec_headers t s))"
proof (cases s)
  case (RequestFile f)
  with assms show ?thesis by (auto simp: request_file_new_def file_name_stable)
next
  case (SplitRequestFile f)
  with assms show ?thesis by (auto simp: file_name_stable)
next
  case (RandomDataRequest r)
  with assms have "receive_schema E (rd_body_schema r) = Some (Inr (rd_body_schema r))"
    "receive_schema E (rd_uri_param_schema r) = Some (Inr (rd_uri_param_schema r))"
    by (simp_all add: receive_schema_stable)
  with assms RandomDataRequest show ?thesis by simp
next
  case (JsonTemplateRequest u)
  with assms receive_template_stable show ?thesis by (force simp: map_error_def)
qed simp

lemma receive_request_stable:
  assumes "accepted_spec E T env_var (rs_req sh)" "accepted_rate (rs_qps sh)"
    "pred_option accepted_connection_rate (rs_concurrent_connection sh)"
  shows "receive_request E T env_var' (request_from sh) = Some (Inr (request_from sh))"
proof -
  have q: "receive_rate (rs_qps sh) = Inr (rs_qps sh)"
    using assms(2) by (cases "rs_qps sh") (auto dest: receive_steps_stable)
  have "receive_connection_rate c = Inr c" if "accepted_connection_rate c" for c
    using that by (cases c) (auto dest: receive_steps_stable)
  then have c: "receive_connection_rate (or_default default_concurrent_connection (rs_concurrent_connection sh))
      = Inr (or_default default_concurrent_connection (rs_concurrent_connection sh))"
    using assms(3) by (cases "rs_concurrent_connection sh") (auto simp: or_default_def default_concurrent_connection_def)
  show ?thesis
    using receive_spec_stable [OF assms(1), of env_var' "rs_target sh"] q c
    by (simp add: receive_request_def request_from_def or_default_def)
qed

section \<open>Properties\<close>

text \<open>A job description that one node has accepted arrives unchanged at another: serialising it and
  deserialising it there gives the same request, although the file name, the steps, the schemas, the
  templates and the host header are converted again, and whatever the data directory of the other node.\<close>
theorem forwarded_request_unchanged:
  assumes "accepted_spec E T env_var (rs_req sh)" "accepted_rate (rs_qps sh)"
    "pred_option accepted_connection_rate (rs_concurrent_connection sh)"
  shows "receive_request E T env_var' (request_from sh) = Some (Inr (request_from sh))"
  by (rule receive_request_stable [OF assms])

definition demo_shadow :: "(string, string, string, unit) request_shadow" where
  "demo_shadow =
     \<lparr>rs_name = Some ''demo'', rs_duration = 60,
      rs_target = \<lparr>t_host = ''example.com'', t_port = 8080, t_protocol = HTTP\<rparr>,
      rs_req = RequestFile (request_file_new (file_name_deserializer (Some ''data'') ''requests.csv'')),
      rs_qps = Steps \<lparr>current_step = 0, steps_of = [\<lparr>st_start = 0, st_end = 5, st_rate = 1\<rparr>, \<lparr>st_start = 6, st_end = 8, st_rate = 4\<rparr>]\<rparr>,
      rs_concurrent_connection = None, rs_connection_keep_alive = None, rs_histogram_buckets = None,
      rs_response_assertion = None, rs_generation_mode = None\<rparr>"

lemma demo_shadow_accepted:
  "accepted_spec demo_env demo_templates (Some ''data'') (rs_req demo_shadow)" "accepted_rate (rs_qps demo_shadow)"
  "pred_option accepted_connection_rate (rs_concurrent_connection demo_shadow)"
proof -
  show "accepted_spec demo_env demo_templates (Some ''data'') (rs_req demo_shadow)" by (auto simp: demo_shadow_def)
  have "steps_deserialize [\<lparr>sh_start = 6, sh_end = 8, sh_rate = 4\<rparr>, \<lparr>sh_start = 0, sh_end = 5, sh_rate = 1\<rparr>]
      = Inr \<lparr>current_step = 0, steps_of = [\<lparr>st_start = 0, st_end = 5, st_rate = 1\<rparr>, \<lparr>st_start = 6, st_end = 8, st_rate = 4\<rparr>]\<rparr>"
    by code_simp
  then show "accepted_rate (rs_qps demo_shadow)" by (auto simp: demo_shadow_def)
  show "pred_option accepted_connection_rate (rs_concurrent_connection demo_shadow)" by (simp add: demo_shadow_def)
qed

theorem forwarded_request_unchanged_witness:
  "receive_request demo_env demo_templates None (request_from demo_shadow) = Some (Inr (request_from demo_shadow))
   \<and> file_name_deserializer (Some ''data'') ''requests.csv'' = ''/data/requests.sqlite''"
proof
  show "receive_request demo_env demo_templates None (request_from demo_shadow) = Some (Inr (request_from demo_shadow))"
    by (rule forwarded_request_unchanged [OF demo_shadow_accepted])
  show "file_name_deserializer (Some ''data'') ''requests.csv'' = ''/data/requests.sqlite''" by code_simp
qed

lemma removed_all: "A - {a} - {b} = {} \<longleftrightarrow> A \<subseteq> {a, b}"
  by blast

lemma keys_map_remove: "distinct (map fst m) \<Longrightarrow> fst ` set (map_remove k m) = fst ` set m - {k}"
proof (induction m)
  case (Cons e m)
  then show ?case by (cases e; cases "fst e = k") auto
qed simp

text \<open>The query parameters of the status endpoint are accepted exactly when they are one job id and nothing
  else, or nothing but an offset and a limit of at least 1 that are numbers, with the defaults 0 and
  20; everything else is answered with status 400.\<close>
theorem job_status_query_params_accepts:
  assumes "distinct (map fst m)"
  shows "(\<forall>j. job_status_query_params_try_from m = Inr (JobId j) \<longleftrightarrow> m = [(''job_id'', j)])
    \<and> (\<forall>offset limit. job_status_query_params_try_from m = Inr (PagerOptions offset limit) \<longleftrightarrow>
         fst ` set m \<subseteq> {''offset'', ''limit''} \<and> 1 \<le> limit
         \<and> parse_usize (or_default ''0'' (map_of m ''offset'')) = Some offset
         \<and> parse_usize (or_default ''20'' (map_of m ''limit'')) = Some limit)
    \<and> (\<forall>e. job_status_query_params_try_from m = Inl e \<longrightarrow> error_code e = 400)"
proof (cases "map_of m ''job_id''")
  case None
  then have nj: "''job_id'' \<notin> fst ` set m" by (simp add: map_of_eq_None_iff)
  then have r1: "map_remove ''job_id'' m = m" by (simp add: map_remove_notin)
  have l: "map_of (map_remove ''offset'' m) ''limit'' = map_of m ''limit''" using assms by (simp add: map_of_map_remove)
  have e: "map_remove ''limit'' (map_remove ''offset'' m) = [] \<longleftrightarrow> fst ` set m \<subseteq> {''offset'', ''limit''}"
  proof -
    have "fst ` set (map_remove ''limit'' (map_remove ''offset'' m)) = fst ` set m - {''offset''} - {''limit''}"
      using assms by (simp add: keys_map_remove distinct_map_remove)
    then show ?thesis using removed_all [of "fst ` set m" "''offset''" "''limit''"]
      by (metis image_is_empty set_empty)
  qed
  have f: "job_status_query_params_try_from m =
      (case parse_usize (or_default ''0'' (map_of m ''offset'')) of
         None \<Rightarrow> Inl (generic_error_new (''Invalid offset '' @ or_default ''0'' (map_of m ''offset'') @ '', ''
                    @ parse_int_error (or_default ''0'' (map_of m ''offset''))) 400)
       | Some offset \<Rightarrow>
           (case parse_usize (or_default ''20'' (map_of m ''limit'')) of
              None \<Rightarrow> Inl (generic_error_new (''Invalid limit '' @ show_nat offset @ '', ''
                         @ parse_int_error (or_default ''20'' (map_of m ''limit''))) 400)
            | Some limit \<Rightarrow>
                if limit < 1 then Inl (generic_error_new ''limit can't be less than 1'' 400)
                else if fst ` set m \<subseteq> {''offset'', ''limit''} then Inr (PagerOptions offset limit)
                else Inl (generic_error_new ''Invalid or too many query params'' 400)))"
    unfolding job_status_query_params_try_from_def Let_def None r1 l
    by (simp add: e [symmetric] split: option.split)
  have "m \<noteq> [(''job_id'', j)]" for j using nj by auto
  then show ?thesis unfolding f by (auto simp: generic_error_new_def split: option.splits if_splits)
next
  case (Some i)
  then have "(''job_id'', i) \<in> set m" by (rule map_of_SomeD)
  then have ij: "''job_id'' \<in> fst ` set m" by force
  have "map_remove ''job_id'' m = [] \<longleftrightarrow> m = [(''job_id'', i)]"
  proof (cases m)
    case (Cons e es)
    then show ?thesis using Some by (cases e) (auto split: if_splits)
  qed (use Some in simp)
  moreover define ok where "ok \<longleftrightarrow> m = [(''job_id'', i)]"
  ultimately have "job_status_query_params_try_from m
      = (if ok then Inr (JobId i) else Inl (generic_error_new ''Invalid or too many query params'' 400))"
    by (simp add: job_status_query_params_try_from_def Let_def Some)
  moreover have "\<not> fst ` set m \<subseteq> {''offset'', ''limit''}" using ij by auto
  moreover have "m = [(''job_id'', j)] \<longleftrightarrow> ok \<and> j = i" for j using Some by (auto simp: ok_def)
  ultimately show ?thesis by (cases ok) (auto simp: generic_error_new_def)
qed

theorem job_status_query_params_accepts_witness:
  "job_status_query_params_try_from [(''limit'', ''5'')] = Inr (PagerOptions 0 5)
   \<and> (\<forall>j. job_status_query_params_try_from [(''job_id'', ''a''), (''x'', ''1'')] \<noteq> Inr (JobId j))"
proof -
  have p: "parse_usize ''0'' = Some 0" "parse_usize ''5'' = Some 5" by code_simp+
  have d: "distinct (map fst [(''limit'', ''5'')])" "distinct (map fst [(''job_id'', ''a''), (''x'', ''1'')])" by simp_all
  show ?thesis
    using job_status_query_params_accepts [OF d(1)] job_status_query_params_accepts [OF d(2)] p
    by (simp add: or_default_def)
qed

end
