(* ===== verification/Request_Providers.thy ===== *)
theory Request_Providers
  imports Http_Types
begin

text \<open>
  The request providers (\<open>cluster-executor/src/request_providers.rs\<close>): where the requests of a
  second come from. A result of a provider is \<open>None\<close> when it panics or runs forever; otherwise it
  holds the requests or an error, the provider after the call and the state of the random generator.

  Parameters: SQLite, the random generator, the parsers of methods and headers, and the text of a
  JSON value. The lemmas show that the provider of a split file terminates and reads its range of rows
  cyclically without skipping one, that the providers return the number of requests asked for,
  and where they panic.
\<close>

section \<open>Model\<close>

record ('db, 'g) source_env =
  rng_usize :: "usize \<Rightarrow> usize \<Rightarrow> 'g \<Rightarrow> usize \<times> 'g"
  sqlite_open :: "string \<Rightarrow> string + 'db"
  db_count :: "'db \<Rightarrow> string + i64"
  db_by_ids :: "'db \<Rightarrow> usize list \<Rightarrow> string + sqlite_row list"
  db_by_range :: "'db \<Rightarrow> usize \<Rightarrow> usize \<Rightarrow> string + sqlite_row list"
  method_from :: "string \<Rightarrow> string option"
  headers_from :: "string \<Rightarrow> (string \<times> string) list option"
  json_text :: "json \<Rightarrow> string"

fun rows_to_requests :: "('db, 'g) source_env \<Rightarrow> sqlite_row list \<Rightarrow> http_req list option" where
  "rows_to_requests S [] = Some []"
| "rows_to_requests S (r # rs) =
     do { q \<leftarrow> http_req_from_row (method_from S) (headers_from S) r; qs \<leftarrow> rows_to_requests S rs; Some (q # qs) }"

text \<open>\<open>repeat_with(|| fastrand::usize(lo..=hi)).take(n)\<close>, which panics on an empty range.\<close>

fun take_usize :: "('db, 'g) source_env \<Rightarrow> usize \<Rightarrow> usize \<Rightarrow> nat \<Rightarrow> 'g \<Rightarrow> (usize list \<times> 'g) option" where
  "take_usize S lo hi n g =
     (if n = 0 then Some ([], g)
      else if hi < lo then None
      else let (i, g) = rng_usize S lo hi g
        in map_option (\<lambda>(is, g). (i # is, g)) (take_usize S lo hi (n - 1) g))"

declare take_usize.simps [simp del]

fun get_all :: "'x list \<Rightarrow> usize list \<Rightarrow> 'x list option" where
  "get_all xs [] = Some []"
| "get_all xs (i # is) = do { x \<leftarrow> vec_get xs i; ys \<leftarrow> get_all xs is; Some (x # ys) }"

definition request_list_get_n ::
  "('db, 'g) source_env \<Rightarrow> request_list \<Rightarrow> usize \<Rightarrow> 'g \<Rightarrow> ((string + http_req list) \<times> request_list \<times> 'g) option" where
  "request_list_get_n S l n g =
     (if n = 0 then None
      else if rl_data l = [] then Some (Inl ''No Data Found'', l, g)
      else do { (is, g) \<leftarrow> take_usize S 0 (length (rl_data l) - 1) n g;
                rs \<leftarrow> get_all (rl_data l) is;
                Some (Inr rs, l, g) })"

definition request_file_open ::
  "('db, 'g) source_env \<Rightarrow> 'db request_file \<Rightarrow> string + 'db \<times> 'db request_file" where
  "request_file_open S f =
     (case rf_inner f of
        Some db \<Rightarrow> Inr (db, f)
      | None \<Rightarrow> and_then (sqlite_open S (''sqlite://'' @ rf_file_name f)) (\<lambda>db.
                and_then (db_count S db) (\<lambda>size.
                Inr (db, f\<lparr>rf_size := i64_as_usize size, rf_inner := Some db\<rparr>))))"

definition request_file_get_n ::
  "('db, 'g) source_env \<Rightarrow> 'db request_file \<Rightarrow> usize \<Rightarrow> 'g
     \<Rightarrow> ((string + http_req list) \<times> 'db request_file \<times> 'g) option" where
  "request_file_get_n S f n g =
     (if n = 0 then None
      else case request_file_open S f of
          Inl e \<Rightarrow> Some (Inl e, f, g)
        | Inr (db, f) \<Rightarrow>
            do { (random_ids, g) \<leftarrow> take_usize S 1 (rf_size f) n g;
                 (case db_by_ids S db random_ids of
                    Inl e \<Rightarrow> Some (Inl e, f, g)
                  | Inr rows \<Rightarrow> do { rs \<leftarrow> rows_to_requests S rows; Some (Inr rs, f, g) }) })"

text \<open>Opening a split file: the result is an error with the provider as it is left, or the connection.
  A range of 0 is a range that was not given.\<close>

definition split_request_file_open ::
  "('db, 'g) source_env \<Rightarrow> 'db split_request_file \<Rightarrow> (string \<times> 'db split_request_file) + 'db \<times> 'db split_request_file" where
  "split_request_file_open S f =
     (case sf_inner f of
        Some db \<Rightarrow> Inr (db, f)
      | None \<Rightarrow>
          (case and_then (sqlite_open S (''sqlite://'' @ sf_file_name f)) (\<lambda>db.
                and_then (db_count S db) (\<lambda>row_total. Inr (db, row_total))) of
             Inl e \<Rightarrow> Inl (e, f)
           | Inr (db, row_total) \<Rightarrow>
               (let f = f\<lparr>sf_size := i64_as_usize row_total\<rparr>
                in if sf_size f < 1 then Inl (''Empty request file'', f)
                   else let f = f\<lparr>sf_inner := Some db\<rparr>;
                            f = (if range_start_inclusive f = 0
                                 then f\<lparr>range_start_inclusive := 1, next_read_cursor := 1\<rparr>
                                 else f\<lparr>next_read_cursor := range_start_inclusive f\<rparr>);
                            f = (if range_end_inclusive f = 0 then f\<lparr>range_end_inclusive := sf_size f\<rparr> else f)
                     in Inr (db, f))))"

partial_function (option) split_read ::
  "('db, 'g) source_env \<Rightarrow> 'db \<Rightarrow> usize \<Rightarrow> usize \<Rightarrow> http_req list \<Rightarrow> 'db split_request_file
     \<Rightarrow> ((string + http_req list) \<times> 'db split_request_file) option" where
  "split_read S db n data_need request_data f =
     (if n \<le> length request_data then Some (Inr request_data, f)
      else
        (case db_by_range S db (next_read_cursor f)
                (min (range_end_inclusive f + 1) (next_read_cursor f + data_need)) of
           Inl e \<Rightarrow> Some (Inl e, f)
         | Inr rows \<Rightarrow>
             (case rows_to_requests S rows of
                None \<Rightarrow> None
              | Some data \<Rightarrow>
                  split_read S db n (max (usize_sub data_need (length data)) 0) (request_data @ data)
                    (let f = f\<lparr>next_read_cursor :=
                               min (range_end_inclusive f + 1) (next_read_cursor f + data_need)\<rparr>
                     in if next_read_cursor f > range_end_inclusive f
                        then f\<lparr>next_read_cursor := range_start_inclusive f\<rparr> else f))))"

definition split_request_file_get_n ::
  "('db, 'g) source_env \<Rightarrow> 'db split_request_file \<Rightarrow> usize \<Rightarrow> 'g
     \<Rightarrow> ((string + http_req list) \<times> 'db split_request_file \<times> 'g) option" where
  "split_request_file_get_n S f n g =
     (if n = 0 then None
      else case split_request_file_open S f of
          Inl (e, f) \<Rightarrow> Some (Inl e, f, g)
        | Inr (db, f) \<Rightarrow> map_option (\<lambda>(r, f). (r, f, g)) (split_read S db n n [] f))"

definition random_data_init :: "'h random_data_request \<Rightarrow> 'h random_data_request" where
  "random_data_init r =
     (if \<not> rd_init r
      then let r = r\<lparr>rd_init := True\<rparr>
        in if rd_uri_param_schema r \<noteq> None
           then r\<lparr>rd_url_param_pos := Some (find_param_positions (rd_url r))\<rparr> else r
      else r)"

definition random_data_one ::
  "('db, 'g) source_env \<Rightarrow> ('h, 'g) gen_env \<Rightarrow> 'h random_data_request \<Rightarrow> 'g \<Rightarrow> (http_req \<times> 'g) option" where
  "random_data_one S E r g =
     do { (url, g) \<leftarrow>
            (case (rd_uri_param_schema r, rd_url_param_pos r) of
               (Some schema, Some positions) \<Rightarrow>
                 do { (data, g) \<leftarrow> generate_data E schema g;
                      url \<leftarrow> substitute_param_with_data (rd_url r) positions data;
                      Some (url, g) }
             | _ \<Rightarrow> Some (rd_url r, g));
          (body, g) \<leftarrow>
            (case (rd_method r = ''POST'', rd_body_schema r) of
               (True, Some schema) \<Rightarrow>
                 map_option (\<lambda>(data, g). (Some (json_text S data), g)) (generate_data E schema g)
             | _ \<Rightarrow> Some (None, g));
          Some (\<lparr>hr_id = [], hr_method = rd_method r, hr_url = url, hr_body = body, hr_headers = rd_headers r\<rparr>, g) }"

fun repeat_request :: "('g \<Rightarrow> ('x \<times> 'g) option) \<Rightarrow> nat \<Rightarrow> 'g \<Rightarrow> ('x list \<times> 'g) option" where
  "repeat_request f n g =
     (if n = 0 then Some ([], g)
      else case f g of None \<Rightarrow> None
        | Some (x, g) \<Rightarrow> map_option (\<lambda>(xs, g). (x # xs, g)) (repeat_request f (n - 1) g))"

declare repeat_request.simps [simp del]

definition random_data_get_n ::
  "('db, 'g) source_env \<Rightarrow> ('h, 'g) gen_env \<Rightarrow> 'h random_data_request \<Rightarrow> usize \<Rightarrow> 'g
     \<Rightarrow> ((string + http_req list) \<times> 'h random_data_request \<times> 'g) option" where
  "random_data_get_n S E r n g =
     (let r = random_data_init r
      in map_option (\<lambda>(requests, g). (Inr requests, r, g)) (repeat_request (random_data_one S E r) n g))"

definition json_template_one ::
  "('db, 'g) source_env \<Rightarrow> ('a, 'g) template_env \<Rightarrow> 'a json_template \<Rightarrow> 'g \<Rightarrow> (http_req \<times> 'g) option" where
  "json_template_one S T t g =
     (let (url, g) = populate_data T (jt_url t) (jt_url_template t) g;
          (body, g) = (if jt_body t \<noteq> Null
                       then let (v, g) = populate_data T (jt_body t) (jt_body_template t) g in (Some (json_text S v), g)
                       else (None, g))
      in map_option (\<lambda>u. (\<lparr>hr_id = [], hr_method = jt_method t, hr_url = u, hr_body = body,
                            hr_headers = jt_headers t\<rparr>, g)) (json_as_str url))"

definition json_template_get_n ::
  "('db, 'g) source_env \<Rightarrow> ('a, 'g) template_env \<Rightarrow> 'a json_template \<Rightarrow> usize \<Rightarrow> 'g
     \<Rightarrow> ((string + http_req list) \<times> 'a json_template \<times> 'g) option" where
  "json_template_get_n S T t n g =
     map_option (\<lambda>(requests, g). (Inr requests, t, g)) (repeat_request (json_template_one S T t) n g)"

fun provider_size_hint :: "('h, 'a, 'db) request_spec_enum \<Rightarrow> usize" where
  "provider_size_hint (RequestList l) = length (rl_data l)"
| "provider_size_hint (RequestFile f) = rf_size f"
| "provider_size_hint (SplitRequestFile f) = sf_size f"
| "provider_size_hint (RandomDataRequest r) = 2 ^ 64 - 1"
| "provider_size_hint (JsonTemplateRequest t) = 2 ^ 64 - 1"

text \<open>\<open>get_requests\<close> of \<open>cluster-executor/src/secondary.rs\<close>.\<close>

fun get_requests ::
  "('db, 'g) source_env \<Rightarrow> ('h, 'g) gen_env \<Rightarrow> ('a, 'g) template_env
     \<Rightarrow> ('h, 'a, 'db) request_spec_enum \<Rightarrow> usize \<Rightarrow> 'g
     \<Rightarrow> ((string + http_req list) \<times> ('h, 'a, 'db) request_spec_enum \<times> 'g) option" where
  "get_requests S E T (RequestList req) n g =
     map_option (\<lambda>(r, req, g). (r, RequestList req, g)) (request_list_get_n S req n g)"
| "get_requests S E T (RequestFile req) n g =
     map_option (\<lambda>(r, req, g). (r, RequestFile req, g)) (request_file_get_n S req n g)"
| "get_requests S E T (RandomDataRequest req) n g =
     map_option (\<lambda>(r, req, g). (r, RandomDataRequest req, g)) (random_data_get_n S E req n g)"
| "get_requests S E T (SplitRequestFile req) n g =
     map_option (\<lambda>(r, req, g). (r, SplitRequestFile req, g)) (split_request_file_get_n S req n g)"
| "get_requests S E T (JsonTemplateRequest req) n g =
     map_option (\<lambda>(r, req, g). (r, JsonTemplateRequest req, g)) (json_template_get_n S T req n g)"

section \<open>Reading a range of rows\<close>

text \<open>What a provider relies on: the table has the rows 1 to \<open>count\<close>, and a query for a range returns
  them in the order of their ids.\<close>

definition serves_rows :: "('db, 'g) source_env \<Rightarrow> 'db \<Rightarrow> nat \<Rightarrow> (nat \<Rightarrow> http_req) \<Rightarrow> bool" where
  "serves_rows S db row_count row \<longleftrightarrow> (\<forall>s e. 1 \<le> s \<longrightarrow> s \<le> e \<longrightarrow> e \<le> row_count + 1 \<longrightarrow>
     (\<exists>rs. db_by_range S db s e = Inr rs \<and> rows_to_requests S rs = Some (map row [s..<e])))"

text \<open>The id of the \<open>i\<close>th row read when the reading starts at \<open>c\<close> and cycles through \<open>a\<close> to \<open>b\<close>.\<close>

definition cyclic_id :: "nat \<Rightarrow> nat \<Rightarrow> nat \<Rightarrow> nat \<Rightarrow> nat" where
  "cyclic_id a b c i = a + (c - a + i) mod (b - a + 1)"

lemma cyclic_id_straight: "a \<le> c \<Longrightarrow> c + i \<le> b \<Longrightarrow> cyclic_id a b c i = c + i"
  by (simp add: cyclic_id_def)

lemma cyclic_id_add: "a \<le> c \<Longrightarrow> cyclic_id a b (cyclic_id a b c k) i = cyclic_id a b c (k + i)"
  by (simp add: cyclic_id_def mod_add_left_eq add.assoc)

lemma cyclic_id_wrap: "a \<le> c \<Longrightarrow> c \<le> b \<Longrightarrow> cyclic_id a b c (b + 1 - c) = a"
  by (simp add: cyclic_id_def Suc_diff_le)

lemma map_cyclic_split:
  assumes "a \<le> c" "k \<le> need"
  shows "map (\<lambda>i. row (cyclic_id a b c i)) [0..<need]
     = map (\<lambda>i. row (cyclic_id a b c i)) [0..<k]
       @ map (\<lambda>i. row (cyclic_id a b (cyclic_id a b c k) i)) [0..<need - k]"
proof -
  have "[0..<need] = [0..<k] @ map (\<lambda>i. k + i) [0..<need - k]"
    using assms(2) map_add_upt [of k "need - k"] upt_add_eq_append [of 0 k "need - k"]
    by (simp add: add.commute)
  then show ?thesis using assms(1) by (simp add: cyclic_id_add)
qed

lemma split_read_cycles:
  assumes rows: "serves_rows S db row_count row"
    and f: "range_start_inclusive f = a" "range_end_inclusive f = b" "1 \<le> a" "b \<le> row_count"
  shows "next_read_cursor f = c \<Longrightarrow> a \<le> c \<Longrightarrow> c \<le> b \<Longrightarrow> length acc + need = n \<Longrightarrow>
    split_read S db n need acc f =
      Some (Inr (acc @ map (\<lambda>i. row (cyclic_id a b c i)) [0..<need]),
            f\<lparr>next_read_cursor := cyclic_id a b c need\<rparr>)"
  using f
proof (induction need arbitrary: acc c f rule: less_induct)
  case (less need)
  show ?case
  proof (cases "need = 0")
    case True
    then show ?thesis using less.prems
      by (subst split_read.simps) (simp add: cyclic_id_straight)
  next
    case False
    define e where "e = min (b + 1) (c + need)"
    define k where "k = e - c"
    define c' where "c' = (if e > b then a else e)"
    let ?f = "f\<lparr>next_read_cursor := c'\<rparr>"
    have k: "e = c + k" "0 < k" "k \<le> need" "e \<le> b + 1" using False less.prems by (auto simp: e_def k_def)
    have c': "c' = cyclic_id a b c k"
      using k less.prems cyclic_id_wrap [of a c b] by (auto simp: c'_def cyclic_id_straight Suc_le_eq) (metis Suc_eq_plus1 diff_add_inverse le_antisym less_eq_Suc_le)
    have c'_range: "a \<le> c'" "c' \<le> b" using k less.prems by (auto simp: c'_def)
    obtain rs where rs: "db_by_range S db c e = Inr rs" "rows_to_requests S rs = Some (map row [c..<e])"
      using rows less.prems k unfolding serves_rows_def by (metis add_le_mono1 le_add1 le_trans)
    have e: "min (range_end_inclusive f + 1) (next_read_cursor f + need) = e" using less.prems by (simp add: e_def)
    have first: "map row [c..<e] = map (\<lambda>i. row (cyclic_id a b c i)) [0..<k]"
      using k less.prems map_add_upt [of c k] by (auto simp: cyclic_id_straight add.commute intro!: nth_equalityI)
    have "split_read S db n need acc f = split_read S db n (need - k) (acc @ map row [c..<e]) ?f"
      unfolding split_read.simps [of S db n need acc f] e using False less.prems(1,4-6) rs k
      by (simp add: c'_def Let_def)
    also have "\<dots> = Some (Inr ((acc @ map row [c..<e]) @ map (\<lambda>i. row (cyclic_id a b c' i)) [0..<need - k]),
        ?f\<lparr>next_read_cursor := cyclic_id a b c' (need - k)\<rparr>)"
      using k c'_range less.prems by (intro less.IH) auto
    also have "\<dots> = Some (Inr (acc @ map (\<lambda>i. row (cyclic_id a b c i)) [0..<need]),
        f\<lparr>next_read_cursor := cyclic_id a b c need\<rparr>)"
      using k less.prems map_cyclic_split [of a c k need row b] by (simp add: c' first [unfolded k(1)] cyclic_id_add)
    finally show ?thesis .
  qed
qed

section \<open>Providers return what was asked for\<close>

definition rng_in :: "('db, 'g) source_env \<Rightarrow> bool" where
  "rng_in S \<longleftrightarrow> (\<forall>lo hi g. lo \<le> hi \<longrightarrow> lo \<le> fst (rng_usize S lo hi g) \<and> fst (rng_usize S lo hi g) \<le> hi)"

lemma take_usize_ok:
  assumes "rng_in S" "lo \<le> hi"
  shows "\<exists>is g'. take_usize S lo hi n g = Some (is, g') \<and> length is = n \<and> list_all (\<lambda>i. lo \<le> i \<and> i \<le> hi) is"
proof (induction n arbitrary: g)
  case 0
  show ?case by (simp add: take_usize.simps)
next
  case (Suc n)
  obtain i g1 where i: "rng_usize S lo hi g = (i, g1)" by fastforce
  then have "lo \<le> i \<and> i \<le> hi" using assms unfolding rng_in_def by (metis fst_conv)
  with Suc.IH [of g1] i assms(2) show ?case
    by (auto simp: take_usize.simps [of S lo hi "Suc n"])
qed

lemma get_all_ok: "list_all (\<lambda>i. i < length xs) is \<Longrightarrow> \<exists>ys. get_all xs is = Some ys \<and> length ys = length is \<and> set ys \<subseteq> set xs"
  by (induction "is") (auto simp: vec_get_def)

lemma length_rows_to_requests: "rows_to_requests S rs = Some qs \<Longrightarrow> length qs = length rs"
  by (induction rs arbitrary: qs) (auto split: bind_splits)

lemma repeat_request_ok:
  assumes "\<And>g. f g \<noteq> None"
  shows "\<exists>xs g'. repeat_request f n g = Some (xs, g') \<and> length xs = n"
proof (induction n arbitrary: g)
  case 0
  show ?case by (simp add: repeat_request.simps)
next
  case (Suc n)
  obtain x g1 where "f g = Some (x, g1)" using assms [of g] by auto
  with Suc.IH [of g1] show ?case by (auto simp: repeat_request.simps [of f "Suc n"])
qed

section \<open>Well-formed providers\<close>

text \<open>When a provider cannot panic. The rows of a table convert to requests, a query for ids
  returns no row twice; a file is not empty; a split range lies inside the table; the schemas were
  accepted and the URL has at most two parameters; the URL of a template evaluates to a string.\<close>

definition ids_ok :: "('db, 'g) source_env \<Rightarrow> 'db \<Rightarrow> bool" where
  "ids_ok S db \<longleftrightarrow> (\<forall>ids rs. db_by_ids S db ids = Inr rs \<longrightarrow> rows_to_requests S rs \<noteq> None \<and> length rs \<le> length ids)"

definition file_ok :: "('db, 'g) source_env \<Rightarrow> 'db request_file \<Rightarrow> bool" where
  "file_ok S f \<longleftrightarrow> (\<forall>db f'. request_file_open S f = Inr (db, f') \<longrightarrow> ids_ok S db \<and> 1 \<le> rf_size f')"

definition split_ok :: "('db, 'g) source_env \<Rightarrow> 'db split_request_file \<Rightarrow> bool" where
  "split_ok S f \<longleftrightarrow> (\<forall>db f'. split_request_file_open S f = Inr (db, f') \<longrightarrow>
     (\<exists>row. serves_rows S db (sf_size f') row) \<and> 1 \<le> range_start_inclusive f' \<and> range_start_inclusive f' \<le> next_read_cursor f'
       \<and> next_read_cursor f' \<le> range_end_inclusive f' \<and> range_end_inclusive f' \<le> sf_size f')"

definition random_ok :: "('h, 'g) gen_env \<Rightarrow> 'h random_data_request \<Rightarrow> bool" where
  "random_ok E r \<longleftrightarrow> rng_ok E \<and> pred_option (accepted_schema E) (rd_body_schema r)
     \<and> pred_option (accepted_schema E) (rd_uri_param_schema r) \<and> length (find_matches 0 (rd_url r)) \<le> 2
     \<and> pred_option (\<lambda>ps. ps = find_param_positions (rd_url r)) (rd_url_param_pos r)"

definition template_ok :: "('a, 'g) template_env \<Rightarrow> 'a json_template \<Rightarrow> bool" where
  "template_ok T t \<longleftrightarrow> (\<forall>g. is_string (fst (populate_data T (jt_url t) (jt_url_template t) g)))"

fun provider_ok ::
  "('db, 'g) source_env \<Rightarrow> ('h, 'g) gen_env \<Rightarrow> ('a, 'g) template_env \<Rightarrow> ('h, 'a, 'db) request_spec_enum \<Rightarrow> bool" where
  "provider_ok S E T (RequestList l) = rng_in S"
| "provider_ok S E T (RequestFile f) = (rng_in S \<and> file_ok S f)"
| "provider_ok S E T (SplitRequestFile f) = split_ok S f"
| "provider_ok S E T (RandomDataRequest r) = random_ok E r"
| "provider_ok S E T (JsonTemplateRequest t) = template_ok T t"

lemma request_list_ok:
  assumes "rng_in S" "0 < n"
  shows "\<exists>r g'. request_list_get_n S l n g = Some (r, l, g')
    \<and> (r = Inl ''No Data Found'' \<or> (\<exists>rs. r = Inr rs \<and> length rs = n \<and> set rs \<subseteq> set (rl_data l)))"
proof (cases "rl_data l = []")
  case False
  obtain "is" g' where t: "take_usize S 0 (length (rl_data l) - 1) n g = Some (is, g')" "length is = n"
      "list_all (\<lambda>i. i \<le> length (rl_data l) - 1) is"
    using take_usize_ok [OF assms(1), of 0 "length (rl_data l) - 1" n g] by auto
  have "list_all (\<lambda>i. i < length (rl_data l)) is" using t(3) False by (auto simp: list_all_iff less_Suc_eq_le Suc_le_eq intro: le_less_trans)
  from get_all_ok [OF this] t False assms(2) show ?thesis by (auto simp: request_list_get_n_def)
qed (use assms(2) in \<open>auto simp: request_list_get_n_def\<close>)

lemma request_file_reopen: "request_file_open S f = Inr (db, f') \<Longrightarrow> request_file_open S f' = Inr (db, f')"
  by (auto simp: request_file_open_def and_then_Inr_iff split: option.splits)

lemma request_file_ok:
  assumes "rng_in S" "file_ok S f" "0 < n"
  shows "\<exists>r f' g'. request_file_get_n S f n g = Some (r, f', g') \<and> file_ok S f'
    \<and> (\<forall>rs. r = Inr rs \<longrightarrow> length rs \<le> n)"
proof (cases "request_file_open S f")
  case (Inl e)
  with assms show ?thesis by (auto simp: request_file_get_n_def)
next
  case (Inr x)
  then obtain db f' where o: "request_file_open S f = Inr (db, f')" by (cases x) auto
  then have ok: "ids_ok S db" "1 \<le> rf_size f'" using assms(2) by (auto simp: file_ok_def)
  have f': "file_ok S f'" using ok request_file_reopen [OF o] by (auto simp: file_ok_def)
  obtain ids g' where t: "take_usize S 1 (rf_size f') n g = Some (ids, g')" "length ids = n"
    using take_usize_ok [OF assms(1) ok(2)] by blast
  show ?thesis
  proof (cases "db_by_ids S db ids")
    case (Inr rs)
    then obtain qs where "rows_to_requests S rs = Some qs" "length rs \<le> length ids"
      using ok(1) by (auto simp: ids_ok_def)
    with Inr o t f' assms(3) length_rows_to_requests show ?thesis by (fastforce simp: request_file_get_n_def)
  qed (use o t f' assms(3) in \<open>auto simp: request_file_get_n_def\<close>)
qed

lemma split_request_file_reopen:
  "split_request_file_open S f = Inr (db, f') \<Longrightarrow> sf_inner f' = Some db"
  by (auto simp: split_request_file_open_def Let_def and_then_Inr_iff split: option.splits sum.splits if_splits)

lemma split_file_ok:
  assumes "split_ok S f" "0 < n"
  shows "\<exists>r f'. split_request_file_get_n S f n g = Some (r, f', g) \<and> split_ok S f'
    \<and> (\<forall>rs. r = Inr rs \<longrightarrow> length rs = n)"
proof (cases "split_request_file_open S f")
  case (Inl x)
  then obtain e f' where o: "split_request_file_open S f = Inl (e, f')" by (cases x) auto
  then have "\<exists>y. split_request_file_open S f' = Inl y"
    by (auto simp: split_request_file_open_def Let_def split: option.splits sum.splits if_splits)
  then have "split_ok S f'" by (auto simp: split_ok_def)
  with o assms(2) show ?thesis by (auto simp: split_request_file_get_n_def)
next
  case (Inr x)
  then obtain db f' where o: "split_request_file_open S f = Inr (db, f')" by (cases x) auto
  then obtain row where row: "serves_rows S db (sf_size f') row" "1 \<le> range_start_inclusive f'"
      "range_start_inclusive f' \<le> next_read_cursor f'" "next_read_cursor f' \<le> range_end_inclusive f'" "range_end_inclusive f' \<le> sf_size f'"
    using assms(1) unfolding split_ok_def by blast
  let ?c = "cyclic_id (range_start_inclusive f') (range_end_inclusive f') (next_read_cursor f') n"
  have read: "split_read S db n n [] f' = Some (Inr (map (\<lambda>i. row (cyclic_id (range_start_inclusive f') (range_end_inclusive f') (next_read_cursor f') i)) [0..<n]),
      f'\<lparr>next_read_cursor := ?c\<rparr>)"
    using split_read_cycles [OF row(1) refl refl row(2,5) refl row(3,4), of "[]" n n] by simp
  have "range_start_inclusive f' \<le> ?c" "?c \<le> range_end_inclusive f'"
    using row mod_less_divisor [of "range_end_inclusive f' - range_start_inclusive f' + 1"]
    by (auto simp: cyclic_id_def less_Suc_eq_le) (metis Nat.le_diff_conv2 add.commute le_trans less_Suc_eq_le mod_less_divisor zero_less_Suc)
  then have "split_ok S (f'\<lparr>next_read_cursor := ?c\<rparr>)"
    using row split_request_file_reopen [OF o] by (auto simp: split_ok_def split_request_file_open_def)
  with o read assms(2) show ?thesis by (auto simp: split_request_file_get_n_def)
qed

lemma generate_accepted:
  assumes "rng_ok E" "accepted_schema E s"
  shows "generate_data E s g \<noteq> None"
proof -
  from assms(2) obtain v ss where s: "data_schema_from_value E v = Inr (SObject None ss)" "well_keyed v"
      "s = SObject None ss" "\<forall>x \<in> set ss. inhabited x" by (auto simp: accepted_schema_def)
  from data_schema_from_value_parsed [OF s(1,2)] obtain ks where "parsed_list E ks ss" by auto
  with generate_conforms(1) [OF assms(1), of ss "[]" g] s(3,4) show ?thesis by (auto simp: parsed_list_def)
qed

lemma substitute_two_params:
  "length (find_matches 0 url) \<le> 2 \<Longrightarrow> substitute_param_with_data url (find_param_positions url) data \<noteq> None"
  using substitute_right_to_left [of "[]" url data] find_param_positions_two [of url] by simp

lemma random_data_one_ok:
  assumes "random_ok E r"
  shows "random_data_one S E r g \<noteq> None"
proof -
  have gen: "generate_data E s g \<noteq> None" if "rd_uri_param_schema r = Some s \<or> rd_body_schema r = Some s" for s g
    using assms that by (intro generate_accepted) (auto simp: random_ok_def)
  have "\<exists>url g1. (case (rd_uri_param_schema r, rd_url_param_pos r) of
               (Some schema, Some positions) \<Rightarrow>
                 do { (data, g) \<leftarrow> generate_data E schema g;
                      url \<leftarrow> substitute_param_with_data (rd_url r) positions data;
                      Some (url, g) }
             | _ \<Rightarrow> Some (rd_url r, g)) = Some (url, g1)"
  proof (cases "rd_uri_param_schema r")
    case (Some s)
    then obtain d g1 where d: "generate_data E s g = Some (d, g1)" using gen by fastforce
    show ?thesis
    proof (cases "rd_url_param_pos r")
      case (Some ps)
      then have "ps = find_param_positions (rd_url r)" "length (find_matches 0 (rd_url r)) \<le> 2"
        using assms by (auto simp: random_ok_def)
      then obtain u where "substitute_param_with_data (rd_url r) ps d = Some u"
        using substitute_two_params [of "rd_url r" d] by auto
      then show ?thesis using d Some \<open>rd_uri_param_schema r = Some s\<close> by simp
    qed (simp add: Some)
  qed simp
  then obtain url g1 where u: "(case (rd_uri_param_schema r, rd_url_param_pos r) of
               (Some schema, Some positions) \<Rightarrow>
                 do { (data, g) \<leftarrow> generate_data E schema g;
                      url \<leftarrow> substitute_param_with_data (rd_url r) positions data;
                      Some (url, g) }
             | _ \<Rightarrow> Some (rd_url r, g)) = Some (url, g1)" by blast
  have "(case (rd_method r = ''POST'', rd_body_schema r) of
               (True, Some schema) \<Rightarrow>
                 map_option (\<lambda>(data, g). (Some (json_text S data), g)) (generate_data E schema g1)
             | _ \<Rightarrow> Some (None, g1)) \<noteq> None"
    using gen by (auto split: option.splits bool.splits) blast
  then show ?thesis unfolding random_data_one_def u by (auto split: bind_splits)
qed

lemma random_data_ok:
  assumes "random_ok E r"
  shows "\<exists>rs r' g'. random_data_get_n S E r n g = Some (Inr rs, r', g') \<and> random_ok E r' \<and> length rs = n"
proof -
  let ?r = "random_data_init r"
  have r: "random_ok E ?r" using assms by (auto simp: random_ok_def random_data_init_def Let_def)
  from repeat_request_ok [of "random_data_one S E ?r" n g, OF random_data_one_ok [OF r]] r
  show ?thesis by (auto simp: random_data_get_n_def Let_def)
qed

lemma json_template_ok:
  assumes "template_ok T t"
  shows "\<exists>rs g'. json_template_get_n S T t n g = Some (Inr rs, t, g') \<and> length rs = n"
proof -
  have "is_string j \<Longrightarrow> json_as_str j \<noteq> None" for j by (cases j) auto
  then have "json_template_one S T t g \<noteq> None" for g
    using assms [unfolded template_ok_def, rule_format, of g]
    by (auto simp: json_template_one_def Let_def case_prod_beta)
  from repeat_request_ok [of "json_template_one S T t" n g, OF this] show ?thesis
    by (auto simp: json_template_get_n_def)
qed

section \<open>The interface of a provider\<close>

text \<open>What the sending loop relies on: asked for at least one request, a well-formed provider neither
  panics nor runs forever, stays well-formed and returns at most as many requests.\<close>

locale request_provider =
  fixes get_n :: "'s \<Rightarrow> usize \<Rightarrow> 'g \<Rightarrow> ((string + http_req list) \<times> 's \<times> 'g) option"
    and ok :: "'s \<Rightarrow> bool"
  assumes get_n_ok: "ok s \<Longrightarrow> 0 < n \<Longrightarrow> \<exists>r s' g'. get_n s n g = Some (r, s', g') \<and> ok s'"
    and get_n_le: "ok s \<Longrightarrow> 0 < n \<Longrightarrow> get_n s n g = Some (Inr rs, s', g') \<Longrightarrow> length rs \<le> n"
begin

lemma get_n_cases:
  assumes "ok s" "0 < n"
  obtains (error) e s' g' where "get_n s n g = Some (Inl e, s', g')" "ok s'"
  | (requests) rs s' g' where "get_n s n g = Some (Inr rs, s', g')" "ok s'" "length rs \<le> n"
proof -
  from get_n_ok [OF assms, of g] obtain r s' g' where "get_n s n g = Some (r, s', g')" "ok s'" by blast
  with get_n_le [OF assms] that show thesis by (cases r) blast+
qed

end

type_synonym ('db, 'g, 'h, 'a) provider_state =
  "('db, 'g) source_env \<times> ('h, 'g) gen_env \<times> ('a, 'g) template_env \<times> ('h, 'a, 'db) request_spec_enum"

definition provider_get_n ::
  "('db, 'g, 'h, 'a) provider_state \<Rightarrow> usize \<Rightarrow> 'g
     \<Rightarrow> ((string + http_req list) \<times> ('db, 'g, 'h, 'a) provider_state \<times> 'g) option" where
  "provider_get_n = (\<lambda>(S, E, T, spec) n g.
     map_option (\<lambda>(r, spec, g). (r, (S, E, T, spec), g)) (get_requests S E T spec n g))"

definition provider_state_ok :: "('db, 'g, 'h, 'a) provider_state \<Rightarrow> bool" where
  "provider_state_ok = (\<lambda>(S, E, T, spec). provider_ok S E T spec)"

lemma get_requests_ok:
  assumes "provider_ok S E T spec" "0 < n"
  shows "\<exists>r spec' g'. get_requests S E T spec n g = Some (r, spec', g') \<and> provider_ok S E T spec'
    \<and> (\<forall>rs. r = Inr rs \<longrightarrow> length rs \<le> n \<and> (\<not> (\<exists>f. spec = RequestFile f) \<longrightarrow> length rs = n))"
proof (cases spec)
  case (RequestList l)
  with assms have "rng_in S" by simp
  from request_list_ok [OF this assms(2), of l g] RequestList \<open>rng_in S\<close> show ?thesis by auto
next
  case (RequestFile f)
  with assms have "rng_in S" "file_ok S f" by simp_all
  from request_file_ok [OF this assms(2), of g] RequestFile \<open>rng_in S\<close> show ?thesis by auto
next
  case (SplitRequestFile f)
  with assms have "split_ok S f" by simp
  from split_file_ok [OF this assms(2), of g] SplitRequestFile show ?thesis by auto
next
  case (RandomDataRequest r)
  with assms have "random_ok E r" by simp
  from random_data_ok [OF this, of S n g] RandomDataRequest show ?thesis by auto
next
  case (JsonTemplateRequest t)
  with assms have "template_ok T t" by simp
  from json_template_ok [OF this, of S n g] JsonTemplateRequest \<open>template_ok T t\<close> show ?thesis by auto
qed

interpretation providers: request_provider provider_get_n provider_state_ok
proof (unfold_locales, goal_cases)
  case (1 s n g)
  obtain S E T spec where "s = (S, E, T, spec)" by (cases s) auto
  with 1 get_requests_ok [of S E T spec n g] show ?case
    by (auto simp: provider_get_n_def provider_state_ok_def)
next
  case (2 s n g rs s' g')
  obtain S E T spec where "s = (S, E, T, spec)" by (cases s) auto
  with 2 get_requests_ok [of S E T spec n g] show ?case
    by (auto simp: provider_get_n_def provider_state_ok_def)
qed

section \<open>Properties\<close>

text \<open>A table for the examples: rows 1 to \<open>db\<close>.\<close>

definition demo_row :: "nat \<Rightarrow> sqlite_row" where
  "demo_row i = \<lparr>row_rowid = int i, row_method = ''GET'', row_url = ''/'', row_body = None, row_headers = []\<rparr>"

definition demo_request :: "nat \<Rightarrow> http_req" where
  "demo_request i = \<lparr>hr_id = show_int (int i), hr_method = ''GET'', hr_url = ''/'', hr_body = None, hr_headers = []\<rparr>"

definition demo_source :: "(nat, unit) source_env" where
  "demo_source =
     \<lparr>rng_usize = (\<lambda>lo hi g. (hi, g)), sqlite_open = (\<lambda>_. Inr 3), db_count = (\<lambda>db. Inr (int db)),
      db_by_ids = (\<lambda>db ids. Inr (map demo_row (filter (\<lambda>i. 1 \<le> i \<and> i \<le> db) (remdups ids)))),
      db_by_range = (\<lambda>db s e. Inr (map demo_row (filter (\<lambda>i. 1 \<le> i \<and> i \<le> db) [s..<e]))),
      method_from = Some, headers_from = (\<lambda>_. None), json_text = (\<lambda>_. [])\<rparr>"

lemma demo_source_rows: "rows_to_requests demo_source (map demo_row is) = Some (map demo_request is)"
  by (induction "is") (simp_all add: http_req_from_row_def demo_row_def demo_request_def demo_source_def)

lemma demo_source_serves: "serves_rows demo_source db db demo_request"
proof -
  have "filter (\<lambda>i. 1 \<le> i \<and> i \<le> db) [s..<e] = [s..<e]" if "1 \<le> s" "e \<le> db + 1" for s e
    using that by (auto simp: filter_id_conv)
  then have "db_by_range demo_source db s e = Inr (map demo_row [s..<e])" if "1 \<le> s" "e \<le> db + 1" for s e
    using that by (simp add: demo_source_def)
  then show ?thesis using demo_source_rows by (auto simp: serves_rows_def)
qed

lemma demo_source_rng: "rng_in demo_source"
  by (simp add: rng_in_def demo_source_def)

definition demo_split :: "nat split_request_file" where
  "demo_split = \<lparr>sf_file_name = ''/tmp/r.sqlite'', sf_inner = None, sf_size = 0,
     range_start_inclusive = 2, range_end_inclusive = 3, next_read_cursor = 0\<rparr>"

text \<open>C10: reading from a split file ends and returns exactly the number of requests asked for: the rows of
  its range in turn from where the last call stopped, cycling through the range; the cursor is left at the row
  after the last one read.\<close>
theorem split_file_reads_cyclically:
  assumes "split_request_file_open S f = Inr (db, f')" "serves_rows S db (sf_size f') row" "0 < n"
    "1 \<le> range_start_inclusive f'" "range_start_inclusive f' \<le> next_read_cursor f'"
    "next_read_cursor f' \<le> range_end_inclusive f'" "range_end_inclusive f' \<le> sf_size f'"
  shows "(let position = cyclic_id (range_start_inclusive f') (range_end_inclusive f') (next_read_cursor f')
          in split_request_file_get_n S f n g
             = Some (Inr (map (\<lambda>i. row (position i)) [0..<n]), f'\<lparr>next_read_cursor := position n\<rparr>, g))"
  using split_read_cycles [OF assms(2) refl refl assms(4,7) refl assms(5,6), of "[]" n n] assms(1,3)
  by (simp add: split_request_file_get_n_def Let_def)

theorem split_file_reads_cyclically_witness:
  "\<exists>f'. split_request_file_get_n demo_source demo_split 5 ()
     = Some (Inr (map demo_request [2, 3, 2, 3, 2]), f', ()) \<and> next_read_cursor f' = 3"
proof -
  let ?f = "demo_split\<lparr>sf_inner := Some 3, sf_size := 3, next_read_cursor := 2\<rparr>"
  have o: "split_request_file_open demo_source demo_split = Inr (3, ?f)"
    by (simp add: split_request_file_open_def demo_split_def demo_source_def Let_def)
  have "serves_rows demo_source 3 (sf_size ?f) demo_request" using demo_source_serves [of 3] by simp
  moreover have "[0..<5] = [0, 1, 2, 3, 4 :: nat]" by (simp add: upt_rec)
  moreover have "map (cyclic_id 2 3 2) [0, 1, 2, 3, 4, 5] = [2, 3, 2, 3, 2, 3]" by code_simp
  ultimately show ?thesis using split_file_reads_cyclically [OF o, of demo_request 5 "()"]
    by (simp add: demo_split_def Let_def)
qed



text \<open>A request file without rows makes its provider panic on the empty range of row ids, where the
  provider of a split file returns an error.\<close>
theorem empty_request_file_panics:
  assumes "sqlite_open S (''sqlite://'' @ rf_file_name f) = Inr db" "db_count S db = Inr 0" "rf_inner f = None" "0 < n"
  shows "request_file_get_n S f n g = None
    \<and> (\<exists>h'. split_request_file_get_n S \<lparr>sf_file_name = rf_file_name f, sf_inner = None, sf_size = s,
         range_start_inclusive = 0, range_end_inclusive = 0, next_read_cursor = 0\<rparr> n g
         = Some (Inl ''Empty request file'', h', g))"
  using assms
  by (simp add: request_file_get_n_def request_file_open_def split_request_file_get_n_def
      split_request_file_open_def i64_as_usize_def take_usize.simps [of S "Suc 0" 0])

theorem empty_request_file_panics_witness:
  "request_file_get_n (demo_source\<lparr>sqlite_open := \<lambda>_. Inr 0\<rparr>) (request_file_new ''r'') 1 () = None"
  using empty_request_file_panics [of "demo_source\<lparr>sqlite_open := \<lambda>_. Inr 0\<rparr>" "request_file_new ''r''" 0 1]
  by (simp add: demo_source_def request_file_new_def)

end
