(* ===== verification/Request_Generator.thy ===== *)
theory Request_Generator
  imports Http_Types
begin

text \<open>
  The generator of a job (\<open>RequestGenerator\<close> in \<open>cluster-executor/src/lib.rs\<close>): built from the
  job description, it yields the rate and the number of connections of one second per poll. The
  lemmas show that the stream ends after exactly as many items as the duration has seconds and that
  the items are what the rate schemes return for the seconds in turn.
\<close>

section \<open>Model\<close>

record 'p request_generator =
  rg_duration :: u32
  rg_time_scale :: u8
  rg_total :: u32
  rg_current_count :: u32
  rg_current_qps :: u32
  rg_shared_provider :: bool
  rg_target :: target
  rg_qps_scheme :: rate_scheme
  rg_concurrent_connection :: rate_scheme
  rg_response_assertion :: "'p response_assertion option"

fun provider_shared :: "('h, 'a, 'db) request_spec_enum \<Rightarrow> bool" where
  "provider_shared (RequestList _) = False"
| "provider_shared (RequestFile _) = True"
| "provider_shared (SplitRequestFile _) = True"
| "provider_shared (RandomDataRequest _) = True"
| "provider_shared (JsonTemplateRequest _) = True"

definition request_generator_new ::
  "u32 \<Rightarrow> ('h, 'a, 'db) request_spec_enum \<Rightarrow> rate_scheme \<Rightarrow> target \<Rightarrow> rate_scheme
     \<Rightarrow> 'p response_assertion option \<Rightarrow> 'p request_generator" where
  "request_generator_new duration requests qps_scheme t concurrent_connection assertion =
     (let time_scale = (1 :: u8); total = duration * ucast time_scale
      in \<lparr>rg_duration = duration, rg_time_scale = time_scale, rg_total = total, rg_current_count = 0,
          rg_current_qps = 0, rg_shared_provider = provider_shared requests, rg_target = t,
          rg_qps_scheme = qps_scheme, rg_concurrent_connection = concurrent_connection,
          rg_response_assertion = assertion\<rparr>)"

fun rate_spec_scheme :: "rate_spec_enum \<Rightarrow> rate_scheme" where
  "rate_spec_scheme (ConstantRate qps) = ConstantScheme qps"
| "rate_spec_scheme (Linear qps) = LinearScheme qps"
| "rate_spec_scheme (ArraySpec qps) = ArrayScheme qps"
| "rate_spec_scheme (Steps qps) = StepsScheme qps"

fun connection_rate_scheme :: "concurrent_connection_rate_spec \<Rightarrow> rate_scheme" where
  "connection_rate_scheme (ConnArraySpec spec) = ArrayScheme spec"
| "connection_rate_scheme (ConnConstantRate spec) = ConstantScheme spec"
| "connection_rate_scheme (ConnLinear spec) = LinearScheme spec"
| "connection_rate_scheme (ConnElastic spec) = ElasticScheme spec"
| "connection_rate_scheme (ConnSteps spec) = StepsScheme spec"

definition request_into_generator :: "('h, 'a, 'p, 'db) request \<Rightarrow> 'p request_generator" where
  "request_into_generator r =
     request_generator_new (rq_duration r) (rq_req r) (rate_spec_scheme (rq_qps r)) (rq_target r)
       (connection_rate_scheme (rq_concurrent_connection r)) (rq_response_assertion r)"

definition generator_poll_next ::
  "'p request_generator \<Rightarrow> (u32 \<times> u32) option \<times> 'p request_generator" where
  "generator_poll_next g =
     (if rg_current_count g \<ge> rg_total g then (None, g)
      else let current_count = rg_current_count g;
               (qps, qs) = scheme_next (rg_qps_scheme g) current_count None;
               (conn, cs) = scheme_next (rg_concurrent_connection g) current_count None
        in (Some (qps, conn), g\<lparr>rg_qps_scheme := qs, rg_concurrent_connection := cs,
                                rg_current_count := current_count + 1\<rparr>))"

text \<open>The items of the stream until it ends.\<close>

function generator_items :: "'p request_generator \<Rightarrow> (u32 \<times> u32) list" where
  "generator_items g =
     (case generator_poll_next g of
        (None, _) \<Rightarrow> []
      | (Some item, g') \<Rightarrow> item # generator_items g')"
  by pat_completeness auto
termination
proof (relation "measure (\<lambda>g. unat (rg_total g) - unat (rg_current_count g))", goal_cases)
  case (2 g x y item)
  then have lt: "rg_current_count g < rg_total g"
      and g': "rg_total y = rg_total g" "rg_current_count y = rg_current_count g + 1"
    by (auto simp: generator_poll_next_def Let_def case_prod_beta split: if_splits)
  have "unat (rg_current_count g + 1) = unat (rg_current_count g) + 1"
    using u32_less_imp_not_max [OF lt] by (rule unat_add_one_u32)
  then show ?case using lt g' by (simp add: word_less_nat_alt)
qed simp

declare generator_items.simps [simp del]

section \<open>The stream\<close>

lemma generator_items_run:
  "unat (rg_current_count g) + n = unat (rg_total g) \<Longrightarrow>
   (let seconds = map of_nat [unat (rg_current_count g) ..< unat (rg_total g)]
    in generator_items g = zip (fst (scheme_run scheme_next (rg_qps_scheme g) seconds))
                               (fst (scheme_run scheme_next (rg_concurrent_connection g) seconds)))"
proof (induction n arbitrary: g)
  case 0
  then have "rg_current_count g = rg_total g" by (simp add: word_unat_eq_iff)
  then show ?case by (subst generator_items.simps) (simp add: generator_poll_next_def)
next
  case (Suc n)
  then have lt: "rg_current_count g < rg_total g" by (simp add: word_less_nat_alt)
  obtain q qs where q: "scheme_next (rg_qps_scheme g) (rg_current_count g) None = (q, qs)" by fastforce
  obtain c cs where c: "scheme_next (rg_concurrent_connection g) (rg_current_count g) None = (c, cs)" by fastforce
  let ?g = "g\<lparr>rg_qps_scheme := qs, rg_concurrent_connection := cs, rg_current_count := rg_current_count g + 1\<rparr>"
  have poll: "generator_poll_next g = (Some (q, c), ?g)" using lt q c by (simp add: generator_poll_next_def Let_def)
  have u: "unat (rg_current_count g + 1) = unat (rg_current_count g) + 1"
    using u32_less_imp_not_max [OF lt] by (rule unat_add_one_u32)
  have seconds: "map of_nat [unat (rg_current_count g) ..< unat (rg_total g)]
      = rg_current_count g # map of_nat [unat (rg_current_count ?g) ..< unat (rg_total ?g)]"
    using lt u by (simp add: word_less_nat_alt upt_conv_Cons)
  have "generator_items g = (q, c) # generator_items ?g"
    by (subst generator_items.simps) (simp add: poll)
  with Suc.IH [of ?g] Suc.prems u show ?case unfolding seconds
    by (simp add: Let_def q c case_prod_beta)
qed

lemma length_scheme_run [simp]: "length (fst (scheme_run f s ns)) = length ns"
  by (induction ns arbitrary: s) (auto simp: Let_def case_prod_beta)

section \<open>Properties\<close>

text \<open>C17: the stream of a job ends, after exactly as many items as the duration has seconds; the
  rates and connection counts are those of the two schemes for the seconds 0, 1, 2, \<dots> in
  turn, and none exceeds the cap of its scheme.\<close>
theorem generator_stream:
  "(let g = request_into_generator r;
        seconds = map of_nat [0 ..< unat (rq_duration r)];
        qps = rate_spec_scheme (rq_qps r);
        conns = connection_rate_scheme (rq_concurrent_connection r)
    in length (generator_items g) = unat (rq_duration r)
       \<and> map fst (generator_items g) = fst (scheme_run scheme_next qps seconds)
       \<and> map snd (generator_items g) = fst (scheme_run scheme_next conns seconds)
       \<and> list_all (\<lambda>(q, c). q \<le> scheme_cap qps \<and> c \<le> scheme_cap conns) (generator_items g))"
proof -
  let ?g = "request_into_generator r"
  let ?seconds = "map of_nat [0 ..< unat (rq_duration r)] :: u32 list"
  let ?qps = "fst (scheme_run scheme_next (rate_spec_scheme (rq_qps r)) ?seconds)"
  let ?conns = "fst (scheme_run scheme_next (connection_rate_scheme (rq_concurrent_connection r)) ?seconds)"
  have items: "generator_items ?g = zip ?qps ?conns"
    using generator_items_run [of ?g "unat (rq_duration r)"]
    by (simp add: request_into_generator_def request_generator_new_def Let_def)
  moreover have "q \<le> scheme_cap (rate_spec_scheme (rq_qps r))" if "q \<in> set ?qps" for q
    using that by (rule schemes.run_le)
  moreover have "c \<le> scheme_cap (connection_rate_scheme (rq_concurrent_connection r))" if "c \<in> set ?conns" for c
    using that by (rule schemes.run_le)
  ultimately show ?thesis
    by (auto simp: Let_def list_all_iff dest: set_zip_leftD set_zip_rightD)
qed

end
