(* ===== verification/Job_Status.thy ===== *)
theory Job_Status
  imports Request_Generator
begin

text \<open>
  The status of jobs: the store \<open>JOB_STATUS\<close> of \<open>cluster-executor/src/lib.rs\<close> with its
  operations, and the parts of the interface that read and change it
  (\<open>overload/src/overload/standalone.rs\<close>, \<open>overload/src/overload/cluster/mod.rs\<close> and the cleanup of
  \<open>overload/src/overload/lib.rs\<close>). The store is a \<open>BTreeMap\<close>: an association list in the order of its
  keys. Every operation holds the lock of the store except the cleanup, which collects the jobs under
  the read lock and removes them under the write lock; these are two operations here.
\<close>

section \<open>Keyed stores\<close>

text \<open>What the program relies on in a map with an insert and a remove; a run of updates leaves every key
  with its last one.\<close>

datatype ('k, 'v) update = Put 'k 'v | Del 'k

fun apply_update :: "('k \<Rightarrow> 'v \<Rightarrow> 'm \<Rightarrow> 'm) \<Rightarrow> ('k \<Rightarrow> 'm \<Rightarrow> 'm) \<Rightarrow> 'm \<Rightarrow> ('k, 'v) update \<Rightarrow> 'm" where
  "apply_update ins del m (Put k v) = ins k v m"
| "apply_update ins del m (Del k) = del k m"

fun last_update :: "'k \<Rightarrow> ('k, 'v) update list \<Rightarrow> 'v option option" where
  "last_update k [] = None"
| "last_update k (u # us) =
     (case last_update k us of
        Some r \<Rightarrow> Some r
      | None \<Rightarrow> (case u of Put j v \<Rightarrow> if j = k then Some (Some v) else None
                 | Del j \<Rightarrow> if j = k then Some None else None))"

locale keyed_store =
  fixes lookup :: "'m \<Rightarrow> 'k \<Rightarrow> 'v option"
    and ins :: "'k \<Rightarrow> 'v \<Rightarrow> 'm \<Rightarrow> 'm"
    and del :: "'k \<Rightarrow> 'm \<Rightarrow> 'm"
    and ok :: "'m \<Rightarrow> bool"
  assumes lookup_ins: "ok m \<Longrightarrow> lookup (ins k v m) = (lookup m)(k \<mapsto> v)"
    and lookup_del: "ok m \<Longrightarrow> lookup (del k m) = (lookup m)(k := None)"
    and ok_ins: "ok m \<Longrightarrow> ok (ins k v m)"
    and ok_del: "ok m \<Longrightarrow> ok (del k m)"
begin

lemma ok_run: "ok m \<Longrightarrow> ok (foldl (apply_update ins del) m us)"
proof (induction us arbitrary: m)
  case (Cons u us)
  then have "ok (apply_update ins del m u)" by (cases u) (simp_all add: ok_ins ok_del)
  with Cons.IH show ?case by simp
qed simp

lemma lookup_run:
  "ok m \<Longrightarrow> lookup (foldl (apply_update ins del) m us) k
     = (case last_update k us of None \<Rightarrow> lookup m k | Some r \<Rightarrow> r)"
proof (induction us arbitrary: m)
  case (Cons u us)
  then have "ok (apply_update ins del m u)" by (cases u) (simp_all add: ok_ins ok_del)
  from Cons.IH [OF this] Cons.prems show ?case
    by (cases u) (auto simp: lookup_ins lookup_del split: option.splits)
qed simp

end

interpretation hash_map: keyed_store map_of map_insert map_remove "\<lambda>m. distinct (map fst m)"
  by unfold_locales (auto simp: map_of_map_insert map_of_map_remove distinct_map_insert distinct_map_remove)

section \<open>The store\<close>

datatype exec_error_code =
    InactiveCluster | NoSecondary | SqliteOpenFailed | PreparationFailed | SecondaryClusterNode
  | RequestFileNotFound | LuaParseFailure | BodyGenerationFailure | UriParamGenerationFailure | Others

datatype job_status = Starting | InProgress | Stopped | Completed | Failed | JobError exec_error_code

type_synonym job_store = "(string \<times> job_status) list"

fun btree_insert :: "'k :: linorder \<Rightarrow> 'v \<Rightarrow> ('k \<times> 'v) list \<Rightarrow> ('k \<times> 'v) list" where
  "btree_insert k v [] = [(k, v)]"
| "btree_insert k v ((a, b) # es) =
     (if k < a then (k, v) # (a, b) # es
      else if k = a then (a, v) # es
      else (a, b) # btree_insert k v es)"

definition btree_ok :: "('k :: linorder \<times> 'v) list \<Rightarrow> bool" where
  "btree_ok m \<longleftrightarrow> sorted_wrt (<) (map fst m)"

definition starts_with :: "string \<Rightarrow> string \<Rightarrow> bool" where
  "starts_with s p \<longleftrightarrow> take (length p) s = p"

definition stop_request_by_job_id :: "string \<Rightarrow> job_store \<Rightarrow> (string \<times> job_status option) list \<times> job_store" where
  "stop_request_by_job_id job_id store =
     (map (\<lambda>(k, s). (k, Some s)) (filter (\<lambda>(k, s). starts_with k job_id) store),
      map (\<lambda>(k, s). (k, if starts_with k job_id then Stopped else s)) store)"

definition get_status_by_job_id :: "string \<Rightarrow> job_store \<Rightarrow> job_store" where
  "get_status_by_job_id job_id store = filter (\<lambda>(k, s). starts_with k job_id) store"

definition get_status_all :: "job_store \<Rightarrow> job_store" where
  "get_status_all store = store"

definition cleanup_collect :: "(job_status \<Rightarrow> bool) \<Rightarrow> job_store \<Rightarrow> string list" where
  "cleanup_collect pred store = map fst (filter (\<lambda>(k, s). pred s) store)"

definition cleanup_remove :: "string list \<Rightarrow> job_store \<Rightarrow> job_store" where
  "cleanup_remove indices store = foldl (\<lambda>m k. map_remove k m) store indices"

definition cleanup_job :: "(job_status \<Rightarrow> bool) \<Rightarrow> job_store \<Rightarrow> job_store" where
  "cleanup_job pred store = cleanup_remove (cleanup_collect pred store) store"

section \<open>The interface\<close>

text \<open>The predicate the cleanup task of \<open>init\<close> passes every 1800 seconds.\<close>

fun cleanup_predicate :: "job_status \<Rightarrow> bool" where
  "cleanup_predicate Failed = True"
| "cleanup_predicate Stopped = True"
| "cleanup_predicate Completed = True"
| "cleanup_predicate _ = False"

fun stop_message :: "job_status option \<Rightarrow> string" where
  "stop_message (Some Starting) = ''Job stopped''"
| "stop_message (Some InProgress) = ''Job stopped''"
| "stop_message (Some Stopped) = ''Job already stopped''"
| "stop_message (Some Completed) = ''Job already completed''"
| "stop_message (Some Failed) = ''Job failed''"
| "stop_message (Some (JobError _)) = ''Invalid job status''"
| "stop_message None = ''Job Not Found''"

definition stop_job :: "string \<Rightarrow> job_store \<Rightarrow> (string \<times> string) list \<times> job_store" where
  "stop_job job_id store =
     (let (result, store) = stop_request_by_job_id job_id store
      in (map (\<lambda>(k, s). (k, stop_message s)) result, store))"

text \<open>The loop of \<open>get_job_status\<close> over the jobs; \<open>n\<close> is its counter.\<close>

fun page_loop :: "usize \<Rightarrow> usize \<Rightarrow> usize \<Rightarrow> usize \<Rightarrow> job_store \<Rightarrow> job_store \<Rightarrow> job_store" where
  "page_loop len offset limit n [] job_status = job_status"
| "page_loop len offset limit n ((jid, status) # jobs) job_status =
     (if n > len then job_status
      else let n = n + 1
        in if n > offset \<and> n - offset > limit then job_status
           else page_loop len offset limit n jobs
                  (if n > offset then map_insert jid status job_status else job_status))"

definition get_job_status :: "string option \<Rightarrow> usize \<Rightarrow> usize \<Rightarrow> job_store \<Rightarrow> job_store" where
  "get_job_status job_id offset limit store =
     (case job_id of
        Some job_id \<Rightarrow> get_status_by_job_id job_id store
      | None \<Rightarrow> (let status_all = get_status_all store
                 in page_loop (length status_all) offset limit 0 status_all []))"

fun handle_get_status :: "job_status_query_params \<Rightarrow> job_store \<Rightarrow> job_store" where
  "handle_get_status (JobId job_id) store = get_job_status (Some job_id) 0 0 store"
| "handle_get_status (PagerOptions offset limit) store = get_job_status None offset limit store"

section \<open>The store is a map in key order\<close>

lemma btree_keys: "fst ` set (btree_insert k v m) = insert k (fst ` set m)"
  by (induction k v m rule: btree_insert.induct) auto

lemma map_of_btree_insert: "btree_ok m \<Longrightarrow> map_of (btree_insert k v m) = (map_of m)(k \<mapsto> v)"
proof (induction k v m rule: btree_insert.induct)
  case (2 k v a b es)
  then show ?case by (auto simp: btree_ok_def fun_upd_twist)
qed simp

lemma btree_ok_insert: "btree_ok m \<Longrightarrow> btree_ok (btree_insert k v m)"
proof (induction k v m rule: btree_insert.induct)
  case (2 k v a b es)
  then show ?case using btree_keys [of k v es] by (force simp: btree_ok_def)
qed (simp add: btree_ok_def)

lemma btree_ok_distinct: "btree_ok m \<Longrightarrow> distinct (map fst m)"
  by (auto simp: btree_ok_def strict_sorted_iff)

lemma btree_ok_filter: "btree_ok m \<Longrightarrow> btree_ok (filter P m)"
  by (induction m) (auto simp: btree_ok_def)

lemma btree_ok_map: "btree_ok m \<Longrightarrow> btree_ok (map (\<lambda>(k, s). (k, f k s)) m)"
  by (simp add: btree_ok_def case_prod_beta comp_def)

lemma btree_ok_remove: "btree_ok m \<Longrightarrow> btree_ok (map_remove k m)"
proof (induction m)
  case (Cons e m)
  then show ?case using set_map_remove_subset [of k m] by (cases e) (force simp: btree_ok_def)
qed simp

interpretation btree: keyed_store map_of btree_insert map_remove btree_ok
  by unfold_locales
    (simp_all add: map_of_btree_insert map_of_map_remove btree_ok_insert btree_ok_remove btree_ok_distinct)

lemma map_of_filter:
  "distinct (map fst m) \<Longrightarrow> map_of (filter (\<lambda>(k, s). P k s) m) k
     = (case map_of m k of Some s \<Rightarrow> if P k s then Some s else None | None \<Rightarrow> None)"
  by (induction m) (auto simp: map_of_eq_None_iff split: option.splits)

lemma map_of_map_values: "map_of (map (\<lambda>(k, s). (k, f k s)) m) k = map_option (f k) (map_of m k)"
  by (induction m) auto

lemma cleanup_remove_eq: "btree_ok m \<Longrightarrow> btree_ok (cleanup_remove ks m) \<and> map_of (cleanup_remove ks m) k
    = (if k \<in> set ks then None else map_of m k)"
proof -
  assume ok: "btree_ok m"
  have del: "cleanup_remove ks m = foldl (apply_update btree_insert map_remove) m (map Del ks)"
    by (simp add: cleanup_remove_def foldl_map)
  have "last_update k (map Del ks) = (if k \<in> set ks then Some (None :: job_status option) else None)"
    by (induction ks) auto
  with btree.lookup_run [OF ok, of "map Del ks" k] btree.ok_run [OF ok, of "map Del ks"] show ?thesis
    unfolding del by simp
qed

lemma page_loop_eq:
  assumes "distinct (map fst jobs)" "fst ` set jobs \<inter> fst ` set acc = {}" "n + length jobs \<le> len"
  shows "page_loop len offset limit n jobs acc
    = acc @ take (limit - (n - offset)) (drop (offset - n) jobs)"
  using assms
proof (induction jobs arbitrary: n acc)
  case (Cons e jobs)
  obtain i s where e: "e = (i, s)" by (cases e)
  have i: "i \<notin> fst ` set acc" "i \<notin> fst ` set jobs" using Cons.prems e by auto
  have ins: "map_insert i s acc = acc @ [(i, s)]" using i(1) by (rule map_insert_append)
  show ?case
  proof (cases "n + 1 > offset")
    case past: True
    show ?thesis
    proof (cases "n + 1 - offset > limit")
      case True
      with past e Cons.prems show ?thesis by simp
    next
      case False
      have "page_loop len offset limit (n + 1) jobs (acc @ [(i, s)])
          = (acc @ [(i, s)]) @ take (limit - (n + 1 - offset)) (drop (offset - (n + 1)) jobs)"
        using Cons.prems i e by (intro Cons.IH) auto
      moreover have "limit - (n - offset) = Suc (limit - (n + 1 - offset))" "offset - n = 0" "offset - (n + 1) = 0"
        using past False by auto
      ultimately show ?thesis using past False e ins Cons.prems by simp
    qed
  next
    case False
    have "page_loop len offset limit (n + 1) jobs acc
        = acc @ take (limit - (n + 1 - offset)) (drop (offset - (n + 1)) jobs)"
      using Cons.prems i e by (intro Cons.IH) auto
    moreover have "offset - n = Suc (offset - (n + 1))" "n - offset = 0" "n + 1 - offset = 0" using False by auto
    ultimately show ?thesis using False e Cons.prems by simp
  qed
qed simp

section \<open>Properties\<close>

text \<open>C27: the ordered store implements a map from job ids to statuses: every operation keeps the
  order of the keys, setting a status updates the map at the id, stopping sets exactly the jobs whose id starts
  with the given text to \<open>Stopped\<close> and reports what they were, a query returns exactly those, and a
  cleanup removes exactly the jobs whose status the predicate selects.\<close>
theorem job_store_refines:
  assumes "btree_ok store"
  shows "btree_ok (btree_insert k v store) \<and> map_of (btree_insert k v store) = (map_of store)(k \<mapsto> v)
    \<and> btree_ok (snd (stop_job j store))
    \<and> map_of (snd (stop_job j store))
        = (\<lambda>i. if starts_with i j then map_option (\<lambda>_. Stopped) (map_of store i) else map_of store i)
    \<and> map_of (fst (stop_job j store))
        = (\<lambda>i. if starts_with i j then map_option (\<lambda>s. stop_message (Some s)) (map_of store i) else None)
    \<and> map_of (get_status_by_job_id j store) = (\<lambda>i. if starts_with i j then map_of store i else None)
    \<and> btree_ok (cleanup_job pred store)
    \<and> map_of (cleanup_job pred store)
        = (\<lambda>i. case map_of store i of None \<Rightarrow> None | Some s \<Rightarrow> if pred s then None else Some s)"
proof -
  note d = btree_ok_distinct [OF assms]
  have stop: "snd (stop_job j store) = map (\<lambda>(k, s). (k, if starts_with k j then Stopped else s)) store"
    "fst (stop_job j store) = map (\<lambda>(k, s). (k, stop_message (Some s))) (filter (\<lambda>(k, s). starts_with k j) store)"
    by (auto simp: stop_job_def stop_request_by_job_id_def Let_def)
  have "k \<in> set (cleanup_collect pred store) \<longleftrightarrow> (\<exists>s. map_of store k = Some s \<and> pred s)" for k
    using d by (force simp: cleanup_collect_def image_iff)
  then have clean: "btree_ok (cleanup_job pred store)" "map_of (cleanup_job pred store) i
      = (case map_of store i of None \<Rightarrow> None | Some s \<Rightarrow> if pred s then None else Some s)" for i
    using cleanup_remove_eq [OF assms, of "cleanup_collect pred store" i]
    by (auto simp: cleanup_job_def split: option.splits)
  have "map_of (snd (stop_job j store)) i
      = (if starts_with i j then map_option (\<lambda>_. Stopped) (map_of store i) else map_of store i)" for i
    by (cases "map_of store i") (simp_all add: stop map_of_map_values)
  moreover have "map_of (fst (stop_job j store)) i
      = (if starts_with i j then map_option (\<lambda>s. stop_message (Some s)) (map_of store i) else None)" for i
    using d by (simp add: stop map_of_map_values map_of_filter split: option.split)
  moreover have "map_of (get_status_by_job_id j store) i = (if starts_with i j then map_of store i else None)" for i
    using d by (simp add: get_status_by_job_id_def map_of_filter split: option.split)
  ultimately show ?thesis
    using clean btree_ok_insert [OF assms] map_of_btree_insert [OF assms] btree_ok_map [OF assms]
    by (simp add: stop fun_eq_iff)
qed

theorem job_store_refines_witness:
  "map_of (snd (stop_job ''a'' [(''a_0'', InProgress), (''a_1'', Completed), (''b'', Starting)])) ''a_1'' = Some Stopped
   \<and> map_of (fst (stop_job ''a'' [(''a_0'', InProgress), (''a_1'', Completed), (''b'', Starting)])) ''a_1''
       = Some ''Job already completed''"
proof -
  have "btree_ok [(''a_0'', InProgress), (''a_1'', Completed), (''b'', Starting)]" by code_simp
  moreover have "starts_with ''a_1'' ''a''" by code_simp
  ultimately show ?thesis using job_store_refines by (simp add: fun_eq_iff)
qed

text \<open>C35: the loop that collects a page of jobs returns exactly the jobs from position \<open>offset\<close> on, at most
  \<open>limit\<close> of them, in the order of their ids.\<close>
theorem get_job_status_page:
  assumes "btree_ok store"
  shows "handle_get_status (PagerOptions offset limit) store = take limit (drop offset store)"
  using page_loop_eq [of store "[]" 0 "length store" offset limit] btree_ok_distinct [OF assms]
  by (simp add: get_job_status_def get_status_all_def Let_def)

theorem get_job_status_page_witness:
  "handle_get_status (PagerOptions 1 1) [(''a'', Starting), (''b'', InProgress), (''c'', Failed)] = [(''b'', InProgress)]"
proof -
  have "btree_ok [(''a'', Starting), (''b'', InProgress), (''c'', Failed)]" by code_simp
  from get_job_status_page [OF this] show ?thesis by simp
qed

end
