(* ===== verification/Cluster_Messages.thy ===== *)
theory Cluster_Messages
  imports Request_Providers Job_Status
begin

text \<open>
  The messages from the primary to the secondaries and the functions that send them
  (\<open>cluster-executor/src/lib.rs\<close>), and the split of a request file among the secondaries
  (\<open>cluster-executor/src/split_request.rs\<close>).

  A sender is one end of a channel to a secondary: it is closed, and sending fails, or the message
  is appended to what the secondary receives. The map of senders is an association list in
  the order in which the program iterates over it. \<open>None\<close> is a panic or a run without an end.
\<close>

section \<open>Messages and senders\<close>

record rate_message =
  rm_qps :: u32
  rm_connections :: u32

datatype ('h, 'a, 'p, 'db) message_from_primary =
    Metadata string
  | Request "('h, 'a, 'p, 'db) request"
  | Rates rate_message
  | Reset
  | Stop
  | Finished

record ('h, 'a, 'p, 'db) sender =
  sn_sent :: "('h, 'a, 'p, 'db) message_from_primary list"
  sn_closed :: bool

type_synonym ('h, 'a, 'p, 'db) senders = "(string \<times> ('h, 'a, 'p, 'db) sender) list"

definition sender_send ::
  "('h, 'a, 'p, 'db) message_from_primary \<Rightarrow> ('h, 'a, 'p, 'db) sender \<Rightarrow> bool \<times> ('h, 'a, 'p, 'db) sender" where
  "sender_send m s = (if sn_closed s then (False, s) else (True, s\<lparr>sn_sent := sn_sent s @ [m]\<rparr>))"

text \<open>A loop over the senders that sends each the message \<open>f\<close> gives for its id, if any; the result
  holds the ids whose send failed.\<close>

fun send_each ::
  "(string \<Rightarrow> ('h, 'a, 'p, 'db) message_from_primary option) \<Rightarrow> ('h, 'a, 'p, 'db) senders
     \<Rightarrow> string list \<times> ('h, 'a, 'p, 'db) senders" where
  "send_each f [] = ([], [])"
| "send_each f ((i, s) # ss) =
     (let (failed, ss) = send_each f ss
      in case f i of
           None \<Rightarrow> (failed, (i, s) # ss)
         | Some m \<Rightarrow> (let (sent, s) = sender_send m s
                      in (if sent then failed else i # failed, (i, s) # ss)))"

definition send_metadata_with_primary ::
  "string \<Rightarrow> ('h, 'a, 'p, 'db) senders \<Rightarrow> string list \<Rightarrow> ('h, 'a, 'p, 'db) senders" where
  "send_metadata_with_primary primary_host senders instances =
     snd (send_each (\<lambda>i. if i \<in> set instances then Some (Metadata primary_host) else None) senders)"

definition send_end_msg ::
  "bool \<Rightarrow> ('h, 'a, 'p, 'db) sender \<Rightarrow> ('h, 'a, 'p, 'db) sender" where
  "send_end_msg stop s = snd (sender_send (if stop then Stop else Finished) s)"

definition require_reset :: "('h, 'a, 'p, 'db) request \<Rightarrow> bool" where
  "require_reset r = (case rq_req r of SplitRequestFile _ \<Rightarrow> True | _ \<Rightarrow> False)"

fun spec_clone :: "('h, 'a, 'db) request_spec_enum \<Rightarrow> ('h, 'a, 'db) request_spec_enum" where
  "spec_clone (RequestFile f) = RequestFile (request_file_clone f)"
| "spec_clone (SplitRequestFile f) = SplitRequestFile (split_request_file_clone f)"
| "spec_clone s = s"

definition request_clone :: "('h, 'a, 'p, 'db) request \<Rightarrow> ('h, 'a, 'p, 'db) request" where
  "request_clone r = r\<lparr>rq_req := spec_clone (rq_req r)\<rparr>"

section \<open>Splitting a file\<close>

text \<open>One of the two loops: \<open>n\<close> ranges of \<open>block\<close> rows after \<open>last_end\<close>.\<close>

fun split_loop :: "nat \<Rightarrow> usize \<Rightarrow> usize \<Rightarrow> usize \<Rightarrow> (usize \<times> usize) list \<times> usize" where
  "split_loop n size_of block last_end =
     (if n = 0 then ([], last_end)
      else let new_end = min size_of (last_end + block);
               (splits, e) = split_loop (n - 1) size_of block new_end
        in ((min (last_end + 1) size_of, new_end) # splits, e))"

declare split_loop.simps [simp del]

definition split_ranges :: "usize \<Rightarrow> usize \<Rightarrow> (usize \<times> usize) list option" where
  "split_ranges size_of split_size =
     (if split_size = 0 then None
      else let block_size = size_of div split_size;
               remainder = size_of mod split_size;
               (splits, last_end) = split_loop remainder size_of (block_size + 1) 0
        in Some (splits @ fst (split_loop (split_size - remainder) size_of block_size last_end)))"

fun send_splits ::
  "('h, 'a, 'p, 'db) request \<Rightarrow> 'db split_request_file \<Rightarrow> (usize \<times> usize) list \<Rightarrow> ('h, 'a, 'p, 'db) senders
     \<Rightarrow> (string list \<times> ('h, 'a, 'p, 'db) senders) option" where
  "send_splits request req splits [] = Some ([], [])"
| "send_splits request req splits ((i, s) # ss) =
     (case splits of
        [] \<Rightarrow> None
      | r # splits \<Rightarrow>
          (let request_i = (request_clone request)\<lparr>rq_req := SplitRequestFile (clone_with_new_range req r)\<rparr>;
               (_, s) = sender_send (Request request_i) s
           in map_option (\<lambda>(error_instances, ss). (i # error_instances, (i, s) # ss)) (send_splits request req splits ss)))"

definition process_and_send_request ::
  "('db, 'g) source_env \<Rightarrow> ('h, 'a, 'p, 'db) request \<Rightarrow> ('h, 'a, 'p, 'db) senders \<Rightarrow> 'g
     \<Rightarrow> ((string list + unit) \<times> ('h, 'a, 'p, 'db) senders) option" where
  "process_and_send_request S request senders g =
     (case rq_req request of
        SplitRequestFile req \<Rightarrow>
          (case split_request_file_get_n S req 1 g of
             None \<Rightarrow> None
           | Some (Inl e, req, _) \<Rightarrow> Some (Inr (), senders)
           | Some (Inr _, req, _) \<Rightarrow>
               do { splits \<leftarrow> split_ranges (provider_size_hint (SplitRequestFile req :: ('h, 'a, 'db) request_spec_enum)) (length senders);
                    (error_instances, senders) \<leftarrow> send_splits (request_clone request) req splits senders;
                    Some (if error_instances = [] then Inr () else Inl error_instances, senders) })
      | _ \<Rightarrow> Some (Inr (), senders))"

definition send_request_to_secondary ::
  "('db, 'g) source_env \<Rightarrow> ('h, 'a, 'p, 'db) request \<Rightarrow> ('h, 'a, 'p, 'db) senders \<Rightarrow> string list \<Rightarrow> 'g
     \<Rightarrow> ((string list + unit) \<times> ('h, 'a, 'p, 'db) senders) option" where
  "send_request_to_secondary S request senders instances g =
     (case rq_req request of
        SplitRequestFile _ \<Rightarrow> process_and_send_request S (request_clone request) senders g
      | _ \<Rightarrow> (let (error_instances, senders) =
                  send_each (\<lambda>i. if i \<in> set instances then Some (Request (request_clone request)) else None) senders
              in Some (if error_instances = [] then Inr () else Inl error_instances, senders)))"

section \<open>The ranges of a split\<close>

lemma split_loop_eq:
  "last_end + n * block \<le> size_of \<Longrightarrow> 0 < block \<Longrightarrow>
   split_loop n size_of block last_end
     = (map (\<lambda>i. (last_end + i * block + 1, last_end + (i + 1) * block)) [0..<n], last_end + n * block)"
proof (induction n arbitrary: last_end)
  case 0
  show ?case by (simp add: split_loop.simps)
next
  case (Suc n)
  then have m: "min size_of (last_end + block) = last_end + block" "min (last_end + 1) size_of = last_end + 1" by auto
  have "split_loop n size_of block (last_end + block)
      = (map (\<lambda>i. (last_end + block + i * block + 1, last_end + block + (i + 1) * block)) [0..<n], last_end + block + n * block)"
    using Suc.prems by (intro Suc.IH) auto
  then have "split_loop (Suc n) size_of block last_end
      = ((last_end + 1, last_end + block) # map (\<lambda>i. (last_end + block + i * block + 1, last_end + block + (i + 1) * block)) [0..<n],
         last_end + block + n * block)"
    unfolding split_loop.simps [of "Suc n"] m by (simp add: Let_def)
  moreover have "[0..<Suc n] = 0 # map Suc [0..<n]" by (simp add: map_Suc_upt upt_conv_Cons)
  ultimately show ?case by (simp add: algebra_simps comp_def)
qed

lemma split_loop_empty_block:
  "0 < size_of \<Longrightarrow> split_loop n size_of 0 size_of = (replicate n (size_of, size_of), size_of)"
  by (induction n) (simp_all add: split_loop.simps [of 0] split_loop.simps [of "Suc _"])

definition range_rows :: "(usize \<times> usize) list \<Rightarrow> usize list" where
  "range_rows splits = concat (map (\<lambda>(a, b). [a..<b + 1]) splits)"

lemma upt_append: "a \<le> b \<Longrightarrow> b \<le> c \<Longrightarrow> [a..<b] @ [b..<c] = [a..<c :: nat]"
  using upt_add_eq_append [of a b "c - b"] by simp

lemma range_rows_append: "range_rows (xs @ ys) = range_rows xs @ range_rows ys"
  by (simp add: range_rows_def)

lemma range_rows_blocks:
  "0 < block \<Longrightarrow> range_rows (map (\<lambda>i. (last_end + i * block + 1, last_end + (i + 1) * block)) [0..<n])
     = [last_end + 1..<last_end + n * block + 1]"
proof (induction n)
  case (Suc n)
  then have "range_rows (map (\<lambda>i. (last_end + i * block + 1, last_end + (i + 1) * block)) [0..<Suc n])
      = [last_end + 1..<last_end + n * block + 1] @ [last_end + n * block + 1..<last_end + (n + 1) * block + 1]"
    by (simp add: range_rows_append) (simp add: range_rows_def)
  also have "\<dots> = [last_end + 1..<last_end + Suc n * block + 1]"
    using upt_add_eq_append [of "last_end + 1" "last_end + n * block + 1" block] by (simp add: algebra_simps)
  finally show ?case .
qed (simp add: range_rows_def)

lemma split_ranges_eq:
  assumes "0 < k" "k \<le> size_of"
  shows "split_ranges size_of k = Some
    (map (\<lambda>i. (i * (size_of div k + 1) + 1, (i + 1) * (size_of div k + 1))) [0..<size_of mod k]
     @ map (\<lambda>i. (size_of mod k * (size_of div k + 1) + i * (size_of div k) + 1,
                 size_of mod k * (size_of div k + 1) + (i + 1) * (size_of div k))) [0..<k - size_of mod k])"
proof -
  let ?b = "size_of div k" and ?r = "size_of mod k"
  have b: "0 < ?b" using assms by (simp add: div_greater_zero_iff)
  have total: "?r * (?b + 1) + (k - ?r) * ?b = size_of"
  proof -
    have "?r \<le> k" using assms by (simp add: less_imp_le)
    then have "?r * (?b + 1) + (k - ?r) * ?b = ?r + k * ?b" by (simp add: algebra_simps)
    then show ?thesis by simp
  qed
  then have "?r * (?b + 1) \<le> size_of" by linarith
  from split_loop_eq [of 0 ?r "?b + 1" size_of] this
  have one: "split_loop ?r size_of (?b + 1) 0
      = (map (\<lambda>i. (i * (?b + 1) + 1, (i + 1) * (?b + 1))) [0..<?r], ?r * (?b + 1))" by simp
  from split_loop_eq [of "?r * (?b + 1)" "k - ?r" ?b size_of] total b
  have two: "fst (split_loop (k - ?r) size_of ?b (?r * (?b + 1)))
      = map (\<lambda>i. (?r * (?b + 1) + i * ?b + 1, ?r * (?b + 1) + (i + 1) * ?b)) [0..<k - ?r]" by simp
  from assms(1) show ?thesis unfolding split_ranges_def Let_def one by (simp only: two prod.case) simp
qed

lemma split_ranges_partition:
  assumes "0 < k" "k \<le> size_of"
  obtains splits where "split_ranges size_of k = Some splits" "length splits = k"
    "range_rows splits = [1..<size_of + 1]"
    "list_all (\<lambda>(a, b). b + 1 - a = size_of div k \<or> b + 1 - a = size_of div k + 1) splits"
proof -
  let ?b = "size_of div k" and ?r = "size_of mod k"
  let ?one = "map (\<lambda>i. (i * (?b + 1) + 1, (i + 1) * (?b + 1))) [0..<?r]"
  let ?two = "map (\<lambda>i. (?r * (?b + 1) + i * ?b + 1, ?r * (?b + 1) + (i + 1) * ?b)) [0..<k - ?r]"
  have b: "0 < ?b" using assms by (simp add: div_greater_zero_iff)
  have r: "?r \<le> k" using assms by (simp add: less_imp_le)
  have total: "?r * (?b + 1) + (k - ?r) * ?b = size_of"
  proof -
    have "?r * (?b + 1) + (k - ?r) * ?b = ?r + k * ?b" using r by (simp add: algebra_simps)
    then show ?thesis by simp
  qed
  have "range_rows ?one = [1..<?r * (?b + 1) + 1]" using range_rows_blocks [of "?b + 1" 0 ?r] by simp
  moreover have "range_rows ?two = [?r * (?b + 1) + 1..<size_of + 1]"
    using range_rows_blocks [OF b, of "?r * (?b + 1)" "k - ?r"] unfolding total .
  moreover have "[1..<?r * (?b + 1) + 1] @ [?r * (?b + 1) + 1..<size_of + 1] = [1..<size_of + 1]"
    using total by (intro upt_append) linarith+
  ultimately have "range_rows (?one @ ?two) = [1..<size_of + 1]" by (simp only: range_rows_append)
  moreover have "list_all (\<lambda>(a, b). b + 1 - a = ?b \<or> b + 1 - a = ?b + 1) (?one @ ?two)"
    by (auto simp: list_all_iff algebra_simps)
  moreover have "length (?one @ ?two) = k" using r by simp
  ultimately show thesis using that [OF split_ranges_eq [OF assms]] by blast
qed

lemma send_splits_open:
  "length splits = length senders \<Longrightarrow> list_all (\<lambda>(i, s). \<not> sn_closed s) senders \<Longrightarrow>
   send_splits request req splits senders
     = Some (map fst senders,
             map2 (\<lambda>(i, s) r. (i, s\<lparr>sn_sent := sn_sent s @ [Request ((request_clone request)
                \<lparr>rq_req := SplitRequestFile (clone_with_new_range req r)\<rparr>)]\<rparr>)) senders splits)"
proof (induction senders arbitrary: splits)
  case (Cons e senders)
  then obtain r rs where "splits = r # rs" by (cases splits) auto
  with Cons show ?case by (cases e) (auto simp: sender_send_def)
qed simp

section \<open>Properties\<close>

text \<open>The ranges of a split: with no more secondaries than rows they are as many as
  the secondaries, contain every row from 1 to the size exactly once and in order, and differ in length by at most one;
  with more secondaries than rows every row is a range of its own and the last row is repeated for the others.\<close>
theorem split_ranges_cover:
  assumes "0 < k" "0 < size_of"
  shows "\<exists>splits. split_ranges size_of k = Some splits \<and> length splits = k
    \<and> (if k \<le> size_of
       then range_rows splits = [1..<size_of + 1]
            \<and> list_all (\<lambda>(a, b). b + 1 - a = size_of div k \<or> b + 1 - a = size_of div k + 1) splits
       else splits = map (\<lambda>i. (i, i)) [1..<size_of + 1] @ replicate (k - size_of) (size_of, size_of))"
proof (cases "k \<le> size_of")
  case True
  obtain splits where "split_ranges size_of k = Some splits" "length splits = k"
    "range_rows splits = [1..<size_of + 1]"
    "list_all (\<lambda>(a, b). b + 1 - a = size_of div k \<or> b + 1 - a = size_of div k + 1) splits"
    by (rule split_ranges_partition [OF assms(1) True])
  with True show ?thesis by (intro exI [of _ splits]) (simp del: upt_Suc)
next
  case False
  have "split_loop size_of size_of 1 0 = (map (\<lambda>i. (i + 1, i + 1)) [0..<size_of], size_of)"
    using split_loop_eq [of 0 size_of 1 size_of] by simp
  moreover have "map (\<lambda>i. (i + 1, i + 1)) [0..<size_of] = map (\<lambda>i. (i, i)) [1..<size_of + 1]"
    by (simp add: map_Suc_upt [symmetric] comp_def del: upt_Suc)
  ultimately have "split_ranges size_of k
      = Some (map (\<lambda>i. (i, i)) [1..<size_of + 1] @ replicate (k - size_of) (size_of, size_of))"
    using False assms split_loop_empty_block [OF assms(2)] by (simp add: split_ranges_def)
  then show ?thesis using False by (simp del: upt_Suc)
qed

theorem split_ranges_cover_witness:
  "\<exists>splits. split_ranges 10 4 = Some splits \<and> length splits = 4 \<and> range_rows splits = [1..<11]"
proof -
  from split_ranges_cover [of 4 10] obtain splits where
    "split_ranges 10 4 = Some splits" "length splits = 4"
    "if 4 \<le> (10 :: nat) then range_rows splits = [1..<10 + 1]
       \<and> list_all (\<lambda>(a, b). b + 1 - a = 10 div 4 \<or> b + 1 - a = 10 div 4 + 1) splits
     else splits = map (\<lambda>i. (i, i)) [1..<10 + 1] @ replicate (4 - 10) (10, 10)" by auto
  then show ?thesis by (intro exI [of _ splits]) simp
qed

text \<open>C32: when a split file is sent to open senders, no more than it has rows, every secondary receives exactly one request, and the
  ranges of these requests contain every row of the file exactly once. The call nevertheless
  reports every secondary as failed.\<close>
theorem split_file_assigned_once:
  assumes "rq_req request = SplitRequestFile req" "split_request_file_get_n S req 1 g = Some (Inr rs, req', g')"
    "senders \<noteq> []" "length senders \<le> sf_size req'" "list_all (\<lambda>(i, s). \<not> sn_closed s) senders"
  shows "\<exists>splits. length splits = length senders \<and> range_rows splits = [1..<sf_size req' + 1]
    \<and> process_and_send_request S request senders g = Some (Inl (map fst senders),
        map2 (\<lambda>(i, s) r. (i, s\<lparr>sn_sent := sn_sent s @ [Request ((request_clone (request_clone request))
          \<lparr>rq_req := SplitRequestFile (clone_with_new_range req' r)\<rparr>)]\<rparr>)) senders splits)"
proof -
  obtain splits where s: "split_ranges (sf_size req') (length senders) = Some splits" "length splits = length senders"
      "range_rows splits = [1..<sf_size req' + 1]"
    using split_ranges_partition [of "length senders" "sf_size req'"] assms(3,4) by (metis length_greater_0_conv)
  from send_splits_open [OF s(2) assms(5), of "request_clone request" req'] s assms(1-3)
  show ?thesis by (intro exI [of _ splits]) (simp add: process_and_send_request_def)
qed

definition demo_split_request :: "(string, string, string, nat) request" where
  "demo_split_request =
     \<lparr>rq_name = Some ''demo'', rq_duration = 60,
      rq_target = \<lparr>t_host = ''example.com'', t_port = 8080, t_protocol = HTTP\<rparr>,
      rq_req = SplitRequestFile (demo_split\<lparr>range_start_inclusive := 0, range_end_inclusive := 0\<rparr>),
      rq_qps = ConstantRate \<lparr>cr_count_per_sec = 7\<rparr>, rq_concurrent_connection = default_concurrent_connection,
      rq_connection_keep_alive = connection_keep_alive_default, rq_histogram_buckets = [],
      rq_response_assertion = None, rq_generation_mode = Immediate\<rparr>"

theorem split_file_assigned_once_witness:
  "\<exists>splits senders. range_rows splits = [1, 2, 3]
     \<and> process_and_send_request demo_source demo_split_request
         [(''a'', \<lparr>sn_sent = [], sn_closed = False\<rparr>), (''b'', \<lparr>sn_sent = [], sn_closed = False\<rparr>)] () = Some (Inl [''a'', ''b''], senders)"
proof -
  let ?f = "demo_split\<lparr>range_start_inclusive := 0, range_end_inclusive := 0\<rparr>"
  let ?f' = "?f\<lparr>sf_inner := Some 3, sf_size := 3, range_start_inclusive := 1, range_end_inclusive := 3, next_read_cursor := 1\<rparr>"
  have o: "split_request_file_open demo_source ?f = Inr (3, ?f')"
    by (simp add: split_request_file_open_def demo_split_def demo_source_def Let_def)
  have "split_read demo_source 3 1 1 [] ?f'
      = Some (Inr ([] @ map (\<lambda>i. demo_request (cyclic_id 1 3 1 i)) [0..<1]), ?f'\<lparr>next_read_cursor := cyclic_id 1 3 1 1\<rparr>)"
    by (rule split_read_cycles [OF demo_source_serves]) simp_all
  then have get: "split_request_file_get_n demo_source ?f 1 ()
      = Some (Inr [demo_request 1], ?f'\<lparr>next_read_cursor := cyclic_id 1 3 1 1\<rparr>, ())"
    by (simp add: split_request_file_get_n_def o cyclic_id_def)
  have r: "rq_req demo_split_request = SplitRequestFile ?f" by (simp add: demo_split_request_def)
  let ?ss = "[(''a'', \<lparr>sn_sent = [], sn_closed = False\<rparr>), (''b'', \<lparr>sn_sent = [], sn_closed = False\<rparr>)]
    :: (string, string, string, nat) senders"
  from split_file_assigned_once [OF r get, of ?ss] obtain splits where
    "range_rows splits = [1..<3 + 1]"
    "process_and_send_request demo_source demo_split_request ?ss () = Some (Inl (map fst ?ss),
        map2 (\<lambda>(i, s) r. (i, s\<lparr>sn_sent := sn_sent s @ [Request ((request_clone (request_clone demo_split_request))
          \<lparr>rq_req := SplitRequestFile (clone_with_new_range (?f'\<lparr>next_read_cursor := cyclic_id 1 3 1 1\<rparr>) r)\<rparr>)]\<rparr>)) ?ss splits)"
    by auto
  moreover have "[1..<3 + 1] = [1, 2, 3 :: nat]" by (simp add: upt_rec)
  ultimately show ?thesis by auto
qed

end
