(* ===== verification/Primary.thy ===== *)
theory Primary
  imports Cluster_Messages
begin

text \<open>
  The primary of a job (\<open>cluster-executor/src/primary.rs\<close>): it connects to the secondaries, sends them the
  request, and once a second divides the rate and the connections of the generator among them; every
  eleventh second it looks for new secondaries.

  Parameters: the nodes the cluster library reports, whether a connection to a node succeeds, and what
  else happens between two seconds (channels that close, changes of the job store by other
  tasks). They are collected in a \<open>tick_env\<close> per second. \<open>None\<close> is a panic of the task.
\<close>

section \<open>Dividing a rate\<close>

definition calculate_req_per_secondary :: "u32 \<Rightarrow> u32 \<Rightarrow> usize \<Rightarrow> (u32 list \<times> u32 list) option" where
  "calculate_req_per_secondary qps connection_count n_secondary =
     (let n = (of_nat n_secondary :: u32)
      in if n = 0 then None
         else let qps_per_secondary = qps div n;
                  qps_remainder = unat qps mod n_secondary;
                  connection_count_per_secondary = connection_count div n;
                  connection_count_remainder = unat connection_count mod n_secondary
           in Some (map (\<lambda>pos. if pos < qps_remainder then qps_per_secondary + 1 else qps_per_secondary) [0..<n_secondary],
                    map (\<lambda>pos. if pos < connection_count_remainder then connection_count_per_secondary + 1
                               else connection_count_per_secondary) [0..<n_secondary]))"

fun send_rates ::
  "nat \<Rightarrow> u32 list \<Rightarrow> u32 list \<Rightarrow> ('h, 'a, 'p, 'db) senders \<Rightarrow> (string list \<times> ('h, 'a, 'p, 'db) senders) option" where
  "send_rates pos qps_to conn_to [] = Some ([], [])"
| "send_rates pos qps_to conn_to ((i, s) # ss) =
     do { q \<leftarrow> vec_get qps_to pos;
          c \<leftarrow> vec_get conn_to pos;
          (let (sent, s) = sender_send (Rates \<lparr>rm_qps = q, rm_connections = c\<rparr>) s
           in map_option (\<lambda>(failed, ss). (if sent then failed else i # failed, (i, s) # ss))
                (send_rates (pos + 1) qps_to conn_to ss)) }"

definition send_rate_message_to_secondaries ::
  "('h, 'a, 'p, 'db) senders \<Rightarrow> u32 \<Rightarrow> u32 \<Rightarrow> ((string list + unit) \<times> ('h, 'a, 'p, 'db) senders) option" where
  "send_rate_message_to_secondaries senders qps connection_count =
     do { (qps_to, conn_to) \<leftarrow> calculate_req_per_secondary qps connection_count (length senders);
          (failed_senders, senders) \<leftarrow> send_rates 0 qps_to conn_to senders;
          Some (if failed_senders = [] then Inr () else Inl failed_senders, senders) }"

section \<open>Finding the secondaries\<close>

record cluster_node =
  nd_instance_id :: "string option"
  nd_ports :: "(string option \<times> u32) list option"
  nd_host :: "string option"

record tick_env =
  tk_secondaries :: "cluster_node list option"
  tk_host :: "string option"
  tk_connect :: "string \<Rightarrow> u16 \<Rightarrow> bool"
  tk_closed :: "string \<Rightarrow> bool"
  tk_jobs :: "job_store \<Rightarrow> job_store"

definition remoc_port_name :: "string option \<Rightarrow> string" where
  "remoc_port_name env_var = (case env_var of None \<Rightarrow> ''tcp-remoc'' | Some n \<Rightarrow> n)"

definition remoc_port :: "string option \<Rightarrow> u16" where
  "remoc_port env_var =
     (case env_var of None \<Rightarrow> 3031
      | Some port \<Rightarrow> (case parse_unsigned 16 port of None \<Rightarrow> 3031 | Some n \<Rightarrow> of_nat n))"

definition get_sender_for_host_port ::
  "(string \<Rightarrow> u16 \<Rightarrow> bool) \<Rightarrow> u16 \<Rightarrow> string \<Rightarrow> ('h, 'a, 'p, 'db) sender option" where
  "get_sender_for_host_port connect port h = (if connect h port then Some \<lparr>sn_sent = [], sn_closed = False\<rparr> else None)"

definition get_sender_for_secondary ::
  "string \<Rightarrow> (string \<Rightarrow> u16 \<Rightarrow> bool) \<Rightarrow> cluster_node \<Rightarrow> ('h, 'a, 'p, 'db) sender option" where
  "get_sender_for_secondary port_name connect n =
     do { ports \<leftarrow> nd_ports n;
          p \<leftarrow> find (\<lambda>p. fst p = Some port_name) ports;
          h \<leftarrow> nd_host n;
          get_sender_for_host_port connect (ucast (snd p)) h }"

fun create_senders_loop ::
  "string \<Rightarrow> (string \<Rightarrow> u16 \<Rightarrow> bool) \<Rightarrow> cluster_node list \<Rightarrow> ('h, 'a, 'p, 'db) senders \<Rightarrow> string list
     \<Rightarrow> (string list \<times> ('h, 'a, 'p, 'db) senders) option" where
  "create_senders_loop port_name connect [] senders new_nodes = Some (new_nodes, senders)"
| "create_senders_loop port_name connect (n # ns) senders new_nodes =
     (case nd_instance_id n of
        None \<Rightarrow> None
      | Some instance_id \<Rightarrow>
          (if map_of senders instance_id = None
           then (case get_sender_for_secondary port_name connect n of
                   Some s \<Rightarrow> create_senders_loop port_name connect ns (map_insert instance_id s senders) (new_nodes @ [instance_id])
                 | None \<Rightarrow> create_senders_loop port_name connect ns senders new_nodes)
           else create_senders_loop port_name connect ns senders new_nodes))"

definition create_senders_for_cluster_nodes ::
  "string \<Rightarrow> tick_env \<Rightarrow> ('h, 'a, 'p, 'db) senders \<Rightarrow> (string list \<times> ('h, 'a, 'p, 'db) senders) option" where
  "create_senders_for_cluster_nodes port_name t senders =
     (case tk_secondaries t of
        None \<Rightarrow> Some ([], senders)
      | Some secondaries \<Rightarrow> create_senders_loop port_name (tk_connect t) secondaries senders [])"

definition send_metadata ::
  "tick_env \<Rightarrow> ('h, 'a, 'p, 'db) senders \<Rightarrow> string list \<Rightarrow> ('h, 'a, 'p, 'db) senders option" where
  "send_metadata t senders instances =
     (case tk_host t of
        None \<Rightarrow> None
      | Some primary_host \<Rightarrow> Some (send_metadata_with_primary primary_host senders instances))"

definition init_senders ::
  "('db, 'g) source_env \<Rightarrow> string \<Rightarrow> tick_env \<Rightarrow> ('h, 'a, 'p, 'db) request \<Rightarrow> ('h, 'a, 'p, 'db) senders \<Rightarrow> 'g
     \<Rightarrow> ('h, 'a, 'p, 'db) senders option" where
  "init_senders S port_name t request senders g =
     do { (new_instances, senders) \<leftarrow> create_senders_for_cluster_nodes port_name t senders;
          senders \<leftarrow> send_metadata t senders new_instances;
          (_, senders) \<leftarrow> send_request_to_secondary S request senders new_instances g;
          Some senders }"

definition reset_request ::
  "('db, 'g) source_env \<Rightarrow> ('h, 'a, 'p, 'db) request \<Rightarrow> ('h, 'a, 'p, 'db) senders \<Rightarrow> 'g
     \<Rightarrow> ('h, 'a, 'p, 'db) senders option" where
  "reset_request S request senders g =
     map_option snd (process_and_send_request S request (snd (send_each (\<lambda>_. Some Reset) senders)) g)"

section \<open>The job\<close>

record ('h, 'a, 'p, 'db) primary_state =
  pr_senders :: "('h, 'a, 'p, 'db) senders"
  pr_counter :: nat
  pr_dropped :: bool
  pr_jobs :: job_store

definition close_senders :: "(string \<Rightarrow> bool) \<Rightarrow> ('h, 'a, 'p, 'db) senders \<Rightarrow> ('h, 'a, 'p, 'db) senders" where
  "close_senders f senders = map (\<lambda>(i, s). (i, s\<lparr>sn_closed := sn_closed s \<or> f i\<rparr>)) senders"

definition is_stopped :: "string \<Rightarrow> job_store \<Rightarrow> bool" where
  "is_stopped job_id jobs \<longleftrightarrow> map_of jobs job_id = Some Stopped"

text \<open>Looking for new secondaries, when the counter is 10.\<close>

definition refresh_secondaries ::
  "('db, 'g) source_env \<Rightarrow> string \<Rightarrow> tick_env \<Rightarrow> ('h, 'a, 'p, 'db) request \<Rightarrow> 'g \<Rightarrow> ('h, 'a, 'p, 'db) primary_state
     \<Rightarrow> ('h, 'a, 'p, 'db) primary_state option" where
  "refresh_secondaries S port_name t request g st =
     do { (new_nodes, senders) \<leftarrow> create_senders_for_cluster_nodes port_name t (pr_senders st);
          (if new_nodes \<noteq> []
           then do { senders \<leftarrow> send_metadata t senders new_nodes;
                     senders \<leftarrow> (if require_reset request then reset_request S (request_clone request) senders g
                                 else map_option snd (send_request_to_secondary S (request_clone request) senders new_nodes g));
                     Some (st\<lparr>pr_senders := senders\<rparr>) }
           else if require_reset request \<and> pr_dropped st
           then do { senders \<leftarrow> reset_request S (request_clone request) senders g;
                     Some (st\<lparr>pr_senders := senders, pr_dropped := False\<rparr>) }
           else Some (st\<lparr>pr_senders := senders\<rparr>)) }"

definition send_tick ::
  "u32 \<Rightarrow> u32 \<Rightarrow> ('h, 'a, 'p, 'db) primary_state \<Rightarrow> ('h, 'a, 'p, 'db) primary_state option" where
  "send_tick qps connection_count st =
     (if pr_senders st \<noteq> []
      then (case send_rate_message_to_secondaries (pr_senders st) qps connection_count of
              None \<Rightarrow> None
            | Some (Inr _, senders) \<Rightarrow> Some (st\<lparr>pr_senders := senders\<rparr>)
            | Some (Inl e, senders) \<Rightarrow>
                Some (st\<lparr>pr_dropped := e \<noteq> [], pr_senders := foldl (\<lambda>m i. map_remove i m) senders e\<rparr>))
      else Some st)"

text \<open>One round of the loop; \<open>Inl\<close> is the \<open>break\<close>.\<close>

definition primary_tick ::
  "('db, 'g) source_env \<Rightarrow> string \<Rightarrow> string \<Rightarrow> ('h, 'a, 'p, 'db) request \<Rightarrow> 'g \<Rightarrow> tick_env \<Rightarrow> u32 \<times> u32
     \<Rightarrow> ('h, 'a, 'p, 'db) primary_state
     \<Rightarrow> (('h, 'a, 'p, 'db) primary_state + ('h, 'a, 'p, 'db) primary_state) option" where
  "primary_tick S port_name job_id request g t item st =
     (let st = st\<lparr>pr_jobs := tk_jobs t (pr_jobs st), pr_senders := close_senders (tk_closed t) (pr_senders st)\<rparr>
      in if pr_counter st mod 5 = 0 \<and> is_stopped job_id (pr_jobs st) then Some (Inl st)
         else do { st \<leftarrow> (if pr_counter st = 10
                          then map_option (\<lambda>st. st\<lparr>pr_counter := 0\<rparr>) (refresh_secondaries S port_name t request g st)
                          else Some (st\<lparr>pr_counter := pr_counter st + 1\<rparr>));
                   st \<leftarrow> send_tick (fst item) (snd item) st;
                   Some (Inr st) })"

text \<open>The loop over the items of the generator, with the number of rounds that were not stopped.\<close>

fun primary_loop ::
  "('db, 'g) source_env \<Rightarrow> string \<Rightarrow> string \<Rightarrow> ('h, 'a, 'p, 'db) request \<Rightarrow> 'g \<Rightarrow> (nat \<Rightarrow> tick_env) \<Rightarrow> nat
     \<Rightarrow> (u32 \<times> u32) list \<Rightarrow> ('h, 'a, 'p, 'db) primary_state \<Rightarrow> (nat \<times> ('h, 'a, 'p, 'db) primary_state) option" where
  "primary_loop S port_name job_id request g ticks n [] st = Some (n, st)"
| "primary_loop S port_name job_id request g ticks n (item # items) st =
     (case primary_tick S port_name job_id request g (ticks n) item st of
        None \<Rightarrow> None
      | Some (Inl st) \<Rightarrow> Some (n, st)
      | Some (Inr st) \<Rightarrow> primary_loop S port_name job_id request g ticks (n + 1) items st)"

text \<open>The whole job. \<open>first\<close> is what happens while the senders are created. The result is
  the senders with everything that was sent, and the job store.\<close>

definition handle_request ::
  "('db, 'g) source_env \<Rightarrow> string \<Rightarrow> ('h, 'a, 'p, 'db) request \<Rightarrow> 'g \<Rightarrow> tick_env \<Rightarrow> (nat \<Rightarrow> tick_env) \<Rightarrow> job_store
     \<Rightarrow> (('h, 'a, 'p, 'db) senders \<times> job_store) option" where
  "handle_request S port_name request g first ticks jobs =
     (case rq_name request of
        None \<Rightarrow> None
      | Some job_id \<Rightarrow>
          (let jobs = btree_insert job_id Starting jobs;
               items = generator_items (request_into_generator (request_clone request))
           in do { senders \<leftarrow> init_senders S port_name first (request_clone request) [] g;
                   (let jobs = btree_insert job_id InProgress (tk_jobs first jobs)
                    in case primary_loop S port_name job_id request g ticks 0 items
                             \<lparr>pr_senders = senders, pr_counter = 0, pr_dropped = False, pr_jobs = jobs\<rparr> of
                         None \<Rightarrow> None
                       | Some (_, st) \<Rightarrow>
                           Some (map (\<lambda>(i, s). (i, send_end_msg False s)) (pr_senders st),
                                 btree_insert job_id Completed (pr_jobs st))) }))"

section \<open>Shares of a rate\<close>

definition share_list :: "u32 \<Rightarrow> usize \<Rightarrow> u32 list" where
  "share_list x n = map (\<lambda>pos. if pos < unat x mod n then x div of_nat n + 1 else x div of_nat n) [0..<n]"

lemma calculate_req_per_secondary_eq:
  assumes "0 < n" "n < 2 ^ 32"
  shows "calculate_req_per_secondary qps conns n = Some (share_list qps n, share_list conns n)"
proof -
  have "(of_nat n :: u32) \<noteq> 0" using assms by (simp add: word_unat_eq_iff unat_of_nat)
  then show ?thesis by (simp add: calculate_req_per_secondary_def share_list_def Let_def)
qed

lemma unat_share_list:
  assumes "0 < n" "n < 2 ^ 32"
  shows "map unat (share_list x n) = map (\<lambda>pos. if pos < unat x mod n then unat x div n + 1 else unat x div n) [0..<n]"
proof -
  have d: "unat (x div of_nat n) = unat x div n" using assms by (simp add: unat_div unat_of_nat)
  have "unat (x div of_nat n + 1) = unat x div n + 1" if "0 < unat x mod n"
  proof -
    have "2 \<le> n" using that assms by (cases "n = 1") auto
    then have "unat x div n \<le> unat x div 2" by (simp add: div_le_mono2)
    moreover have "unat x < 2 ^ 32" using unsigned_less [of x] by simp
    ultimately have "unat (x div of_nat n) < u32_max" by (simp add: d)
    from unat_add_one_u32 [OF this] d show ?thesis by simp
  qed
  then show ?thesis by (auto simp: share_list_def d)
qed

lemma sum_shares: "r \<le> n \<Longrightarrow> sum_list (map (\<lambda>pos. if pos < r then q + 1 else q) [0..<n]) = n * q + (r :: nat)"
proof (induction n arbitrary: r)
  case (Suc n)
  show ?case
  proof (cases "r \<le> n")
    case True
    with Suc.IH [OF True] show ?thesis by simp
  next
    case False
    with Suc.prems have r: "r = Suc n" by simp
    have "map (\<lambda>pos. if pos < Suc n then q + 1 else q) [0..<Suc n] = map (\<lambda>_. q + 1) [0..<Suc n]"
      by (rule map_cong) auto
    then show ?thesis unfolding r by (simp only: sum_list_triv) simp
  qed
qed simp

lemma sum_share_list:
  assumes "0 < n" "n < 2 ^ 32"
  shows "sum_list (map unat (share_list x n)) = unat x"
  unfolding unat_share_list [OF assms] using assms
  by (subst sum_shares) (simp_all add: less_imp_le)

lemma share_list_bounds:
  assumes "0 < n" "n < 2 ^ 32"
  shows "list_all (\<lambda>q. unat q = unat x div n \<or> unat q = unat x div n + 1) (share_list x n)"
proof -
  have "list_all (\<lambda>q. q = unat x div n \<or> q = unat x div n + 1) (map unat (share_list x n))"
    unfolding unat_share_list [OF assms] by (auto simp: list_all_iff)
  then show ?thesis by (simp add: list_all_iff)
qed

lemma length_share_list [simp]: "length (share_list x n) = n"
  by (simp add: share_list_def)

section \<open>What a round sends\<close>

definition rates_of :: "('h, 'a, 'p, 'db) senders \<Rightarrow> u32 \<Rightarrow> u32 \<Rightarrow> ('h, 'a, 'p, 'db) message_from_primary list" where
  "rates_of senders qps conns =
     map2 (\<lambda>q c. Rates \<lparr>rm_qps = q, rm_connections = c\<rparr>)
       (share_list qps (length senders)) (share_list conns (length senders))"

definition push_message ::
  "string \<times> ('h, 'a, 'p, 'db) sender \<Rightarrow> ('h, 'a, 'p, 'db) message_from_primary \<Rightarrow> string \<times> ('h, 'a, 'p, 'db) sender" where
  "push_message = (\<lambda>(i, s) m. (i, if sn_closed s then s else s\<lparr>sn_sent := sn_sent s @ [m]\<rparr>))"

lemma send_rates_eq:
  assumes "pos + length senders \<le> length qs" "length cs = length qs"
  shows "send_rates pos qs cs senders =
    Some (map fst (filter (\<lambda>(i, s). sn_closed s) senders),
          map2 push_message senders (map2 (\<lambda>q c. Rates \<lparr>rm_qps = q, rm_connections = c\<rparr>) (drop pos qs) (drop pos cs)))"
  using assms
proof (induction senders arbitrary: pos)
  case (Cons e senders)
  obtain i s where e: "e = (i, s)" by (cases e)
  have pos: "pos < length qs" "pos < length cs" using Cons.prems by auto
  then have "drop pos qs = qs ! pos # drop (pos + 1) qs" "drop pos cs = cs ! pos # drop (pos + 1) cs"
    by (simp_all add: Cons_nth_drop_Suc)
  with Cons pos e show ?case by (auto simp: vec_get_def sender_send_def push_message_def Let_def)
qed simp

lemma send_rate_message_eq:
  assumes "senders \<noteq> []" "length senders < 2 ^ 32"
  shows "send_rate_message_to_secondaries senders qps conns =
    (let failed = map fst (filter (\<lambda>(i, s). sn_closed s) senders)
     in Some (if failed = [] then Inr () else Inl failed, map2 push_message senders (rates_of senders qps conns)))"
  using calculate_req_per_secondary_eq [of "length senders" qps conns] assms
  by (simp add: send_rate_message_to_secondaries_def send_rates_eq rates_of_def Let_def)

section \<open>The session of a secondary\<close>

text \<open>What a secondary expects: metadata, the request, possibly after a reset, then rates and resets that
  are followed by a new request, and at the end a stop or finish message.\<close>

datatype session_state = AwaitMetadata | AwaitRequest | AwaitRequestAfterReset | Running | Resetting | Ended | Violated

fun session_step :: "session_state \<Rightarrow> ('h, 'a, 'p, 'db) message_from_primary \<Rightarrow> session_state" where
  "session_step AwaitMetadata (Metadata _) = AwaitRequest"
| "session_step AwaitRequest (Request _) = Running"
| "session_step AwaitRequest Reset = AwaitRequestAfterReset"
| "session_step AwaitRequestAfterReset (Request _) = Running"
| "session_step Running (Rates _) = Running"
| "session_step Running Reset = Resetting"
| "session_step Running Stop = Ended"
| "session_step Running Finished = Ended"
| "session_step Resetting (Request _) = Running"
| "session_step _ _ = Violated"

definition session_of :: "('h, 'a, 'p, 'db) message_from_primary list \<Rightarrow> session_state" where
  "session_of ms = foldl session_step AwaitMetadata ms"

lemma session_of_snoc [simp]: "session_of (ms @ [m]) = session_step (session_of ms) m"
  by (simp add: session_of_def)

text \<open>An open sender is in the given state; a closed one has not violated the protocol.\<close>

definition sender_in :: "session_state \<Rightarrow> ('h, 'a, 'p, 'db) sender \<Rightarrow> bool" where
  "sender_in q s \<longleftrightarrow> session_of (sn_sent s) \<noteq> Violated \<and> (\<not> sn_closed s \<longrightarrow> session_of (sn_sent s) = q)"

definition senders_in :: "session_state \<Rightarrow> ('h, 'a, 'p, 'db) senders \<Rightarrow> bool" where
  "senders_in q ss \<longleftrightarrow> list_all (\<lambda>e. sender_in q (snd e)) ss"

lemma sender_in_push:
  "sender_in q s \<Longrightarrow> session_step q m = q' \<Longrightarrow> q' \<noteq> Violated \<Longrightarrow> sender_in q' (snd (push_message (i, s) m))"
  by (auto simp: sender_in_def push_message_def)

lemma fst_push_message [simp]: "fst (push_message e m) = fst e"
  by (cases e) (simp add: push_message_def)

lemma senders_in_push:
  assumes "senders_in q ss" "length ms = length ss" "\<And>m. m \<in> set ms \<Longrightarrow> session_step q m = q'" "q' \<noteq> Violated"
  shows "senders_in q' (map2 push_message ss ms)" "map fst (map2 push_message ss ms) = map fst ss"
proof -
  show "map fst (map2 push_message ss ms) = map fst ss"
    using assms(2) by (induction ss ms rule: list_induct2') auto
  have "sender_in q' (snd (push_message e m))" if "(e, m) \<in> set (zip ss ms)" for e m
  proof -
    have "e \<in> set ss" "m \<in> set ms" using that by (auto dest: set_zip_leftD set_zip_rightD)
    then show ?thesis using assms sender_in_push [of q "snd e" m q' "fst e"]
      by (auto simp: senders_in_def list_all_iff)
  qed
  then show "senders_in q' (map2 push_message ss ms)" by (auto simp: senders_in_def list_all_iff)
qed

lemma send_each_eq:
  "snd (send_each f ss) = map (\<lambda>(i, s). case f i of None \<Rightarrow> (i, s) | Some m \<Rightarrow> push_message (i, s) m) ss"
  by (induction f ss rule: send_each.induct)
    (auto simp: Let_def sender_send_def push_message_def case_prod_beta split: option.splits)

lemma send_each_all: "snd (send_each (\<lambda>_. Some m) ss) = map2 push_message ss (replicate (length ss) m)"
  unfolding send_each_eq by (induction ss) auto

lemma send_splits_eq:
  "length ss \<le> length splits \<Longrightarrow> send_splits request req splits ss
     = Some (map fst ss, map2 push_message ss (map (\<lambda>r. Request ((request_clone request)
                \<lparr>rq_req := SplitRequestFile (clone_with_new_range req r)\<rparr>)) splits))"
proof (induction ss arbitrary: splits)
  case (Cons e ss)
  then obtain r rs where "splits = r # rs" by (cases splits) auto
  with Cons show ?case by (cases e) (auto simp: sender_send_def push_message_def)
qed simp

lemma length_split_loop [simp]: "length (fst (split_loop n size_of block e)) = n"
proof (induction n arbitrary: e)
  case 0
  show ?case by (simp add: split_loop.simps)
next
  case (Suc n)
  then show ?case by (simp add: split_loop.simps [of "Suc n"] Let_def case_prod_beta)
qed

lemma split_ranges_length: "0 < k \<Longrightarrow> \<exists>splits. split_ranges size_of k = Some splits \<and> length splits = k"
  by (auto simp: split_ranges_def Let_def case_prod_beta less_imp_le)

lemma fresh_session: "sender_in AwaitMetadata \<lparr>sn_sent = [], sn_closed = False\<rparr>"
  by (simp add: sender_in_def session_of_def)

section \<open>New secondaries\<close>

abbreviation fresh :: "('h, 'a, 'p, 'db) sender" where
  "fresh \<equiv> \<lparr>sn_sent = [], sn_closed = False\<rparr>"

definition nodes_ok :: "string set \<Rightarrow> cluster_node list \<Rightarrow> bool" where
  "nodes_ok N ns \<longleftrightarrow> (\<forall>n \<in> set ns. \<exists>i \<in> N. nd_instance_id n = Some i)"

definition tick_ok :: "string set \<Rightarrow> tick_env \<Rightarrow> bool" where
  "tick_ok N t \<longleftrightarrow> tk_host t \<noteq> None \<and> pred_option (nodes_ok N) (tk_secondaries t)"

lemma get_sender_fresh: "get_sender_for_secondary port_name connect n = Some s \<Longrightarrow> s = fresh"
  by (auto simp: get_sender_for_secondary_def get_sender_for_host_port_def split: bind_splits if_splits)

lemma create_senders_loop_eq:
  fixes ss :: "('h, 'a, 'p, 'db) senders"
  shows "nodes_ok N ns \<Longrightarrow> distinct (map fst ss) \<Longrightarrow>
   \<exists>added. create_senders_loop port_name connect ns ss new = Some (new @ added, ss @ map (\<lambda>i. (i, fresh)) added)
     \<and> distinct (map fst ss @ added) \<and> set added \<subseteq> N"
proof (induction ns arbitrary: ss new)
  case (Cons n ns)
  then obtain i where i: "nd_instance_id n = Some i" "i \<in> N" and ns: "nodes_ok N ns" by (auto simp: nodes_ok_def)
  show ?case
  proof (cases "map_of ss i = None \<and> get_sender_for_secondary port_name connect n \<noteq> (None :: ('h, 'a, 'p, 'db) sender option)")
    case True
    then have s: "get_sender_for_secondary port_name connect n = Some (fresh :: ('h, 'a, 'p, 'db) sender)"
      using get_sender_fresh by blast
    from True have notin: "i \<notin> fst ` set ss" by (simp add: map_of_eq_None_iff)
    then have ins: "map_insert i fresh ss = ss @ [(i, fresh)]" by (rule map_insert_append)
    have "distinct (map fst (ss @ [(i, fresh)]))" using Cons.prems notin by auto
    from Cons.IH [OF ns this, of "new @ [i]"] obtain added where
      "create_senders_loop port_name connect ns (ss @ [(i, fresh)]) (new @ [i])
         = Some ((new @ [i]) @ added, (ss @ [(i, fresh)]) @ map (\<lambda>i. (i, fresh)) added)"
      "distinct (map fst (ss @ [(i, fresh)]) @ added)" "set added \<subseteq> N" by blast
    with True s i ins show ?thesis by (intro exI [of _ "i # added"]) auto
  next
    case False
    with Cons.IH [OF ns Cons.prems(2), of new] i show ?thesis by (auto split: option.splits)
  qed
qed simp

lemma create_senders_eq:
  assumes "tick_ok N t" "distinct (map fst ss)"
  obtains added where
    "create_senders_for_cluster_nodes port_name t ss = Some (added, ss @ map (\<lambda>i. (i, fresh)) added)"
    "distinct (map fst ss @ added)" "set added \<subseteq> N"
proof (cases "tk_secondaries t")
  case None
  then show thesis using that [of "[]"] assms(2) by (simp add: create_senders_for_cluster_nodes_def)
next
  case (Some ns)
  then have "nodes_ok N ns" using assms(1) by (simp add: tick_ok_def)
  from create_senders_loop_eq [OF this assms(2), of port_name "tk_connect t" "[]"] Some that show thesis
    by (auto simp: create_senders_for_cluster_nodes_def)
qed

lemma spec_clone_idem [simp]: "spec_clone (spec_clone s) = spec_clone s"
  by (cases s) (simp_all add: request_file_clone_def request_file_new_def split_request_file_clone_def)

lemma rq_req_clone [simp]: "rq_req (request_clone r) = spec_clone (rq_req r)"
  by (simp add: request_clone_def)

lemma request_clone_idem [simp]: "request_clone (request_clone r) = request_clone r"
  by (simp add: request_clone_def)

lemma require_reset_clone [simp]: "require_reset (request_clone r) = require_reset r"
  by (cases "rq_req r") (simp_all add: require_reset_def)

text \<open>A split file that can be read when it is sent.\<close>

definition split_ready :: "('db, 'g) source_env \<Rightarrow> ('h, 'a, 'p, 'db) request \<Rightarrow> 'g \<Rightarrow> bool" where
  "split_ready S request g \<longleftrightarrow> (\<forall>f. rq_req request = SplitRequestFile f \<longrightarrow>
     (\<exists>rs f' g'. split_request_file_get_n S (split_request_file_clone f) 1 g = Some (Inr rs, f', g')))"

lemma process_ready:
  assumes "split_ready S request g" "require_reset request" "ss \<noteq> []"
  obtains ms where "process_and_send_request S (request_clone request) ss g = Some (Inl (map fst ss), map2 push_message ss ms)"
    "length ms = length ss" "\<And>m. m \<in> set ms \<Longrightarrow> \<exists>r. m = Request r"
proof -
  from assms(2) obtain f where f: "rq_req request = SplitRequestFile f"
    by (auto simp: require_reset_def split: request_spec_enum.splits)
  with assms(1) obtain rs f' g' where get: "split_request_file_get_n S (split_request_file_clone f) 1 g = Some (Inr rs, f', g')"
    by (auto simp: split_ready_def)
  from assms(3) obtain splits where splits: "split_ranges (sf_size f') (length ss) = Some splits" "length splits = length ss"
    using split_ranges_length [of "length ss" "sf_size f'"] by auto
  let ?ms = "map (\<lambda>r. Request ((request_clone (request_clone (request_clone request)))
      \<lparr>rq_req := SplitRequestFile (clone_with_new_range f' r)\<rparr>)) splits"
  have "process_and_send_request S (request_clone request) ss g = Some (Inl (map fst ss), map2 push_message ss ?ms)"
    using f get splits assms(3) by (simp add: process_and_send_request_def send_splits_eq)
  with splits(2) show thesis by (intro that [of ?ms]) auto
qed

lemma process_without_senders_panics:
  assumes "split_ready S request g" "require_reset request"
  shows "process_and_send_request S (request_clone request) [] g = None"
  using assms by (auto simp: require_reset_def split_ready_def process_and_send_request_def split_ranges_def
      split: request_spec_enum.splits)

lemma senders_in_append [simp]: "senders_in q (xs @ ys) \<longleftrightarrow> senders_in q xs \<and> senders_in q ys"
  by (simp add: senders_in_def)

lemma send_to_added:
  assumes "distinct (map fst ss @ added)"
  shows "snd (send_each (\<lambda>i. if i \<in> set added then Some m else None) (ss @ map (\<lambda>i. (i, s)) added))
    = ss @ map (\<lambda>i. push_message (i, s) m) added"
proof -
  have "i \<notin> set added" if "(i, s) \<in> set ss" for i s using assms that by force
  then have "map (\<lambda>(i, s). case if i \<in> set added then Some m else None of None \<Rightarrow> (i, s) | Some m \<Rightarrow> push_message (i, s) m) ss = ss"
    by (intro map_idI) auto
  then show ?thesis by (simp add: send_each_eq)
qed

lemma metadata_to_new:
  assumes "distinct (map fst ss @ added)"
  shows "send_metadata_with_primary h (ss @ map (\<lambda>i. (i, fresh)) added) added
    = ss @ map (\<lambda>i. (i, \<lparr>sn_sent = [Metadata h], sn_closed = False\<rparr>)) added"
  using send_to_added [OF assms] by (simp add: send_metadata_with_primary_def push_message_def)

lemma request_to_new:
  assumes "distinct (map fst ss @ added)" "\<not> require_reset request"
  shows "map_option snd (send_request_to_secondary S request
      (ss @ map (\<lambda>i. (i, \<lparr>sn_sent = [Metadata h], sn_closed = False\<rparr>)) added) added g)
    = Some (ss @ map (\<lambda>i. (i, \<lparr>sn_sent = [Metadata h, Request (request_clone request)], sn_closed = False\<rparr>)) added)"
proof -
  let ?ss = "ss @ map (\<lambda>i. (i, \<lparr>sn_sent = [Metadata h], sn_closed = False\<rparr>)) added"
  let ?f = "\<lambda>i. if i \<in> set added then Some (Request (request_clone request)) else None"
  have "snd (send_each ?f ?ss)
      = ss @ map (\<lambda>i. (i, \<lparr>sn_sent = [Metadata h, Request (request_clone request)], sn_closed = False\<rparr>)) added"
    using send_to_added [OF assms(1)] by (simp add: push_message_def)
  moreover have "map_option snd (send_request_to_secondary S request ?ss added g) = Some (snd (send_each ?f ?ss))"
    using assms(2) by (auto simp: send_request_to_secondary_def require_reset_def Let_def case_prod_beta
        split: request_spec_enum.splits)
  ultimately show ?thesis by simp
qed

lemma new_senders_in:
  "senders_in AwaitRequest (map (\<lambda>i. (i, \<lparr>sn_sent = [Metadata h], sn_closed = False\<rparr>)) added)"
  "senders_in Running (map (\<lambda>i. (i, \<lparr>sn_sent = [Metadata h, Request r], sn_closed = False\<rparr>)) added)"
  by (simp_all add: senders_in_def sender_in_def session_of_def list_all_iff)

lemma requests_after_reset:
  assumes "\<And>e. e \<in> set ss \<Longrightarrow> sender_in Resetting (snd e) \<or> sender_in AwaitRequestAfterReset (snd e) \<or> sender_in AwaitRequest (snd e)"
    "\<And>m. m \<in> set ms \<Longrightarrow> \<exists>r. m = Request r" "length ms = length ss"
  shows "senders_in Running (map2 push_message ss ms)" "map fst (map2 push_message ss ms) = map fst ss"
proof -
  show "map fst (map2 push_message ss ms) = map fst ss"
    using assms(3) by (induction ss ms rule: list_induct2') auto
  have "sender_in Running (snd (push_message e m))" if "(e, m) \<in> set (zip ss ms)" for e m
  proof -
    have "e \<in> set ss" "m \<in> set ms" using that by (auto dest: set_zip_leftD set_zip_rightD)
    then obtain r where "m = Request r" using assms(2) by blast
    with assms(1) [OF \<open>e \<in> set ss\<close>] show ?thesis by (cases e) (auto simp: sender_in_def push_message_def)
  qed
  then show "senders_in Running (map2 push_message ss ms)" by (auto simp: senders_in_def list_all_iff)
qed

lemma reset_request_ready:
  assumes "split_ready S request g" "require_reset request" "ss \<noteq> []"
    "\<And>e. e \<in> set ss \<Longrightarrow> sender_in Running (snd e) \<or> sender_in AwaitRequest (snd e)"
  obtains ss' where "reset_request S (request_clone request) ss g = Some ss'" "senders_in Running ss'" "map fst ss' = map fst ss"
proof -
  let ?rs = "map2 push_message ss (replicate (length ss) Reset)"
  have rs: "?rs = map (\<lambda>e. push_message e Reset) ss" by (induction ss) auto
  have "?rs \<noteq> []" using assms(3) by (cases ss) auto
  from process_ready [OF assms(1,2) this] obtain ms where ms:
    "process_and_send_request S (request_clone request) ?rs g = Some (Inl (map fst ?rs), map2 push_message ?rs ms)"
    "length ms = length ?rs" "\<And>m. m \<in> set ms \<Longrightarrow> \<exists>r. m = Request r" by blast
  have "sender_in Resetting (snd e) \<or> sender_in AwaitRequestAfterReset (snd e) \<or> sender_in AwaitRequest (snd e)"
    if e: "e \<in> set ?rs" for e
  proof -
    from e obtain i s where "(i, s) \<in> set ss" "e = push_message (i, s) Reset" unfolding rs by auto
    with assms(4) [of "(i, s)"] sender_in_push [of Running s Reset Resetting i]
      sender_in_push [of AwaitRequest s Reset AwaitRequestAfterReset i] show ?thesis by auto
  qed
  from requests_after_reset [OF this ms(3,2)]
  have "senders_in Running (map2 push_message ?rs ms)" "map fst (map2 push_message ?rs ms) = map fst ?rs" by blast+
  moreover have "map fst ?rs = map fst ss" unfolding rs by simp
  ultimately show thesis using ms(1) that by (simp add: reset_request_def send_each_all)
qed

section \<open>The rounds keep the sessions running\<close>

definition primary_inv :: "string set \<Rightarrow> ('h, 'a, 'p, 'db) primary_state \<Rightarrow> bool" where
  "primary_inv N st \<longleftrightarrow> senders_in Running (pr_senders st) \<and> distinct (map fst (pr_senders st))
     \<and> fst ` set (pr_senders st) \<subseteq> N \<and> pr_counter st \<le> 10"

lemma senders_in_subset: "set xs \<subseteq> set ys \<Longrightarrow> senders_in q ys \<Longrightarrow> senders_in q xs"
  by (auto simp: senders_in_def list_all_iff)

lemma senders_in_distinct_add:
  assumes "distinct (map fst ss @ added)" "fst ` set ss \<subseteq> N" "set added \<subseteq> N"
  shows "distinct (map fst (ss @ map (\<lambda>i. (i, s)) added))" "fst ` set (ss @ map (\<lambda>i. (i, s)) added) \<subseteq> N"
  using assms by (auto simp: comp_def)

lemma refresh_inv:
  assumes t: "tick_ok N t" and ready: "split_ready S request g" and inv: "primary_inv N st"
  shows "case refresh_secondaries S port_name t request g st of
      None \<Rightarrow> require_reset request \<and> pr_senders st = []
    | Some st' \<Rightarrow> primary_inv N st' \<and> pr_jobs st' = pr_jobs st \<and> pr_counter st' = pr_counter st"
proof -
  let ?ss = "pr_senders st"
  from inv have ss: "senders_in Running ?ss" "distinct (map fst ?ss)" "fst ` set ?ss \<subseteq> N" "pr_counter st \<le> 10"
    by (simp_all add: primary_inv_def)
  from create_senders_eq [OF t ss(2)] obtain added where added:
    "create_senders_for_cluster_nodes port_name t ?ss = Some (added, ?ss @ map (\<lambda>i. (i, fresh)) added)"
    "distinct (map fst ?ss @ added)" "set added \<subseteq> N" by blast
  from t obtain h where h: "tk_host t = Some h" by (auto simp: tick_ok_def)
  let ?new = "\<lambda>s. ?ss @ map (\<lambda>i. (i, s)) added"
  note keys = senders_in_distinct_add [OF added(2) ss(3) added(3)]
  have meta: "send_metadata t (?new fresh) added = Some (?new \<lparr>sn_sent = [Metadata h], sn_closed = False\<rparr>)"
    using metadata_to_new [OF added(2)] h by (simp add: send_metadata_def)
  show ?thesis
  proof (cases "added = []")
    case no_new: True
    show ?thesis
    proof (cases "require_reset request \<and> pr_dropped st \<and> ?ss \<noteq> []")
      case True
      have "\<And>e. e \<in> set ?ss \<Longrightarrow> sender_in Running (snd e) \<or> sender_in AwaitRequest (snd e)"
        using ss(1) by (auto simp: senders_in_def list_all_iff)
      from reset_request_ready [OF ready _ _ this] True obtain ss' where
        "reset_request S (request_clone request) ?ss g = Some ss'" "senders_in Running ss'" "map fst ss' = map fst ?ss"
        by blast
      moreover from this(3) have "fst ` set ss' = fst ` set ?ss" by (metis image_set)
      ultimately show ?thesis using no_new added(1) True ss
        by (auto simp: refresh_secondaries_def primary_inv_def)
    next
      case False
      then show ?thesis using no_new added(1) inv process_without_senders_panics [OF ready]
        by (auto simp: refresh_secondaries_def primary_inv_def reset_request_def)
    qed
  next
    case new: False
    show ?thesis
    proof (cases "require_reset request")
      case True
      let ?ss1 = "?new \<lparr>sn_sent = [Metadata h], sn_closed = False\<rparr>"
      have "\<And>e. e \<in> set ?ss1 \<Longrightarrow> sender_in Running (snd e) \<or> sender_in AwaitRequest (snd e)"
        using ss(1) new_senders_in(1) [of h added] by (auto simp: senders_in_def list_all_iff)
      from reset_request_ready [OF ready True _ this] new obtain ss' where
        "reset_request S (request_clone request) ?ss1 g = Some ss'" "senders_in Running ss'" "map fst ss' = map fst ?ss1"
        by blast
      moreover from this(3) have "fst ` set ss' = fst ` set ?ss1" by (metis image_set)
      ultimately show ?thesis using new added(1) True meta keys ss(4)
        by (simp add: refresh_secondaries_def primary_inv_def)
    next
      case False
      from request_to_new [OF added(2), of "request_clone request" S h g] False
      have "map_option snd (send_request_to_secondary S (request_clone request) (?new \<lparr>sn_sent = [Metadata h], sn_closed = False\<rparr>) added g)
          = Some (?new \<lparr>sn_sent = [Metadata h, Request (request_clone request)], sn_closed = False\<rparr>)" by simp
      then show ?thesis using new added(1) False meta keys ss new_senders_in(2) [of h "request_clone request" added]
        by (auto simp: refresh_secondaries_def primary_inv_def)
    qed
  qed
qed

lemma removed_senders:
  "set (foldl (\<lambda>m i. map_remove i m) ss e) \<subseteq> set ss"
  "distinct (map fst ss) \<Longrightarrow> distinct (map fst (foldl (\<lambda>m i. map_remove i m) ss e))"
proof (induction e arbitrary: ss)
  case (Cons i e)
  {
    case 1
    show ?case using Cons.IH(1) [of "map_remove i ss"] set_map_remove_subset [of i ss] by auto
  next
    case 2
    then show ?case using Cons.IH(2) [of "map_remove i ss"] by (simp add: distinct_map_remove)
  }
qed simp_all

lemma send_tick_inv:
  assumes inv: "primary_inv N st" and N: "finite N" "card N < 2 ^ 32"
  obtains st' where "send_tick qps conns st = Some st'" "primary_inv N st'" "pr_jobs st' = pr_jobs st"
    "pr_counter st' = pr_counter st"
proof (cases "pr_senders st = []")
  case True
  then show thesis using that [of st] inv by (simp add: send_tick_def)
next
  case False
  let ?ss = "pr_senders st"
  from inv have ss: "senders_in Running ?ss" "distinct (map fst ?ss)" "fst ` set ?ss \<subseteq> N" "pr_counter st \<le> 10"
    by (simp_all add: primary_inv_def)
  have "length ?ss = card (fst ` set ?ss)" using ss(2) by (metis distinct_card image_set length_map)
  then have len: "length ?ss < 2 ^ 32" using card_mono [OF N(1) ss(3)] N(2) by simp
  let ?ss' = "map2 push_message ?ss (rates_of ?ss qps conns)"
  have rates: "length (rates_of ?ss qps conns) = length ?ss"
    "\<And>m. m \<in> set (rates_of ?ss qps conns) \<Longrightarrow> session_step Running m = Running"
    by (auto simp: rates_of_def)
  from senders_in_push [OF ss(1) rates] have ss': "senders_in Running ?ss'" "map fst ?ss' = map fst ?ss" by simp_all
  then have keys: "fst ` set ?ss' = fst ` set ?ss" "distinct (map fst ?ss')" using ss(2) by (metis image_set, metis)
  define failed where "failed = map fst (filter (\<lambda>(i, s). sn_closed s) ?ss)"
  have send: "send_rate_message_to_secondaries ?ss qps conns = Some (if failed = [] then Inr () else Inl failed, ?ss')"
    using send_rate_message_eq [OF False len] by (simp add: failed_def Let_def)
  show thesis
  proof (cases "failed = []")
    case True
    then show thesis using that [of "st\<lparr>pr_senders := ?ss'\<rparr>"] False send ss' ss keys
      by (simp add: send_tick_def primary_inv_def)
  next
    case failing: False
    let ?rest = "foldl (\<lambda>m i. map_remove i m) ?ss' failed"
    have "senders_in Running ?rest" by (rule senders_in_subset [OF removed_senders(1) ss'(1)])
    moreover have "fst ` set ?rest \<subseteq> N" using removed_senders(1) [of ?ss' failed] keys(1) ss(3) by blast
    ultimately show thesis
      using that [of "st\<lparr>pr_dropped := True, pr_senders := ?rest\<rparr>"] False send failing ss(4)
        removed_senders(2) [OF keys(2), of failed]
      by (simp add: send_tick_def primary_inv_def)
  qed
qed

lemma close_senders_in [simp]:
  "map fst (close_senders f ss) = map fst ss"
  "fst ` set (close_senders f ss) = fst ` set ss"
  "senders_in q ss \<Longrightarrow> senders_in q (close_senders f ss)"
proof -
  show keys: "map fst (close_senders f ss) = map fst ss" by (simp add: close_senders_def case_prod_beta comp_def)
  show "fst ` set (close_senders f ss) = fst ` set ss" using keys by (metis image_set)
  show "senders_in q ss \<Longrightarrow> senders_in q (close_senders f ss)"
    by (auto simp: senders_in_def sender_in_def close_senders_def list_all_iff)
qed

lemma primary_tick_inv:
  assumes t: "tick_ok N t" and ready: "split_ready S request g" and inv: "primary_inv N st"
    and N: "finite N" "card N < 2 ^ 32"
  shows "case primary_tick S port_name job_id request g t item st of
      None \<Rightarrow> require_reset request
    | Some (Inl st') \<Rightarrow> primary_inv N st'
    | Some (Inr st') \<Rightarrow> primary_inv N st' \<and> pr_jobs st' = tk_jobs t (pr_jobs st)
        \<and> pr_counter st' = (if pr_counter st = 10 then 0 else pr_counter st + 1)"
proof -
  let ?st = "st\<lparr>pr_jobs := tk_jobs t (pr_jobs st), pr_senders := close_senders (tk_closed t) (pr_senders st)\<rparr>"
  have inv1: "primary_inv N ?st" using inv by (simp add: primary_inv_def close_senders_in)
  show ?thesis
  proof (cases "pr_counter ?st mod 5 = 0 \<and> is_stopped job_id (pr_jobs ?st)")
    case True
    then show ?thesis using inv1 by (simp add: primary_tick_def Let_def)
  next
    case go: False
    show ?thesis
    proof (cases "pr_counter ?st = 10")
      case ten: True
      from refresh_inv [OF t ready inv1, of port_name] show ?thesis
      proof (cases "refresh_secondaries S port_name t request g ?st")
        case None
        with refresh_inv [OF t ready inv1, of port_name] go ten show ?thesis by (simp add: primary_tick_def Let_def)
      next
        case (Some st2)
        with refresh_inv [OF t ready inv1, of port_name] have st2: "primary_inv N (st2\<lparr>pr_counter := 0\<rparr>)" "pr_jobs st2 = pr_jobs ?st"
          by (simp_all add: primary_inv_def)
        from send_tick_inv [OF st2(1) N, of "fst item" "snd item"] obtain st' where
          "send_tick (fst item) (snd item) (st2\<lparr>pr_counter := 0\<rparr>) = Some st'" "primary_inv N st'"
          "pr_jobs st' = pr_jobs (st2\<lparr>pr_counter := 0\<rparr>)" "pr_counter st' = 0" by auto
        with Some go ten st2(2) show ?thesis by (simp add: primary_tick_def Let_def)
      qed
    next
      case False
      have "primary_inv N (?st\<lparr>pr_counter := pr_counter ?st + 1\<rparr>)" using inv1 False by (simp add: primary_inv_def)
      from send_tick_inv [OF this N, of "fst item" "snd item"] obtain st' where
        "send_tick (fst item) (snd item) (?st\<lparr>pr_counter := pr_counter ?st + 1\<rparr>) = Some st'" "primary_inv N st'"
        "pr_jobs st' = pr_jobs ?st" "pr_counter st' = pr_counter ?st + 1" by auto
      with go False show ?thesis by (auto simp: primary_tick_def Let_def)
    qed
  qed
qed

lemma primary_loop_inv:
  assumes "\<And>i. tick_ok N (ticks i)" "split_ready S request g" "finite N" "card N < 2 ^ 32" "primary_inv N st"
  shows "case primary_loop S port_name job_id request g ticks n items st of
      None \<Rightarrow> require_reset request | Some (m, st') \<Rightarrow> primary_inv N st' \<and> m \<le> n + length items"
  using assms(5)
proof (induction items arbitrary: n st)
  case (Cons item items)
  note tick = primary_tick_inv [OF assms(1) assms(2) Cons.prems assms(3,4), of n port_name job_id item]
  show ?case
  proof (cases "primary_tick S port_name job_id request g (ticks n) item st")
    case None
    with tick show ?thesis by simp
  next
    case (Some r)
    show ?thesis
    proof (cases r)
      case (Inl st')
      with tick Some show ?thesis by simp
    next
      case (Inr st')
      with tick Some have "primary_inv N st'" by simp
      from Cons.IH [OF this, of "n + 1"] Some Inr show ?thesis by (auto split: option.splits)
    qed
  qed
qed simp

lemma init_senders_inv:
  fixes request :: "('h, 'a, 'p, 'db) request"
  assumes t: "tick_ok N t" and ready: "split_ready S request g"
  shows "case init_senders S port_name t (request_clone request) [] g of
      None \<Rightarrow> require_reset request
    | Some ss \<Rightarrow> senders_in Running ss \<and> distinct (map fst ss) \<and> fst ` set ss \<subseteq> N"
proof -
  from create_senders_eq [OF t, of "[] :: ('h, 'a, 'p, 'db) senders"] obtain added where added:
    "create_senders_for_cluster_nodes port_name t ([] :: ('h, 'a, 'p, 'db) senders) = Some (added, map (\<lambda>i. (i, fresh)) added)"
    "distinct added" "set added \<subseteq> N" by auto
  from t obtain h where h: "tk_host t = Some h" by (auto simp: tick_ok_def)
  let ?ss = "map (\<lambda>i. (i, \<lparr>sn_sent = [Metadata h], sn_closed = False\<rparr>)) added :: ('h, 'a, 'p, 'db) senders"
  have meta: "send_metadata t (map (\<lambda>i. (i, fresh)) added) added = Some ?ss"
    using metadata_to_new [of "[] :: ('h, 'a, 'p, 'db) senders" added h] added(2) h by (simp add: send_metadata_def)
  show ?thesis
  proof (cases "require_reset request")
    case False
    from request_to_new [of "[]" added "request_clone request" S h g] added(2) False
    have "map_option snd (send_request_to_secondary S (request_clone request) ?ss added g)
        = Some (map (\<lambda>i. (i, \<lparr>sn_sent = [Metadata h, Request (request_clone request)], sn_closed = False\<rparr>)) added)" by simp
    then show ?thesis using added meta new_senders_in(2) [of h "request_clone request" added]
      by (auto simp: init_senders_def comp_def image_image)
  next
    case True
    then have split: "send_request_to_secondary S (request_clone request) ?ss added g
        = process_and_send_request S (request_clone request) ?ss g"
      by (auto simp: send_request_to_secondary_def require_reset_def split: request_spec_enum.splits)
    show ?thesis
    proof (cases "added = []")
      case empty: True
      show ?thesis using True by (auto split: option.splits)
        (use empty added meta split process_without_senders_panics [OF ready True] in \<open>auto simp: init_senders_def\<close>)
    next
      case False
      then have "?ss \<noteq> []" by simp
      from process_ready [OF ready True this] obtain ms where ms:
        "process_and_send_request S (request_clone request) ?ss g = Some (Inl (map fst ?ss), map2 push_message ?ss ms)"
        "length ms = length ?ss" "\<And>m. m \<in> set ms \<Longrightarrow> \<exists>r. m = Request r" by blast
      have "\<And>e. e \<in> set ?ss \<Longrightarrow> sender_in Resetting (snd e) \<or> sender_in AwaitRequestAfterReset (snd e) \<or> sender_in AwaitRequest (snd e)"
        using new_senders_in(1) [of h added] by (auto simp: senders_in_def list_all_iff)
      from requests_after_reset [OF this ms(3,2)] have run: "senders_in Running (map2 push_message ?ss ms)"
        "map fst (map2 push_message ?ss ms) = added" by (simp_all add: comp_def)
      from run(2) have "fst ` set (map2 push_message ?ss ms) = set added" by (metis image_set)
      with run added meta split ms(1) show ?thesis by (simp add: init_senders_def)
    qed
  qed
qed

section \<open>Stopping\<close>

definition rounds_to_check :: "nat \<Rightarrow> nat" where
  "rounds_to_check c = (if c mod 5 = 0 then 0 else 5 - c mod 5)"

lemma rounds_to_check_le: "rounds_to_check c \<le> 4"
  unfolding rounds_to_check_def by presburger

lemma rounds_to_check_Suc: "c mod 5 \<noteq> 0 \<Longrightarrow> rounds_to_check (c + 1) + 1 = rounds_to_check c"
  by (auto simp: rounds_to_check_def mod_Suc)

lemma primary_loop_stops:
  assumes "\<And>i. tick_ok N (ticks i)" "split_ready S request g" "finite N" "card N < 2 ^ 32"
    and keep: "\<And>i jobs. is_stopped job_id jobs \<Longrightarrow> is_stopped job_id (tk_jobs (ticks i) jobs)"
  shows "primary_inv N st \<Longrightarrow> is_stopped job_id (pr_jobs st) \<Longrightarrow>
    primary_loop S port_name job_id request g ticks n items st = Some (m, st') \<Longrightarrow> m \<le> n + rounds_to_check (pr_counter st)"
proof (induction items arbitrary: n st)
  case (Cons item items)
  note tick = primary_tick_inv [OF assms(1,2) Cons.prems(1) assms(3,4), of n port_name job_id item]
  have stopped: "is_stopped job_id (tk_jobs (ticks n) (pr_jobs st))" using keep Cons.prems(2) .
  show ?case
  proof (cases "pr_counter st mod 5 = 0")
    case True
    with stopped Cons.prems(3) show ?thesis by (auto simp: primary_tick_def Let_def)
  next
    case False
    then have ten: "pr_counter st \<noteq> 10" by auto
    from Cons.prems(3) obtain r where r: "primary_tick S port_name job_id request g (ticks n) item st = Some r"
      by (auto split: option.splits)
    show ?thesis
    proof (cases r)
      case (Inl st1)
      with r False show ?thesis by (auto simp: primary_tick_def Let_def split: bind_splits if_splits)
    next
      case (Inr st1)
      with tick r ten have "primary_inv N st1" "pr_jobs st1 = tk_jobs (ticks n) (pr_jobs st)" "pr_counter st1 = pr_counter st + 1"
        by auto
      with Cons.IH [of st1 "n + 1"] Cons.prems(3) r Inr stopped rounds_to_check_Suc [OF False] show ?thesis by simp
    qed
  qed
qed simp

lemma end_of_session:
  assumes "sender_in Running s"
  shows "session_of (sn_sent (send_end_msg False s)) \<noteq> Violated
    \<and> (sn_closed (send_end_msg False s) \<or> session_of (sn_sent (send_end_msg False s)) = Ended)"
  using assms by (cases "sn_closed s") (simp_all add: sender_in_def send_end_msg_def sender_send_def)

lemma primary_sessions:
  assumes "rq_name request = Some job_id" "finite N" "card N < 2 ^ 32" "tick_ok N first" "\<And>i. tick_ok N (ticks i)"
    "split_ready S request g"
  shows "case handle_request S port_name request g first ticks jobs of
      None \<Rightarrow> require_reset request
    | Some (senders, jobs') \<Rightarrow>
        list_all (\<lambda>(i, s). session_of (sn_sent s) \<noteq> Violated \<and> (sn_closed s \<or> session_of (sn_sent s) = Ended)) senders"
proof (cases "init_senders S port_name first (request_clone request) [] g")
  case None
  then show ?thesis using init_senders_inv [OF assms(4,6), of port_name] assms(1) by (simp add: handle_request_def)
next
  case (Some ss)
  let ?jobs = "btree_insert job_id InProgress (tk_jobs first (btree_insert job_id Starting jobs))"
  let ?st = "\<lparr>pr_senders = ss, pr_counter = 0, pr_dropped = False, pr_jobs = ?jobs\<rparr>"
  let ?items = "generator_items (request_into_generator (request_clone request))"
  have "primary_inv N ?st" using init_senders_inv [OF assms(4,6), of port_name] Some by (simp add: primary_inv_def)
  note inv = primary_loop_inv [where ticks = ticks and port_name = port_name and job_id = job_id and n = 0 and items = ?items,
      OF assms(5,6,2,3) this]
  show ?thesis
  proof (cases "primary_loop S port_name job_id request g ticks 0 ?items ?st")
    case None
    with inv Some assms(1) show ?thesis by (simp add: handle_request_def)
  next
    case loop: (Some r)
    obtain m st' where r: "r = (m, st')" by (cases r)
    have "primary_inv N st'" using inv loop r by simp
    then have "list_all (\<lambda>(i, s). session_of (sn_sent s) \<noteq> Violated \<and> (sn_closed s \<or> session_of (sn_sent s) = Ended))
        (map (\<lambda>(i, s). (i, send_end_msg False s)) (pr_senders st'))"
      using end_of_session by (fastforce simp: primary_inv_def senders_in_def list_all_iff)
    then show ?thesis using Some loop r assms(1) by (simp add: handle_request_def Let_def)
  qed
qed

section \<open>What the secondaries are sent\<close>

text \<open>The messages in all channels satisfy \<open>P\<close>; for a job whose file is not split, every request that is sent is the
  request of the job.\<close>

definition sends_only :: "(('h, 'a, 'p, 'db) message_from_primary \<Rightarrow> bool) \<Rightarrow> ('h, 'a, 'p, 'db) senders \<Rightarrow> bool" where
  "sends_only P ss \<longleftrightarrow> list_all (\<lambda>e. list_all P (sn_sent (snd e))) ss"

definition of_request :: "('h, 'a, 'p, 'db) request \<Rightarrow> ('h, 'a, 'p, 'db) message_from_primary \<Rightarrow> bool" where
  "of_request request m \<longleftrightarrow> (\<forall>r. m = Request r \<longrightarrow> r = request_clone request)"

lemma of_request_simps [simp]:
  "of_request request (Metadata x)" "of_request request (Rates y)" "of_request request Reset" "of_request request Stop"
  "of_request request Finished" "of_request request (Request r) = (r = request_clone request)"
  by (auto simp: of_request_def)

lemma sends_only_simps [simp]:
  "sends_only P []" "sends_only P ((i, s) # ss) \<longleftrightarrow> list_all P (sn_sent s) \<and> sends_only P ss"
  by (simp_all add: sends_only_def)

lemma sends_only_sender_send: "list_all P (sn_sent s) \<Longrightarrow> P m \<Longrightarrow> list_all P (sn_sent (snd (sender_send m s)))"
  by (simp add: sender_send_def)

lemma sends_only_each:
  assumes "sends_only P ss" "\<And>i m. f i = Some m \<Longrightarrow> P m"
  shows "sends_only P (snd (send_each f ss))"
  using assms(1)
proof (induction ss)
  case (Cons e ss)
  obtain i s where e: "e = (i, s)" by (cases e)
  have "list_all P (sn_sent (snd (sender_send m s)))" if "f i = Some m" for m
    using Cons.prems e sends_only_sender_send [of P s m] assms(2) [OF that] by simp
  with Cons e show ?case by (cases "f i") (auto simp: Let_def case_prod_beta)
qed simp

lemma sends_only_insert: "sends_only P ss \<Longrightarrow> list_all P (sn_sent s) \<Longrightarrow> sends_only P (map_insert i s ss)"
  by (induction i s ss rule: map_insert.induct) auto

lemma sends_only_create_loop:
  "create_senders_loop port_name connect ns ss new_nodes = Some (new_nodes', ss') \<Longrightarrow> sends_only P ss \<Longrightarrow> sends_only P ss'"
proof (induction port_name connect ns ss new_nodes rule: create_senders_loop.induct)
  case (2 port_name connect n ns ss new_nodes)
  have "sends_only P (map_insert i fresh ss)" for i using 2(5) by (simp add: sends_only_insert)
  with 2 show ?case by (auto split: option.splits if_splits dest!: get_sender_fresh)
qed simp

lemma sends_only_create:
  "create_senders_for_cluster_nodes port_name t ss = Some (new_nodes, ss') \<Longrightarrow> sends_only P ss \<Longrightarrow> sends_only P ss'"
  by (auto simp: create_senders_for_cluster_nodes_def split: option.splits dest: sends_only_create_loop)

lemma sends_only_metadata:
  "send_metadata t ss instances = Some ss' \<Longrightarrow> sends_only (of_request request) ss \<Longrightarrow> sends_only (of_request request) ss'"
  by (auto simp: send_metadata_def send_metadata_with_primary_def split: option.splits if_splits intro!: sends_only_each)

lemma sends_only_request:
  assumes "send_request_to_secondary S r ss instances g = Some (x, ss')" "\<not> require_reset r"
    "request_clone r = request_clone request" "sends_only (of_request request) ss"
  shows "sends_only (of_request request) ss'"
proof -
  have "ss' = snd (send_each (\<lambda>i. if i \<in> set instances then Some (Request (request_clone r)) else None) ss)"
    using assms(1,2)
    by (cases "rq_req r") (auto simp: require_reset_def send_request_to_secondary_def split: prod.splits)
  then show ?thesis using assms(3,4) by (auto intro!: sends_only_each split: if_splits)
qed

lemma sends_only_rates:
  "send_rates pos qs cs ss = Some (failed, ss') \<Longrightarrow> sends_only (of_request request) ss \<Longrightarrow> sends_only (of_request request) ss'"
proof (induction ss arbitrary: pos failed ss')
  case (Cons e ss)
  obtain i s where "e = (i, s)" by (cases e)
  with Cons.prems Cons.IH show ?case
    by (auto simp: Let_def case_prod_beta bind_eq_Some_conv intro!: sends_only_sender_send)
qed simp

lemma sends_only_remove: "sends_only P ss \<Longrightarrow> sends_only P (foldl (\<lambda>m i. map_remove i m) ss is)"
proof (induction "is" arbitrary: ss)
  case (Cons i "is")
  have "sends_only P (map_remove i ss)"
    using Cons.prems set_map_remove_subset [of i ss] by (auto simp: sends_only_def list_all_iff)
  with Cons.IH show ?case by simp
qed simp

lemma sends_only_close: "sends_only P (close_senders f ss) = sends_only P ss"
  by (induction ss) (auto simp: close_senders_def sends_only_def)

lemma sends_only_send_tick:
  assumes "send_tick q c st = Some st'" "sends_only (of_request request) (pr_senders st)"
  shows "sends_only (of_request request) (pr_senders st')"
proof (cases "pr_senders st = []")
  case False
  with assms(1) obtain qs cs failed ss where "send_rates 0 qs cs (pr_senders st) = Some (failed, ss)"
    and "pr_senders st' = (if failed = [] then ss else foldl (\<lambda>m i. map_remove i m) ss failed)"
    by (auto simp: send_tick_def send_rate_message_to_secondaries_def bind_eq_Some_conv split: option.splits if_splits)
  with sends_only_rates [OF this(1) assms(2)] show ?thesis by (simp add: sends_only_remove)
qed (use assms in \<open>simp add: send_tick_def\<close>)

lemma sends_only_refresh:
  assumes "refresh_secondaries S port_name t request g st = Some st'" "\<not> require_reset request"
    "sends_only (of_request request) (pr_senders st)"
  shows "sends_only (of_request request) (pr_senders st')"
proof -
  from assms(1) obtain new_nodes ss where c: "create_senders_for_cluster_nodes port_name t (pr_senders st) = Some (new_nodes, ss)"
    by (auto simp: refresh_secondaries_def bind_eq_Some_conv)
  note ss = sends_only_create [OF c assms(3)]
  show ?thesis
  proof (cases "new_nodes = []")
    case True
    with assms(1,2) c ss show ?thesis by (auto simp: refresh_secondaries_def)
  next
    case False
    with assms(1,2) c obtain ss1 x ss2 where m: "send_metadata t ss new_nodes = Some ss1"
      and r: "send_request_to_secondary S (request_clone request) ss1 new_nodes g = Some (x, ss2)" and st': "pr_senders st' = ss2"
      by (auto simp: refresh_secondaries_def bind_eq_Some_conv)
    have "sends_only (of_request request) ss2"
      by (rule sends_only_request [OF r]) (simp_all add: assms(2) sends_only_metadata [OF m ss])
    then show ?thesis by (simp add: st')
  qed
qed

lemma sends_only_primary_tick:
  assumes "primary_tick S port_name job_id request g t item st = Some x" "\<not> require_reset request"
    "sends_only (of_request request) (pr_senders st)"
  shows "sends_only (of_request request) (pr_senders (case x of Inl st' \<Rightarrow> st' | Inr st' \<Rightarrow> st'))"
proof -
  define st1 where "st1 = st\<lparr>pr_jobs := tk_jobs t (pr_jobs st), pr_senders := close_senders (tk_closed t) (pr_senders st)\<rparr>"
  have st1: "sends_only (of_request request) (pr_senders st1)" using assms(3) by (simp add: st1_def sends_only_close)
  show ?thesis
  proof (cases "pr_counter st1 mod 5 = 0 \<and> is_stopped job_id (pr_jobs st1)")
    case True
    with assms(1) st1 show ?thesis by (auto simp: primary_tick_def Let_def st1_def)
  next
    case False
    with assms(1) obtain st2 st3 where x: "x = Inr st3" "send_tick (fst item) (snd item) st2 = Some st3"
      and "(pr_counter st1 = 10 \<and> (\<exists>st'. refresh_secondaries S port_name t request g st1 = Some st' \<and> st2 = st'\<lparr>pr_counter := 0\<rparr>))
        \<or> st2 = st1\<lparr>pr_counter := pr_counter st1 + 1\<rparr>"
      by (auto simp: primary_tick_def Let_def st1_def [symmetric] bind_eq_Some_conv split: if_splits)
    then have "sends_only (of_request request) (pr_senders st2)"
      using sends_only_refresh [OF _ assms(2) st1] st1 by auto
    from sends_only_send_tick [OF x(2) this] x(1) show ?thesis by simp
  qed
qed

lemma sends_only_primary_loop:
  assumes "\<not> require_reset request"
  shows "primary_loop S port_name job_id request g ticks n items st = Some (m, st')
    \<Longrightarrow> sends_only (of_request request) (pr_senders st) \<Longrightarrow> sends_only (of_request request) (pr_senders st')"
proof (induction items arbitrary: n st)
  case (Cons item items)
  then show ?case using sends_only_primary_tick [OF _ assms, of S port_name job_id g "ticks n" item st]
    by (auto split: option.splits sum.splits)
qed simp

lemma handle_request_sends_only:
  assumes "handle_request S port_name request g first ticks jobs = Some (senders, jobs')" "\<not> require_reset request"
  shows "sends_only (of_request request) senders"
proof -
  from assms(1) obtain job_id where j: "rq_name request = Some job_id" by (auto simp: handle_request_def split: option.splits)
  with assms(1) obtain ss jobs1 m st' where i: "init_senders S port_name first (request_clone request) [] g = Some ss"
    and l: "primary_loop S port_name job_id request g ticks 0 (generator_items (request_into_generator (request_clone request)))
      \<lparr>pr_senders = ss, pr_counter = 0, pr_dropped = False, pr_jobs = jobs1\<rparr> = Some (m, st')"
    and e: "senders = map (\<lambda>(i, s). (i, send_end_msg False s)) (pr_senders st')"
    by (auto simp: handle_request_def Let_def bind_eq_Some_conv split: option.splits)
  from i obtain new_nodes s1 s2 x where c: "create_senders_for_cluster_nodes port_name first [] = Some (new_nodes, s1)"
    and m: "send_metadata first s1 new_nodes = Some s2"
    and r: "send_request_to_secondary S (request_clone request) s2 new_nodes g = Some (x, ss)"
    by (auto simp: init_senders_def bind_eq_Some_conv)
  have "sends_only (of_request request) s1" by (rule sends_only_create [OF c]) simp
  from sends_only_metadata [OF m this] have "sends_only (of_request request) ss"
    using assms(2) by (intro sends_only_request [OF r]) simp_all
  then have "sends_only (of_request request) (pr_senders st')"
    by (intro sends_only_primary_loop [OF assms(2) l]) simp
  then show ?thesis
    unfolding e by (auto simp: sends_only_def list_all_iff send_end_msg_def sender_send_def split: if_splits)
qed

section \<open>Properties\<close>

text \<open>C16: the rate and the connections of a second are divided exactly: there is one share of each per secondary,
  the shares add up to the whole, and no two shares differ by more than one.\<close>
theorem shares_are_exact:
  assumes "0 < n" "n < 2 ^ 32"
  shows "\<exists>qs cs. calculate_req_per_secondary qps conns n = Some (qs, cs) \<and> length qs = n \<and> length cs = n
    \<and> sum_list (map unat qs) = unat qps \<and> sum_list (map unat cs) = unat conns
    \<and> list_all (\<lambda>q. unat q = unat qps div n \<or> unat q = unat qps div n + 1) qs
    \<and> list_all (\<lambda>c. unat c = unat conns div n \<or> unat c = unat conns div n + 1) cs"
  using calculate_req_per_secondary_eq [OF assms] sum_share_list [OF assms] share_list_bounds [OF assms]
  by simp

theorem shares_are_exact_witness:
  "\<exists>qs cs. calculate_req_per_secondary 15 17 2 = Some (qs, cs) \<and> sum_list (map unat qs) = 15 \<and> sum_list (map unat cs) = 17"
  using shares_are_exact [of 2 15 17] by auto

definition demo_node :: cluster_node where
  "demo_node = \<lparr>nd_instance_id = Some ''a'', nd_ports = Some [(Some ''tcp-remoc'', 3031)], nd_host = Some ''10.0.0.2''\<rparr>"

definition demo_tick :: tick_env where
  "demo_tick = \<lparr>tk_secondaries = Some [demo_node], tk_host = Some ''10.0.0.1'', tk_connect = (\<lambda>_ _. True),
     tk_closed = (\<lambda>_. False), tk_jobs = (\<lambda>jobs. jobs)\<rparr>"

definition demo_list_request :: "(string, string, string, nat) request" where
  "demo_list_request = demo_split_request\<lparr>rq_req := RequestList \<lparr>rl_data = [demo_request 1]\<rparr>\<rparr>"

lemma demo_tick_ok: "tick_ok {''a''} demo_tick"
  by (simp add: tick_ok_def nodes_ok_def demo_tick_def demo_node_def)

lemma demo_list_ready: "split_ready demo_source demo_list_request ()" "\<not> require_reset demo_list_request"
  "rq_name demo_list_request = Some ''demo''"
  by (simp_all add: split_ready_def require_reset_def demo_list_request_def demo_split_request_def)

text \<open>C7: a job whose request is not a split file runs to its end, whatever secondaries come and go, and every secondary
  that is connected at the end has received a complete session: metadata, request, rates and the finish
  message, with a new request after every reset. A closed one has received the beginning of such a session. The same holds of a
  split file unless the task panics.\<close>
theorem primary_sessions_complete:
  assumes "rq_name request = Some job_id" "finite N" "card N < 2 ^ 32" "tick_ok N first" "\<And>i. tick_ok N (ticks i)"
    "split_ready S request g"
  shows "case handle_request S port_name request g first ticks jobs of
      None \<Rightarrow> require_reset request
    | Some (senders, jobs') \<Rightarrow>
        list_all (\<lambda>(i, s). session_of (sn_sent s) \<noteq> Violated \<and> (sn_closed s \<or> session_of (sn_sent s) = Ended)) senders"
  using primary_sessions [where ticks = ticks, OF assms(1-4) assms(5) assms(6)] .

theorem primary_sessions_complete_witness:
  "\<exists>senders jobs'. handle_request demo_source ''tcp-remoc'' demo_list_request () demo_tick (\<lambda>_. demo_tick) [] = Some (senders, jobs')
     \<and> list_all (\<lambda>(i, s). session_of (sn_sent s) \<noteq> Violated \<and> (sn_closed s \<or> session_of (sn_sent s) = Ended)) senders"
  using primary_sessions_complete [OF demo_list_ready(3) _ _ demo_tick_ok demo_tick_ok demo_list_ready(1), of "''tcp-remoc''" "[]"]
    demo_list_ready(2) by (auto split: option.splits)



text \<open>When all secondaries of a split file have been lost and none is found at the next refresh, the
  task of the primary panics: the file is split among no secondaries.\<close>
theorem split_job_panics_without_secondaries:
  assumes "split_ready S request g" "require_reset request" "pr_senders st = []" "pr_dropped st" "pr_counter st = 10"
    "tk_secondaries t = Some [] \<or> tk_secondaries t = None" "\<not> is_stopped job_id (tk_jobs t (pr_jobs st))"
  shows "primary_tick S port_name job_id request g t item st = None"
proof -
  have "create_senders_for_cluster_nodes port_name t ([] :: ('a, 'b, 'c, 'd) senders) = Some ([], [])"
    using assms(6) by (auto simp: create_senders_for_cluster_nodes_def)
  with assms process_without_senders_panics [OF assms(1,2)] show ?thesis
    by (auto simp: primary_tick_def refresh_secondaries_def reset_request_def close_senders_def create_senders_for_cluster_nodes_def)
qed

theorem split_job_panics_without_secondaries_witness:
  "primary_tick demo_source ''tcp-remoc'' ''demo'' demo_split_request () (demo_tick\<lparr>tk_secondaries := None\<rparr>) (7, 2)
     \<lparr>pr_senders = [], pr_counter = 10, pr_dropped = True, pr_jobs = [(''demo'', InProgress)]\<rparr> = None"
proof (rule split_job_panics_without_secondaries)
  let ?f = "demo_split\<lparr>range_start_inclusive := 0, range_end_inclusive := 0\<rparr>"
  let ?f' = "?f\<lparr>sf_inner := Some 3, sf_size := 3, range_start_inclusive := 1, range_end_inclusive := 3, next_read_cursor := 1\<rparr>"
  have clone: "split_request_file_clone ?f = ?f" by (simp add: split_request_file_clone_def demo_split_def)
  have "split_read demo_source 3 1 1 [] ?f'
      = Some (Inr ([] @ map (\<lambda>i. demo_request (cyclic_id 1 3 1 i)) [0..<1]), ?f'\<lparr>next_read_cursor := cyclic_id 1 3 1 1\<rparr>)"
    by (rule split_read_cycles [OF demo_source_serves]) simp_all
  moreover have "split_request_file_open demo_source ?f = Inr (3, ?f')"
    by (simp add: split_request_file_open_def demo_split_def demo_source_def Let_def)
  ultimately show "split_ready demo_source demo_split_request ()"
    by (simp add: split_ready_def demo_split_request_def clone split_request_file_get_n_def)
qed (simp_all add: require_reset_def demo_split_request_def demo_tick_def is_stopped_def)

end
