(* ===== verification/Send_Cycle.thy ===== *)
theory Send_Cycle
  imports Cluster_Messages
begin

text \<open>
  The sending of the requests of one second by a secondary (\<open>cluster-executor/src/secondary.rs\<close>, from
  \<open>handle_rate_msg_v2\<close> to \<open>fill_req_if_less_than_connections\<close>), in the current and the previous version.

  Time and the other tasks are parameters: a \<open>cycle_round\<close> holds what one pass of the loop observes, the
  milliseconds since the start of the cycle at its two readings of the clock, what other tasks did
  to the pool since the last pass, and the readiness of the connections. Only the clock depends on how
  long the loop sleeps, so the sleeping times of the previous version are not part of the
  state. \<open>None\<close> is a panic or a run without an end.
\<close>

section \<open>Generation modes\<close>

definition interval_duration :: "load_generation_mode \<Rightarrow> usize \<Rightarrow> usize \<Rightarrow> u64 option" where
  "interval_duration mode remaining_time remaining_request =
     (case mode of Batch _ \<Rightarrow> None | Immediate \<Rightarrow> Some 1)"

definition bundle_size :: "load_generation_mode \<Rightarrow> usize option" where
  "bundle_size mode = (case mode of Batch _ \<Rightarrow> None | Immediate \<Rightarrow> Some 65535)"

definition mode_wait_on_no_connection :: "load_generation_mode \<Rightarrow> u64" where
  "mode_wait_on_no_connection mode = 2"

definition request_bundle_size :: "string option \<Rightarrow> nat" where
  "request_bundle_size env_var =
     (case env_var of None \<Rightarrow> 50
      | Some n \<Rightarrow> (case parse_unsigned 16 n of None \<Rightarrow> 50 | Some k \<Rightarrow> k))"

definition wait_on_no_connection :: "string option \<Rightarrow> u64" where
  "wait_on_no_connection env_var =
     (case env_var of None \<Rightarrow> 100
      | Some val \<Rightarrow> (case parse_unsigned 64 val of None \<Rightarrow> 100 | Some n \<Rightarrow> n))"

section \<open>Requests for the connections\<close>

text \<open>\<open>fill_req_if_less_than_connections\<close>: requests are repeated from the front until there are as many as
  connections.\<close>

partial_function (option) fill_loop :: "usize \<Rightarrow> usize \<Rightarrow> usize \<Rightarrow> http_req list \<Rightarrow> http_req list option" where
  "fill_loop i need_to_insert available_req requests_to_send =
     (if need_to_insert = 0 then Some requests_to_send
      else if i < available_req
      then (case vec_get requests_to_send i of
              None \<Rightarrow> None
            | Some r \<Rightarrow> fill_loop (i + 1) (need_to_insert - 1) available_req (requests_to_send @ [r]))
      else fill_loop 0 need_to_insert available_req requests_to_send)"

definition fill_req_if_less_than_connections :: "usize \<Rightarrow> usize \<Rightarrow> http_req list \<Rightarrow> http_req list option" where
  "fill_req_if_less_than_connections available_connection available_req requests_to_send =
     fill_loop 0 (usize_sub available_connection available_req) available_req requests_to_send"

text \<open>The spawned task takes the last request that is left for each connection.\<close>

fun pop_requests :: "http_connection list \<Rightarrow> http_req list \<Rightarrow> (http_connection \<times> http_req) list option" where
  "pop_requests [] requests_to_send = Some []"
| "pop_requests (c # cs) requests_to_send =
     (if requests_to_send = [] then None
      else map_option (Cons (c, last requests_to_send)) (pop_requests cs (butlast requests_to_send)))"

section \<open>One pass of the loop\<close>

record cycle_round =
  cy_elapsed :: int
  cy_between :: "queue_pool \<times> metrics \<Rightarrow> queue_pool \<times> metrics"
  cy_ready :: "http_connection list \<Rightarrow> (http_connection \<times> bool) list"
  cy_elapsed_after :: int

text \<open>\<open>sd_sent\<close> are the requests handed to spawned tasks, each with its connection; \<open>sd_lost\<close> the
  connections that were taken from the pool and dropped by an early return.\<close>

record ('s, 'g) send_state =
  sd_remaining :: u32
  sd_pool :: queue_pool
  sd_metrics :: metrics
  sd_tasks :: "pool_task list"
  sd_provider :: 's
  sd_rng :: 'g
  sd_sent :: "(http_connection \<times> http_req) list"
  sd_lost :: "http_connection list"

definition take_connections ::
  "cycle_round \<Rightarrow> u32 \<Rightarrow> ('s, 'g) send_state \<Rightarrow> http_connection list \<times> ('s, 'g) send_state" where
  "take_connections r requested_connection st =
     (let (ts, conns, p, m) = get_connections (cy_ready r) requested_connection (cy_between r (sd_pool st, sd_metrics st))
      in (conns, st\<lparr>sd_pool := p, sd_metrics := m, sd_tasks := sd_tasks st @ ts\<rparr>))"

text \<open>The second half of a pass, with at least one connection; \<open>Inl\<close> leaves the loop. The versions
  differ in what they do when the provider returns no request: the current one returns.\<close>

definition send_batch ::
  "bool \<Rightarrow> ('s \<Rightarrow> usize \<Rightarrow> 'g \<Rightarrow> ((string + http_req list) \<times> 's \<times> 'g) option) \<Rightarrow> cycle_round
     \<Rightarrow> http_connection list \<Rightarrow> ('s, 'g) send_state \<Rightarrow> (('s, 'g) send_state + ('s, 'g) send_state) option" where
  "send_batch return_if_empty get_n r conns st =
     (let available_connection = length conns
      in case get_n (sd_provider st) available_connection (sd_rng st) of
           None \<Rightarrow> None
         | Some (Inl e, pr, g) \<Rightarrow>
             Some (Inl (st\<lparr>sd_provider := pr, sd_rng := g, sd_lost := sd_lost st @ conns\<rparr>))
         | Some (Inr requests_to_send, pr, g) \<Rightarrow>
             (let st = st\<lparr>sd_provider := pr, sd_rng := g\<rparr>; available_req = length requests_to_send
              in if return_if_empty \<and> requests_to_send = []
                 then Some (Inl (st\<lparr>sd_lost := sd_lost st @ conns\<rparr>))
                 else do { requests_to_send \<leftarrow>
                             (if available_req < available_connection
                              then fill_req_if_less_than_connections available_connection available_req requests_to_send
                              else Some requests_to_send);
                           pairs \<leftarrow> pop_requests conns requests_to_send;
                           (let st = st\<lparr>sd_sent := sd_sent st @ pairs,
                                        sd_remaining := sd_remaining st - of_nat available_connection\<rparr>
                            in if 1000 - cy_elapsed_after r < 0 then Some (Inl st)
                               else if sd_remaining st = 0 then Some (Inl st)
                               else Some (Inr st)) }))"

definition send_round_v2 ::
  "('s \<Rightarrow> usize \<Rightarrow> 'g \<Rightarrow> ((string + http_req list) \<times> 's \<times> 'g) option) \<Rightarrow> usize \<Rightarrow> cycle_round
     \<Rightarrow> ('s, 'g) send_state \<Rightarrow> (('s, 'g) send_state + ('s, 'g) send_state) option" where
  "send_round_v2 get_n bundle r st =
     (let remaining_t = 1000 - cy_elapsed r
      in if remaining_t < 0 then Some (Inl st)
         else let requested_connection = min (of_nat bundle) (sd_remaining st);
                  (conns, st) = take_connections r requested_connection st
           in if length conns < 1 then Some (Inr st) else send_batch True get_n r conns st)"

definition send_round_v1 ::
  "('s \<Rightarrow> usize \<Rightarrow> 'g \<Rightarrow> ((string + http_req list) \<times> 's \<times> 'g) option) \<Rightarrow> u32 \<Rightarrow> cycle_round
     \<Rightarrow> ('s, 'g) send_state \<Rightarrow> (('s, 'g) send_state + ('s, 'g) send_state) option" where
  "send_round_v1 get_n bundle r st =
     (let remaining_t = 1000 - cy_elapsed r
      in if remaining_t < 0 then Some (Inl st)
         else let requested_connection = min bundle (sd_remaining st);
                  (conns, st) = take_connections r requested_connection st
           in if length conns < unat requested_connection \<and> length conns < 1 then Some (Inr st)
              else send_batch False get_n r conns st)"

datatype 'x cycle_outcome = CycleReturned 'x | CycleRunning 'x

fun send_rounds ::
  "(cycle_round \<Rightarrow> 'x \<Rightarrow> ('x + 'x) option) \<Rightarrow> cycle_round list \<Rightarrow> 'x \<Rightarrow> 'x cycle_outcome option" where
  "send_rounds round_of [] st = Some (CycleRunning st)"
| "send_rounds round_of (r # rs) st =
     (case round_of r st of
        None \<Rightarrow> None
      | Some (Inl st) \<Rightarrow> Some (CycleReturned st)
      | Some (Inr st) \<Rightarrow> send_rounds round_of rs st)"

section \<open>A cycle\<close>

text \<open>\<open>begin_elapsed\<close> is the reading of the clock before the loop.\<close>

definition send_n_request_in_t_duration ::
  "('s \<Rightarrow> usize \<Rightarrow> 'g \<Rightarrow> ((string + http_req list) \<times> 's \<times> 'g) option) \<Rightarrow> load_generation_mode \<Rightarrow> rate_message
     \<Rightarrow> int \<Rightarrow> cycle_round list \<Rightarrow> ('s, 'g) send_state \<Rightarrow> ('s, 'g) send_state cycle_outcome option" where
  "send_n_request_in_t_duration get_n mode rate begin_elapsed rounds st =
     (let number_of_req = rm_qps rate; time_remaining = 1000 - begin_elapsed
      in if time_remaining < 10 then Some (CycleReturned st)
         else if number_of_req = 0 then Some (CycleReturned st)
         else do { bundle \<leftarrow> bundle_size mode;
                   sleep_time \<leftarrow> interval_duration mode (nat time_remaining) (unat number_of_req);
                   send_rounds (send_round_v2 get_n bundle) rounds (st\<lparr>sd_remaining := number_of_req\<rparr>) })"

definition send_multiple_requests ::
  "('s \<Rightarrow> usize \<Rightarrow> 'g \<Rightarrow> ((string + http_req list) \<times> 's \<times> 'g) option) \<Rightarrow> nat \<Rightarrow> u32 \<Rightarrow> u32
     \<Rightarrow> cycle_round list \<Rightarrow> ('s, 'g) send_state \<Rightarrow> ('s, 'g) send_state cycle_outcome option" where
  "send_multiple_requests get_n env_bundle_size number_of_req connection_count rounds st =
     (if number_of_req = 0 then Some (CycleReturned st)
      else let bundle = max (number_of_req div 100 + 1) (of_nat env_bundle_size);
               bundle = (if connection_count = 0 then min number_of_req bundle
                         else min number_of_req (min connection_count bundle))
        in send_rounds (send_round_v1 get_n bundle) rounds (st\<lparr>sd_remaining := number_of_req\<rparr>))"

record ('s, 'g) execution_context =
  ex_prev_connection_count :: u32
  ex_time_offset :: int
  ex_job_id :: string
  ex_state :: "('s, 'g) send_state"
  ex_generation_logic :: load_generation_mode

text \<open>What one rate message meets: the time, the readings of the clock since it arrived, and when the
  cycle is over.\<close>

record cycle_env =
  ce_now :: nat
  ce_begin :: int
  ce_rounds :: "cycle_round list"
  ce_end :: int

definition shift_round :: "int \<Rightarrow> cycle_round \<Rightarrow> cycle_round" where
  "shift_round d r = r\<lparr>cy_elapsed := cy_elapsed r + d, cy_elapsed_after := cy_elapsed_after r + d\<rparr>"

text \<open>Setting the pool size at the start of a cycle, when it has changed.\<close>

definition resize_for_rate :: "rate_message \<Rightarrow> nat \<Rightarrow> u32 \<Rightarrow> ('s, 'g) send_state \<Rightarrow> u32 \<times> ('s, 'g) send_state" where
  "resize_for_rate rate now prev_connection_count st =
     (let (prev, st) =
        (if prev_connection_count \<noteq> rm_connections rate
         then let (ts, p, m) = set_connection_count (unat (rm_connections rate)) (sd_pool st, sd_metrics st)
           in (rm_connections rate,
               st\<lparr>sd_pool := p, sd_metrics := pool_size (int (unat (rm_connections rate))) m, sd_tasks := sd_tasks st @ ts\<rparr>)
         else (prev_connection_count, st))
      in (prev, st\<lparr>sd_pool := (sd_pool st)\<lparr>last_use := now\<rparr>\<rparr>))"

definition time_correction :: "int \<Rightarrow> int" where
  "time_correction time_offset = (if time_offset > 0 then time_offset else 0)"

definition handle_rate_msg_v2 ::
  "('s \<Rightarrow> usize \<Rightarrow> 'g \<Rightarrow> ((string + http_req list) \<times> 's \<times> 'g) option) \<Rightarrow> rate_message \<Rightarrow> cycle_env
     \<Rightarrow> ('s, 'g) execution_context \<Rightarrow> ('s, 'g) execution_context cycle_outcome option" where
  "handle_rate_msg_v2 get_n rate e ctx =
     (let (prev, st) = resize_for_rate rate (ce_now e) (ex_prev_connection_count ctx) (ex_state ctx);
          d = time_correction (ex_time_offset ctx);
          ctx = ctx\<lparr>ex_prev_connection_count := prev\<rparr>
      in map_option (\<lambda>r. case r of
             CycleReturned st \<Rightarrow> CycleReturned (ctx\<lparr>ex_state := st, ex_time_offset := ce_end e - 1000\<rparr>)
           | CycleRunning st \<Rightarrow> CycleRunning (ctx\<lparr>ex_state := st\<rparr>))
         (send_n_request_in_t_duration get_n (ex_generation_logic ctx) rate (ce_begin e + d)
            (map (shift_round d) (ce_rounds e)) st))"

definition handle_rate_msg ::
  "('s \<Rightarrow> usize \<Rightarrow> 'g \<Rightarrow> ((string + http_req list) \<times> 's \<times> 'g) option) \<Rightarrow> nat \<Rightarrow> rate_message \<Rightarrow> cycle_env
     \<Rightarrow> ('s, 'g) execution_context \<Rightarrow> ('s, 'g) execution_context cycle_outcome option" where
  "handle_rate_msg get_n env_bundle_size rate e ctx =
     (let (prev, st) = resize_for_rate rate (ce_now e) (ex_prev_connection_count ctx) (ex_state ctx);
          d = time_correction (ex_time_offset ctx);
          ctx = ctx\<lparr>ex_prev_connection_count := prev\<rparr>
      in map_option (\<lambda>r. case r of
             CycleReturned st \<Rightarrow> CycleReturned (ctx\<lparr>ex_state := st, ex_time_offset := ce_end e - 1000\<rparr>)
           | CycleRunning st \<Rightarrow> CycleRunning (ctx\<lparr>ex_state := st\<rparr>))
         (send_multiple_requests get_n env_bundle_size (rm_qps rate) (rm_connections rate)
            (map (shift_round d) (ce_rounds e)) st))"

section \<open>Filling up and pairing\<close>

lemma fill_loop_cyclic:
  "0 < a \<Longrightarrow> a \<le> length reqs \<Longrightarrow> i \<le> a \<Longrightarrow>
     fill_loop i need a reqs = Some (reqs @ map (\<lambda>j. reqs ! ((i + j) mod a)) [0..<need])"
proof (induction need arbitrary: i reqs)
  case 0
  then show ?case by (subst fill_loop.simps) simp
next
  case (Suc need)
  have step: "fill_loop k (Suc need) a reqs = Some (reqs @ map (\<lambda>j. reqs ! ((k + j) mod a)) [0..<Suc need])"
    if "k < a" for k
  proof -
    from that Suc.prems have "vec_get reqs k = Some (reqs ! k)" by (simp add: vec_get_def)
    moreover have "map (\<lambda>j. (reqs @ [reqs ! k]) ! ((k + 1 + j) mod a)) [0..<need]
        = map (\<lambda>j. reqs ! ((k + j) mod a)) [1..<Suc need]"
    proof (rule nth_equalityI)
      fix j assume "j < length (map (\<lambda>j. (reqs @ [reqs ! k]) ! ((k + 1 + j) mod a)) [0..<need])"
      moreover have "(k + 1 + j) mod a < length reqs"
        using Suc.prems(1,2) mod_less_divisor [of a "k + 1 + j"] by linarith
      ultimately show "map (\<lambda>j. (reqs @ [reqs ! k]) ! ((k + 1 + j) mod a)) [0..<need] ! j
          = map (\<lambda>j. reqs ! ((k + j) mod a)) [1..<Suc need] ! j"
        by (simp add: nth_append del: upt_Suc)
    qed simp
    ultimately show ?thesis
      using that Suc.prems Suc.IH [of "reqs @ [reqs ! k]" "k + 1"]
      by (subst fill_loop.simps) (simp add: upt_conv_Cons del: upt_Suc)
  qed
  show ?case
  proof (cases "i < a")
    case True
    then show ?thesis by (rule step)
  next
    case False
    with Suc.prems have "i = a" by simp
    moreover from this have "fill_loop i (Suc need) a reqs = fill_loop 0 (Suc need) a reqs"
      by (subst fill_loop.simps) simp
    ultimately show ?thesis using step [of 0] Suc.prems(1) by simp
  qed
qed

lemma fill_req_exact:
  assumes "reqs \<noteq> []" "length reqs \<le> available"
  shows "fill_req_if_less_than_connections available (length reqs) reqs
    = Some (map (\<lambda>j. reqs ! (j mod length reqs)) [0..<available])"
proof -
  from assms(2) have "map (\<lambda>j. reqs ! (j mod length reqs)) [0..<available]
      = map (\<lambda>j. reqs ! (j mod length reqs)) [0..<length reqs]
        @ map (\<lambda>j. reqs ! (j mod length reqs)) [length reqs..<available]"
    by (metis le_add_diff_inverse map_append upt_add_eq_append zero_le)
  also have "map (\<lambda>j. reqs ! (j mod length reqs)) [0..<length reqs] = reqs"
    by (rule nth_equalityI) simp_all
  also have "map (\<lambda>j. reqs ! (j mod length reqs)) [length reqs..<available]
      = map (\<lambda>j. reqs ! (j mod length reqs)) [0..<available - length reqs]"
    by (rule nth_equalityI) simp_all
  finally show ?thesis
    using assms fill_loop_cyclic [of "length reqs" reqs 0 "available - length reqs"]
    by (simp add: fill_req_if_less_than_connections_def)
qed

lemma fill_loop_diverges:
  assumes "0 < need"
  shows "fill_loop i need 0 reqs = None"
proof -
  have "fill_loop i n a xs = Some rs \<Longrightarrow> a = 0 \<longrightarrow> n = 0" for n a xs rs i
  proof (erule fill_loop.raw_induct [where P = "\<lambda>i n a xs rs. a = 0 \<longrightarrow> n = 0", rotated], goal_cases)
    case (1 f i n a xs rs)
    show ?case
    proof (cases "n = 0 \<or> a \<noteq> 0")
      case False
      with 1(2) have "f 0 n a xs = Some rs" by simp
      with 1(1) show ?thesis by blast
    qed auto
  qed
  with assms show ?thesis by (metis not_Some_eq not_gr_zero)
qed

lemma pop_requests_zip:
  "length conns \<le> length reqs \<Longrightarrow> pop_requests conns reqs = Some (zip conns (rev reqs))"
proof (induction conns arbitrary: reqs)
  case (Cons c cs)
  then show ?case by (cases reqs rule: rev_cases) auto
qed simp

section \<open>Taking connections\<close>

text \<open>What the asynchronous readiness check promises: it reports every connection once.\<close>

definition round_ok :: "cycle_round \<Rightarrow> bool" where
  "round_ok r \<longleftrightarrow> (\<forall>cs. mset (map fst (cy_ready r cs)) = mset cs)"

lemma get_connections_le:
  assumes "\<forall>cs. mset (map fst (ready cs)) = mset cs" "get_connections ready n pm = (ts, conns, pm')"
  shows "length conns \<le> unat n"
proof -
  obtain p m where pm: "pm = (p, m)" by (cases pm)
  obtain k p1 where c: "claim_recyclable p = (k, p1)" by fastforce
  obtain ts1 dropped futures p2 m2 where sel: "select_connections n k (p1, m) = (ts1, dropped, futures, p2, m2)"
    by (metis prod_cases5)
  obtain ts2 vec p3 m3 where fin: "finish_get_connections dropped (ready futures) (p2, m2) = (ts2, vec, p3, m3)"
    by (metis prod_cases4)
  have "length futures \<le> unat n"
    unfolding select_connections_effect(10) [OF sel]
    by (rule order.trans [OF length_filter_le]) simp
  moreover have "length vec \<le> length futures"
    unfolding finish_effect(8) [OF fin] using assms(1) by (intro length_checked) simp
  ultimately show ?thesis using assms(2) c sel fin pm by (simp add: get_connections_def)
qed

lemma take_connections_frame:
  assumes "take_connections r n st = (conns, st')"
  shows "sd_remaining st' = sd_remaining st" "sd_provider st' = sd_provider st" "sd_rng st' = sd_rng st"
    "sd_sent st' = sd_sent st" "sd_lost st' = sd_lost st"
  using assms by (auto simp: take_connections_def Let_def split: prod.splits)

lemma take_connections_le:
  assumes "round_ok r" "take_connections r n st = (conns, st')"
  shows "length conns \<le> unat n"
proof -
  obtain ts cs pm where g: "get_connections (cy_ready r) n (cy_between r (sd_pool st, sd_metrics st)) = (ts, cs, pm)"
    by (metis prod_cases3)
  from assms(2) g have "conns = cs" by (auto simp: take_connections_def Let_def split: prod.splits)
  with get_connections_le [OF _ g] assms(1) show ?thesis by (simp add: round_ok_def)
qed

section \<open>The loop\<close>

fun outcome_state :: "'x cycle_outcome \<Rightarrow> 'x" where
  "outcome_state (CycleReturned st) = st"
| "outcome_state (CycleRunning st) = st"

lemma send_rounds_run:
  assumes "\<And>r st. r \<in> set rs \<Longrightarrow> Q st \<Longrightarrow> \<exists>x. round_of r st = Some x \<and> (case x of Inl s \<Rightarrow> P s | Inr s \<Rightarrow> Q s)"
    and "\<And>st. Q st \<Longrightarrow> P st" "Q st"
  shows "\<exists>out. send_rounds round_of rs st = Some out \<and> P (outcome_state out)"
  using assms
proof (induction rs arbitrary: st)
  case (Cons r rs)
  from Cons.prems obtain x where x: "round_of r st = Some x" "case x of Inl s \<Rightarrow> P s | Inr s \<Rightarrow> Q s"
    by (meson list.set_intros(1))
  show ?case
  proof (cases x)
    case (Inr s)
    with x Cons.IH [of s] Cons.prems show ?thesis by simp
  qed (use x in simp)
qed simp

lemma send_rounds_inv:
  assumes "\<And>r st. r \<in> set rs \<Longrightarrow> P st \<Longrightarrow> \<exists>x. round_of r st = Some x \<and> P (case x of Inl s \<Rightarrow> s | Inr s \<Rightarrow> s)"
    and "P st"
  shows "\<exists>out. send_rounds round_of rs st = Some out \<and> P (outcome_state out)"
proof (rule send_rounds_run [where Q = P, OF _ _ assms(2)])
  fix r s
  assume "r \<in> set rs" "P s"
  from assms(1) [OF this] show "\<exists>x. round_of r s = Some x \<and> (case x of Inl s \<Rightarrow> P s | Inr s \<Rightarrow> P s)"
    by (auto split: sum.splits)
qed

lemma send_rounds_running:
  "send_rounds round_of rs st = Some (CycleRunning st') \<Longrightarrow> r \<in> set rs \<Longrightarrow> \<exists>s s'. round_of r s = Some (Inr s')"
  by (induction rs arbitrary: st) (auto split: option.splits sum.splits)

section \<open>The contract of a cycle\<close>

text \<open>What a pass and a cycle keep, whatever the provider is, as long as it keeps its contract: the
  requests sent and those still to be sent add up, nothing sent is taken back, and the state of the
  provider stays well formed.\<close>

definition cycle_inv ::
  "('s \<Rightarrow> bool) \<Rightarrow> ('s, 'g) send_state \<Rightarrow> ('s, 'g) send_state \<Rightarrow> bool" where
  "cycle_inv ok st0 st \<longleftrightarrow> ok (sd_provider st)
     \<and> length (sd_sent st) + unat (sd_remaining st) = length (sd_sent st0) + unat (sd_remaining st0)
     \<and> (\<exists>more. sd_sent st = sd_sent st0 @ more)"

context request_provider
begin

lemma send_batch_ok:
  assumes "ok (sd_provider st)" "conns \<noteq> []" "length conns \<le> unat (sd_remaining st)"
    and progress: "\<And>rs pr g. get_n (sd_provider st) (length conns) (sd_rng st) = Some (Inr rs, pr, g)
                      \<Longrightarrow> b \<or> rs \<noteq> []"
  shows "\<exists>x. send_batch b get_n r conns st = Some x \<and> cycle_inv ok st (case x of Inl s \<Rightarrow> s | Inr s \<Rightarrow> s)"
proof -
  from assms(2) have "0 < length conns" by simp
  with assms(1) show ?thesis
  proof (cases rule: get_n_cases [where g = "sd_rng st"])
    case (error e s' g')
    then show ?thesis by (simp add: send_batch_def cycle_inv_def)
  next
    case (requests rs s' g')
    show ?thesis
    proof (cases "rs = []")
      case True
      with requests progress show ?thesis by (auto simp: send_batch_def cycle_inv_def)
    next
      case False
      define all where "all = map (\<lambda>j. rs ! (j mod length rs)) [0..<length conns]"
      have fill: "(if length rs < length conns
                   then fill_req_if_less_than_connections (length conns) (length rs) rs else Some rs) = Some all"
      proof (cases "length rs < length conns")
        case True
        with False show ?thesis by (simp add: fill_req_exact all_def)
      next
        case eq: False
        with requests(3) have "length rs = length conns" by simp
        then have "all = rs" unfolding all_def by (intro nth_equalityI) simp_all
        with eq show ?thesis by simp
      qed
      have pop: "pop_requests conns all = Some (zip conns (rev all))" by (simp add: pop_requests_zip all_def)
      have len: "length (zip conns (rev all)) = length conns" by (simp add: all_def)
      have "unat (sd_remaining st - of_nat (length conns)) = unat (sd_remaining st) - length conns"
        using assms(3) by (metis le_unat_uoi unat_sub word_le_nat_alt)
      with assms(3) len False requests fill pop show ?thesis
        by (auto simp: send_batch_def cycle_inv_def Let_def)
    qed
  qed
qed

end

lemma cycle_inv_refl: "ok (sd_provider st) \<Longrightarrow> cycle_inv ok st st"
  by (simp add: cycle_inv_def)

lemma cycle_inv_trans: "cycle_inv ok st1 st2 \<Longrightarrow> cycle_inv ok st2 st3 \<Longrightarrow> cycle_inv ok st1 st3"
  by (auto simp: cycle_inv_def)

lemma cycle_inv_take:
  assumes "take_connections r n st = (conns, st1)"
  shows "cycle_inv ok st1 st2 = cycle_inv ok st st2"
  by (simp add: cycle_inv_def take_connections_frame [OF assms])

text \<open>The clock of a cycle: the current version sleeps at least a millisecond after every pass.\<close>

definition clock_ok :: "cycle_round list \<Rightarrow> bool" where
  "clock_ok rounds \<longleftrightarrow> sorted_wrt (<) (map cy_elapsed rounds) \<and> (\<forall>r \<in> set rounds. 0 \<le> cy_elapsed r)"

lemma clock_lower_bound:
  assumes "clock_ok rounds" "i < length rounds"
  shows "int i \<le> cy_elapsed (rounds ! i)"
  using assms(2)
proof (induction i)
  case 0
  with assms(1) show ?case by (cases rounds) (simp_all add: clock_ok_def)
next
  case (Suc i)
  with assms(1) have "cy_elapsed (rounds ! i) < cy_elapsed (rounds ! Suc i)"
    by (simp add: clock_ok_def sorted_wrt_iff_nth_less)
  with Suc show ?case by simp
qed

lemma send_rounds_v2_end:
  assumes "clock_ok rounds" "1001 < length rounds" "send_rounds (send_round_v2 get_n bundle) rounds st = Some out"
  shows "\<exists>st'. out = CycleReturned st'"
proof (cases out)
  case (CycleRunning st')
  from assms(2) have "rounds ! 1001 \<in> set rounds" by simp
  with assms(3) CycleRunning obtain s s' where "send_round_v2 get_n bundle (rounds ! 1001) s = Some (Inr s')"
    by (metis send_rounds_running)
  moreover have "1001 \<le> cy_elapsed (rounds ! 1001)"
    using clock_lower_bound [OF assms(1,2)] by simp
  ultimately show ?thesis by (simp add: send_round_v2_def)
qed simp

context request_provider
begin

lemma send_round_v2_ok:
  assumes "ok (sd_provider st)" "round_ok r"
  shows "\<exists>x. send_round_v2 get_n bundle r st = Some x \<and> cycle_inv ok st (case x of Inl s \<Rightarrow> s | Inr s \<Rightarrow> s)"
proof -
  define n where "n = min (of_nat bundle) (sd_remaining st)"
  obtain conns st1 where t: "take_connections r n st = (conns, st1)" by fastforce
  note frame = take_connections_frame [OF t]
  have "length conns \<le> unat n" by (rule take_connections_le [OF assms(2) t])
  also have "\<dots> \<le> unat (sd_remaining st)" unfolding n_def by (simp add: word_le_nat_alt [symmetric])
  finally have len: "length conns \<le> unat (sd_remaining st1)" by (simp add: frame)
  have ok1: "ok (sd_provider st1)" using assms(1) by (simp add: frame)
  show ?thesis
  proof (cases "conns = [] \<or> 1000 - cy_elapsed r < 0")
    case True
    have "cycle_inv ok st st1" using cycle_inv_refl [where ok = ok, OF ok1] by (simp add: cycle_inv_take [OF t])
    with True t cycle_inv_refl [where ok = ok, OF assms(1)] show ?thesis
      by (auto simp: send_round_v2_def Let_def n_def [symmetric])
  next
    case False
    with send_batch_ok [OF ok1 _ len, of True r] t show ?thesis
      by (auto simp: send_round_v2_def Let_def n_def [symmetric] cycle_inv_take [OF t] neq_Nil_conv)
  qed
qed

lemma send_rounds_v2_ok:
  assumes "ok (sd_provider st)" "\<forall>r \<in> set rounds. round_ok r"
  shows "\<exists>out. send_rounds (send_round_v2 get_n bundle) rounds st = Some out \<and> cycle_inv ok st (outcome_state out)"
proof (rule send_rounds_inv)
  fix r st1
  assume r: "r \<in> set rounds" and inv: "cycle_inv ok st st1"
  then have "ok (sd_provider st1)" by (simp add: cycle_inv_def)
  from send_round_v2_ok [OF this, of r] r assms(2) cycle_inv_trans [OF inv]
  show "\<exists>x. send_round_v2 get_n bundle r st1 = Some x \<and> cycle_inv ok st (case x of Inl s \<Rightarrow> s | Inr s \<Rightarrow> s)"
    by blast
qed (rule cycle_inv_refl [where ok = ok, OF assms(1)])

lemma send_cycle_ok:
  assumes "ok (sd_provider st)" "\<forall>r \<in> set rounds. round_ok r" "clock_ok rounds" "1001 < length rounds"
  shows "\<exists>st' more. send_n_request_in_t_duration get_n Immediate rate begin_elapsed rounds st = Some (CycleReturned st')
    \<and> ok (sd_provider st') \<and> sd_sent st' = sd_sent st @ more \<and> length more \<le> unat (rm_qps rate)
    \<and> (990 < begin_elapsed \<longrightarrow> st' = st)
    \<and> (begin_elapsed \<le> 990 \<and> rm_qps rate \<noteq> 0 \<longrightarrow> length more + unat (sd_remaining st') = unat (rm_qps rate))"
proof (cases "990 < begin_elapsed \<or> rm_qps rate = 0")
  case True
  with assms(1) show ?thesis by (auto simp: send_n_request_in_t_duration_def Let_def)
next
  case False
  let ?st = "st\<lparr>sd_remaining := rm_qps rate\<rparr>"
  from assms(1,2) obtain out where out: "send_rounds (send_round_v2 get_n 65535) rounds ?st = Some out"
    and inv: "cycle_inv ok ?st (outcome_state out)"
    using send_rounds_v2_ok [of ?st rounds 65535] by auto
  from send_rounds_v2_end [OF assms(3,4) out] obtain st' where "out = CycleReturned st'" by blast
  with False out inv show ?thesis
    by (auto simp: send_n_request_in_t_duration_def bundle_size_def interval_duration_def cycle_inv_def)
qed

end

section \<open>Properties\<close>

text \<open>A pool of fixed size that can hand out \<open>k\<close> connections: so many are there, all live, and its
  size leaves room for them next to those in use.\<close>

definition pool_idle :: "queue_pool \<Rightarrow> http_connection list" where
  "pool_idle p = connections p @ recyclable_connections p @ new_connections p"

definition pool_in_use :: "queue_pool \<Rightarrow> nat" where
  "pool_in_use p = busy_connections p - length (recyclable_connections p)"

definition pool_serves :: "queue_pool \<Rightarrow> nat \<Rightarrow> bool" where
  "pool_serves p k \<longleftrightarrow> \<not> elastic p \<and> length (recyclable_connections p) \<le> busy_connections p
     \<and> list_all (\<lambda>c. \<not> should_drop c) (pool_idle p) \<and> k \<le> length (pool_idle p)
     \<and> int (pool_in_use p + k) \<le> max_connection p"

definition round_ready :: "cycle_round \<Rightarrow> bool" where
  "round_ready r \<longleftrightarrow> (\<forall>cs. mset (map fst (cy_ready r cs)) = mset cs \<and> (\<forall>x \<in> set (cy_ready r cs). snd x))"

text \<open>A pool of two ready connections, a provider of one request, one whose file cannot be opened, and a
  clock that advances by a millisecond per pass.\<close>

definition demo_round :: "nat \<Rightarrow> cycle_round" where
  "demo_round k = \<lparr>cy_elapsed = int k, cy_between = (\<lambda>pm. pm), cy_ready = map (\<lambda>c. (c, True)), cy_elapsed_after = int k\<rparr>"

definition demo_clock :: "nat \<Rightarrow> cycle_round list" where
  "demo_clock n = map demo_round [0..<n]"

definition demo_connection :: "nat \<Rightarrow> http_connection" where
  "demo_connection h = \<lparr>request_handle = h, should_drop = False, expire_at = 9, remaining_reuse = 2\<rparr>"

definition two_ready_pool :: queue_pool where
  "two_ready_pool = (queue_pool_new ''h:80'' \<lparr>ttl = 5, max_request_per_connection = 2\<rparr> False 0)\<lparr>max_connection := 2,
     connections := [demo_connection 1], new_connections := [demo_connection 2]\<rparr>"

definition demo_send :: "'s \<Rightarrow> ('s, unit) send_state" where
  "demo_send pr = \<lparr>sd_remaining = 0, sd_pool = two_ready_pool, sd_metrics = new_metrics [], sd_tasks = [],
     sd_provider = pr, sd_rng = (), sd_sent = [], sd_lost = []\<rparr>"

definition demo_provider :: "(nat, unit, string, string) provider_state" where
  "demo_provider = (demo_source, demo_env, demo_templates, RequestList \<lparr>rl_data = [demo_request 7]\<rparr>)"

definition failing_provider :: "(nat, unit, string, string) provider_state" where
  "failing_provider = (demo_source\<lparr>sqlite_open := \<lambda>_. Inl ''unable to open database file''\<rparr>, demo_env, demo_templates,
     SplitRequestFile demo_split)"

lemma demo_round_ok: "round_ok (demo_round k)" "round_ready (demo_round k)"
  by (simp_all add: round_ok_def round_ready_def demo_round_def comp_def)

lemma demo_round_elapsed: "cy_elapsed (demo_round k) = int k"
  by (simp add: demo_round_def)

lemma demo_clock_ok: "clock_ok (demo_clock n)" "length (demo_clock n) = n"
  "\<forall>r \<in> set (demo_clock n). cy_between r = (\<lambda>pm. pm) \<and> round_ok r"
  using demo_round_ok(1) by (auto simp: clock_ok_def demo_clock_def demo_round_def sorted_wrt_map sorted_wrt_upt)

lemma two_ready_pool_serves: "pool_serves two_ready_pool 2" "length (pool_idle two_ready_pool) = 2" "pool_in_use two_ready_pool = 0"
  by (simp_all add: pool_serves_def two_ready_pool_def pool_idle_def pool_in_use_def queue_pool_new_def demo_connection_def)

text \<open>C4: a cycle of the current version always ends, when the clock advances by a millisecond
  per pass, after at most 1002 passes. Whatever other tasks do to the pool and whatever connections turn out to be
  ready, it sends never more requests than the rate asks for, the requests it has not sent
  are exactly those still counted as remaining, nothing is sent with less than 10 ms left, and
  the state of the provider stays well formed.\<close>
theorem send_cycle_ends_within_rate:
  assumes "provider_state_ok (sd_provider st)" "\<forall>r \<in> set rounds. round_ok r" "clock_ok rounds"
    "1002 \<le> length rounds"
  shows "\<exists>st' more. send_n_request_in_t_duration provider_get_n Immediate rate begin_elapsed rounds st
      = Some (CycleReturned st')
    \<and> provider_state_ok (sd_provider st') \<and> sd_sent st' = sd_sent st @ more \<and> length more \<le> unat (rm_qps rate)
    \<and> (990 < begin_elapsed \<longrightarrow> st' = st)
    \<and> (begin_elapsed \<le> 990 \<and> rm_qps rate \<noteq> 0 \<longrightarrow> length more + unat (sd_remaining st') = unat (rm_qps rate))"
  using providers.send_cycle_ok [of st rounds] assms by simp

theorem send_cycle_ends_within_rate_witness:
  "\<exists>st' more. send_n_request_in_t_duration provider_get_n Immediate \<lparr>rm_qps = 3, rm_connections = 2\<rparr> 0
       (demo_clock 1002) (demo_send demo_provider) = Some (CycleReturned st')
     \<and> sd_sent st' = more \<and> length more + unat (sd_remaining st') = 3"
proof -
  have "provider_state_ok (sd_provider (demo_send demo_provider))"
    by (simp add: demo_send_def demo_provider_def provider_state_ok_def demo_source_rng)
  moreover have "\<forall>r \<in> set (demo_clock 1002). round_ok r" "1002 \<le> length (demo_clock 1002)"
    using demo_clock_ok(2,3) [of 1002] by simp_all
  ultimately have "\<exists>st' more. send_n_request_in_t_duration provider_get_n Immediate \<lparr>rm_qps = 3, rm_connections = 2\<rparr> 0
       (demo_clock 1002) (demo_send demo_provider) = Some (CycleReturned st')
     \<and> sd_sent st' = sd_sent (demo_send demo_provider) @ more \<and> length more + unat (sd_remaining st') = 3"
    using send_cycle_ends_within_rate [OF _ _ demo_clock_ok(1), of "demo_send demo_provider" 1002
        "\<lparr>rm_qps = 3, rm_connections = 2\<rparr>" 0] by fastforce
  then show ?thesis by (simp add: demo_send_def)
qed

lemma first_pass_sends:
  assumes "take_connections r n st = (conns, st1)" "n = min (of_nat bundle) (sd_remaining st)"
    "cy_elapsed r \<le> 1000" "length conns = unat (sd_remaining st)" "sd_remaining st \<noteq> 0"
    "get_n (sd_provider st) (length conns) (sd_rng st) = Some (Inr rs, pr, g)" "length rs = length conns"
  shows "send_round_v2 get_n bundle r st
    = Some (Inl (st1\<lparr>sd_provider := pr, sd_rng := g, sd_sent := sd_sent st @ zip conns (rev rs), sd_remaining := 0\<rparr>))"
proof -
  note frame = take_connections_frame [OF assms(1)]
  from assms(4,5) have "conns \<noteq> []" by (auto simp: unat_eq_zero)
  moreover from this assms(7) have "rs \<noteq> []" by auto
  moreover have "pop_requests conns rs = Some (zip conns (rev rs))" by (simp add: pop_requests_zip assms(7))
  moreover have "sd_remaining st - of_nat (length conns) = 0" by (simp add: assms(4))
  ultimately show ?thesis using assms frame
    by (cases conns) (auto simp: send_round_v2_def send_batch_def Let_def)
qed

lemma take_connections_serves:
  assumes "take_connections r n st = (conns, st1)" "cy_between r (sd_pool st, sd_metrics st) = (p, m)"
    "pool_serves p (unat n)" "round_ready r"
  shows "length conns = unat n" "mset conns \<subseteq># mset (pool_idle p)"
    "busy_connections (sd_pool st1) = pool_in_use p + unat n"
    "connections (sd_pool st1) = drop (unat n) (enforced p (pool_in_use p) (pool_idle p))"
    "\<not> elastic (sd_pool st1)" "recyclable_connections (sd_pool st1) = []" "new_connections (sd_pool st1) = []"
    "failed_connection (sd_pool st1) = 0" "max_connection (sd_pool st1) = max_connection p"
proof -
  obtain ts p' m' where g: "get_connections (cy_ready r) n (p, m) = (ts, conns, p', m')" and p': "sd_pool st1 = p'"
    using assms(1,2) by (auto simp: take_connections_def Let_def split: prod.splits)
  have c: "\<not> elastic p" "length (recyclable_connections p) \<le> busy_connections p"
    "\<forall>c \<in> set (connections p @ recyclable_connections p @ new_connections p). \<not> should_drop c"
    using assms(3) by (simp_all add: pool_serves_def pool_idle_def list_all_iff)
  note u = undisturbed_grant [OF c assms(4) [unfolded round_ready_def] g, folded pool_idle_def pool_in_use_def]
  have "unat n \<le> length (pool_idle p)" "int (pool_in_use p + unat n) \<le> max_connection p"
    using assms(3) by (simp_all only: pool_serves_def)
  then have "unat n \<le> min (length (pool_idle p)) (nat (max_connection p - int (pool_in_use p)))" by linarith
  then show len: "length conns = unat n" using u(1) by (simp only: min.absorb1)
  show "mset conns \<subseteq># mset (pool_idle p)" by (rule u(2))
  show "busy_connections (sd_pool st1) = pool_in_use p + unat n" using u(3) len p' by simp
  show "connections (sd_pool st1) = drop (unat n) (enforced p (pool_in_use p) (pool_idle p))"
    "\<not> elastic (sd_pool st1)" "recyclable_connections (sd_pool st1) = []" "new_connections (sd_pool st1) = []"
    "failed_connection (sd_pool st1) = 0" "max_connection (sd_pool st1) = max_connection p"
    using u(5-10) c(1) p' by simp_all
qed

lemma min_bundle: "unat (k :: u32) \<le> 65535 \<Longrightarrow> min 65535 k = k"
  by (rule min.absorb2) (simp add: word_le_nat_alt)

text \<open>C8: when the pool of a cycle can hand out as many connections as the rate asks for requests
  and the provider supplies them, the first pass sends all of them: each request of the
  provider once, each on a connection of its own from the pool, and the cycle is over with nothing remaining.\<close>
theorem full_cycle_delivers:
  assumes "cy_between r (sd_pool st, sd_metrics st) = (p, m)" "pool_serves p (unat (rm_qps rate))" "round_ready r"
    and "begin_elapsed \<le> 990" "cy_elapsed r \<le> 1000" "rm_qps rate \<noteq> 0" "unat (rm_qps rate) \<le> 65535"
    and "provider_get_n (sd_provider st) (unat (rm_qps rate)) (sd_rng st) = Some (Inr rs, pr, g)"
    and "length rs = unat (rm_qps rate)"
  shows "\<exists>st' conns. send_n_request_in_t_duration provider_get_n Immediate rate begin_elapsed (r # rounds) st
      = Some (CycleReturned st')
    \<and> sd_sent st' = sd_sent st @ zip conns (rev rs) \<and> length conns = length rs \<and> mset conns \<subseteq># mset (pool_idle p)
    \<and> busy_connections (sd_pool st') = pool_in_use p + length rs
    \<and> sd_remaining st' = 0 \<and> sd_lost st' = sd_lost st \<and> sd_provider st' = pr"
proof -
  let ?st = "st\<lparr>sd_remaining := rm_qps rate\<rparr>"
  obtain conns st1 where t: "take_connections r (rm_qps rate) ?st = (conns, st1)" by fastforce
  from assms(1) have "cy_between r (sd_pool ?st, sd_metrics ?st) = (p, m)" by simp
  note s = take_connections_serves [OF t this assms(2,3)]
  have "send_round_v2 provider_get_n 65535 r ?st
    = Some (Inl (st1\<lparr>sd_provider := pr, sd_rng := g, sd_sent := sd_sent ?st @ zip conns (rev rs), sd_remaining := 0\<rparr>))"
    using assms s(1) by (intro first_pass_sends [OF t]) (simp_all add: min_bundle)
  with assms(4,6,9) s(1-3) take_connections_frame(5) [OF t] show ?thesis
    by (auto simp: send_n_request_in_t_duration_def bundle_size_def interval_duration_def)
qed

theorem full_cycle_delivers_witness:
  "\<exists>st' conns. send_n_request_in_t_duration provider_get_n Immediate \<lparr>rm_qps = 2, rm_connections = 2\<rparr> 5
       [demo_round 5] (demo_send demo_provider) = Some (CycleReturned st')
     \<and> map snd (sd_sent st') = [demo_request 7, demo_request 7] \<and> sd_remaining st' = 0"
proof -
  have "provider_get_n demo_provider 2 () = Some (Inr [demo_request 7, demo_request 7], demo_provider, ())"
  proof -
    have "rng_usize demo_source 0 0 g = (0, g)" for g by (simp add: demo_source_def)
    then have "take_usize demo_source 0 0 2 () = Some ([0, 0], ())"
      by (simp add: take_usize.simps [of demo_source 0 0 "Suc _"] take_usize.simps [of demo_source 0 0 0] numeral_2_eq_2)
    then show ?thesis by (simp add: provider_get_n_def demo_provider_def request_list_get_n_def vec_get_def)
  qed
  then show ?thesis
    using full_cycle_delivers [of "demo_round 5" "demo_send demo_provider" two_ready_pool "new_metrics []"
        "\<lparr>rm_qps = 2, rm_connections = 2\<rparr>" 5 "[demo_request 7, demo_request 7]" demo_provider "()" "[]"]
      two_ready_pool_serves demo_round_ok
    by (fastforce simp: demo_send_def demo_round_def)
qed

text \<open>A pool of fixed size without any connection left and none on its way.\<close>

definition pool_drained :: "queue_pool \<Rightarrow> bool" where
  "pool_drained p \<longleftrightarrow> \<not> elastic p \<and> pool_idle p = [] \<and> failed_connection p = 0"

lemma drained_get_connections:
  assumes "pool_drained p" "\<forall>cs. mset (map fst (ready cs)) = mset cs"
    "get_connections ready n (p, m) = (ts, conns, p', m')"
  shows "conns = []" "pool_drained p'" "ts = []"
proof -
  obtain k p1 where c: "claim_recyclable p = (k, p1)" by fastforce
  obtain ts1 dropped futures p2 m2 where sel: "select_connections n k (p1, m) = (ts1, dropped, futures, p2, m2)"
    by (metis prod_cases5)
  obtain ts2 vec p3 m3 where fin: "finish_get_connections dropped (ready futures) (p2, m2) = (ts2, vec, p3, m3)"
    by (metis prod_cases4)
  note ce = claim_recyclable_effect [OF c] and se = select_connections_effect [OF sel] and fe = finish_effect [OF fin]
  have idle: "connections p1 = []" "new_connections p1 = []" "\<not> elastic p1" "failed_connection p1 = 0"
    using assms(1) by (simp_all add: ce pool_drained_def pool_idle_def)
  then have fut: "futures = []" "dropped = 0" "ts1 = []" "connections p2 = []"
    by (simp_all add: se(9-12) enforced_def)
  have rdy: "ready [] = []" using assms(2) [rule_format, of "[]"] by simp
  have eq: "conns = vec" "p' = p3" "ts = ts1 @ ts2" using assms(3) c sel fin by (simp_all add: get_connections_def)
  show "conns = []" by (simp add: eq fe(8) fut rdy)
  show "pool_drained p'" by (simp add: eq pool_drained_def pool_idle_def fe(1-7) se(1-7) ce(2) fut idle)
  show "ts = []" by (simp add: eq fe(11) fut rdy se(4) idle fe(8) add_new_connection_mut_def)
qed

lemma drained_take:
  assumes "pool_drained (sd_pool st)" "cy_between r = (\<lambda>pm. pm)" "round_ok r" "take_connections r n st = (conns, st1)"
  shows "conns = []" "pool_drained (sd_pool st1)" "sd_sent st1 = sd_sent st"
proof -
  obtain ts p' m' where "get_connections (cy_ready r) n (sd_pool st, sd_metrics st) = (ts, conns, p', m')"
    and "st1 = st\<lparr>sd_pool := p', sd_metrics := m', sd_tasks := sd_tasks st @ ts\<rparr>"
    using assms(2,4) by (auto simp: take_connections_def Let_def split: prod.splits)
  with drained_get_connections [OF assms(1) assms(3) [unfolded round_ok_def]]
  show "conns = []" "pool_drained (sd_pool st1)" "sd_sent st1 = sd_sent st" by simp_all
qed

lemma drained_rounds:
  fixes st :: "('s, 'g) send_state"
  assumes "pool_drained (sd_pool st)" "\<forall>r \<in> set rounds. cy_between r = (\<lambda>pm. pm) \<and> round_ok r"
  shows "\<exists>out. send_rounds (send_round_v2 get_n bundle) rounds st = Some out
    \<and> pool_drained (sd_pool (outcome_state out)) \<and> sd_sent (outcome_state out) = sd_sent st"
proof -
  let ?P = "\<lambda>s :: ('s, 'g) send_state. pool_drained (sd_pool s) \<and> sd_sent s = sd_sent st"
  have "\<exists>out. send_rounds (send_round_v2 get_n bundle) rounds st = Some out \<and> ?P (outcome_state out)"
  proof (rule send_rounds_inv)
    fix r and s :: "('s, 'g) send_state"
    assume r: "r \<in> set rounds" and s: "?P s"
    obtain conns s1 where t: "take_connections r (min (of_nat bundle) (sd_remaining s)) s = (conns, s1)" by fastforce
    from drained_take [OF _ _ _ t] r s assms(2) have "conns = []" "?P s1" by simp_all
    with t s show "\<exists>x. send_round_v2 get_n bundle r s = Some x \<and> ?P (case x of Inl s \<Rightarrow> s | Inr s \<Rightarrow> s)"
      by (auto simp: send_round_v2_def Let_def)
  qed (use assms(1) in simp)
  then show ?thesis by simp
qed

text \<open>C37: the connections that a cycle has taken are lost when the provider returns an error: the
  early return drops them, nothing gives them back to the pool, which still counts them as busy. When the cycle
  had taken all of them, the pool is empty, and as long as no other task fills it no later cycle at that
  rate sends anything, whatever the provider returns then.\<close>
theorem provider_error_drains_pool:
  assumes "cy_between r (sd_pool st, sd_metrics st) = (p, m)" "pool_serves p (unat (rm_qps rate))" "round_ready r"
    and "begin_elapsed \<le> 990" "cy_elapsed r \<le> 1000" "rm_qps rate \<noteq> 0" "unat (rm_qps rate) \<le> 65535"
    and "length (pool_idle p) = unat (rm_qps rate)"
    and "provider_get_n (sd_provider st) (unat (rm_qps rate)) (sd_rng st) = Some (Inl e, pr, g)"
    and "\<forall>r \<in> set later. cy_between r = (\<lambda>pm. pm) \<and> round_ok r"
  shows "\<exists>st'. send_n_request_in_t_duration provider_get_n Immediate rate begin_elapsed (r # rounds) st
      = Some (CycleReturned st')
    \<and> length (sd_lost st') = length (sd_lost st) + unat (rm_qps rate) \<and> sd_sent st' = sd_sent st
    \<and> busy_connections (sd_pool st') = pool_in_use p + unat (rm_qps rate) \<and> pool_drained (sd_pool st')
    \<and> (\<exists>out. send_n_request_in_t_duration get_n Immediate rate begin_later later st' = Some out
         \<and> sd_sent (outcome_state out) = sd_sent st)"
proof -
  let ?st = "st\<lparr>sd_remaining := rm_qps rate\<rparr>"
  obtain conns st1 where t: "take_connections r (rm_qps rate) ?st = (conns, st1)" by fastforce
  from assms(1) have "cy_between r (sd_pool ?st, sd_metrics ?st) = (p, m)" by simp
  note s = take_connections_serves [OF t this assms(2,3)] and frame = take_connections_frame [OF t]
  define st' where "st' = st1\<lparr>sd_provider := pr, sd_rng := g, sd_lost := sd_lost st @ conns\<rparr>"
  have "length (enforced p (pool_in_use p) (pool_idle p)) \<le> unat (rm_qps rate)"
    using assms(8) by (simp add: enforced_def)
  with s have drained: "pool_drained (sd_pool st')" by (simp add: st'_def pool_drained_def pool_idle_def)
  from s(1) assms(6) have "conns \<noteq> []" by (auto simp: unat_eq_zero)
  with assms(5,7,9) t s(1) frame have "send_round_v2 provider_get_n 65535 r ?st = Some (Inl st')"
    by (cases conns) (simp_all add: send_round_v2_def send_batch_def min_bundle st'_def)
  with assms(4,6) have run: "send_n_request_in_t_duration provider_get_n Immediate rate begin_elapsed (r # rounds) st
      = Some (CycleReturned st')"
    by (simp add: send_n_request_in_t_duration_def bundle_size_def interval_duration_def)
  have sent: "sd_sent st' = sd_sent st" using frame(4) by (simp add: st'_def)
  have "\<exists>out. send_n_request_in_t_duration get_n Immediate rate begin_later later st' = Some out
      \<and> sd_sent (outcome_state out) = sd_sent st'"
    using drained_rounds [of "st'\<lparr>sd_remaining := rm_qps rate\<rparr>" later get_n 65535] drained assms(10)
    by (auto simp: send_n_request_in_t_duration_def bundle_size_def interval_duration_def Let_def)
  with run sent drained s(1,3) show ?thesis by (simp add: st'_def)
qed

theorem provider_error_drains_pool_witness:
  "\<exists>st'. send_n_request_in_t_duration provider_get_n Immediate \<lparr>rm_qps = 2, rm_connections = 2\<rparr> 5
       [demo_round 5] (demo_send failing_provider) = Some (CycleReturned st') \<and> length (sd_lost st') = 2
     \<and> (\<exists>out. send_n_request_in_t_duration provider_get_n Immediate \<lparr>rm_qps = 2, rm_connections = 2\<rparr> 0
           (demo_clock 900) st' = Some out \<and> sd_sent (outcome_state out) = [])"
proof -
  let ?st = "demo_send failing_provider" and ?rate = "\<lparr>rm_qps = 2, rm_connections = 2\<rparr> :: rate_message"
  obtain e pr where e: "provider_get_n (sd_provider ?st) 2 (sd_rng ?st) = Some (Inl e, pr, ())"
    by (simp add: demo_send_def provider_get_n_def failing_provider_def split_request_file_get_n_def split_request_file_open_def
        demo_split_def)
  have "cy_between (demo_round 5) (sd_pool ?st, sd_metrics ?st) = (two_ready_pool, new_metrics [])"
    by (simp add: demo_send_def demo_round_def)
  then obtain st' where
    "send_n_request_in_t_duration provider_get_n Immediate ?rate 5 [demo_round 5] ?st = Some (CycleReturned st')"
    "length (sd_lost st') = length (sd_lost ?st) + 2"
    "\<exists>out. send_n_request_in_t_duration provider_get_n Immediate ?rate 0 (demo_clock 900) st' = Some out
       \<and> sd_sent (outcome_state out) = sd_sent ?st"
    using provider_error_drains_pool [of "demo_round 5" ?st two_ready_pool "new_metrics []" ?rate 5 e pr "()"
        "demo_clock 900" "[]" provider_get_n 0] two_ready_pool_serves demo_round_ok e
      demo_clock_ok(3) by (auto simp: demo_round_elapsed)
  then show ?thesis by (auto simp: demo_send_def)
qed

section \<open>The previous version\<close>

text \<open>The previous version, which batch mode still uses, does not stop when the provider returns no request: filling up then
  never ends. With a provider that returns what it was asked for, it keeps the same account as
  the current version.\<close>

lemma send_batch_hangs:
  "conns \<noteq> [] \<Longrightarrow> get_n (sd_provider st) (length conns) (sd_rng st) = Some (Inr [], pr, g)
     \<Longrightarrow> send_batch False get_n r conns st = None"
  by (simp add: send_batch_def fill_req_if_less_than_connections_def fill_loop_diverges)

locale full_request_provider = request_provider get_n ok
  for get_n :: "'s \<Rightarrow> usize \<Rightarrow> 'g \<Rightarrow> ((string + http_req list) \<times> 's \<times> 'g) option" and ok :: "'s \<Rightarrow> bool" +
  assumes get_n_full: "ok s \<Longrightarrow> 0 < n \<Longrightarrow> get_n s n g = Some (Inr rs, s', g') \<Longrightarrow> length rs = n"
begin

lemma send_round_v1_ok:
  assumes "ok (sd_provider st)" "round_ok r" "sd_remaining st \<noteq> 0" "b \<noteq> 0"
  shows "\<exists>x. send_round_v1 get_n b r st = Some x \<and> cycle_inv ok st (case x of Inl s \<Rightarrow> s | Inr s \<Rightarrow> s)
    \<and> (\<forall>s. x = Inr s \<longrightarrow> sd_remaining s \<noteq> 0)"
proof -
  define n where "n = min b (sd_remaining st)"
  with assms(3,4) have "n \<noteq> 0" by (simp add: min_def)
  obtain conns st1 where t: "take_connections r n st = (conns, st1)" by fastforce
  note frame = take_connections_frame [OF t]
  have "length conns \<le> unat n" by (rule take_connections_le [OF assms(2) t])
  also have "\<dots> \<le> unat (sd_remaining st)" unfolding n_def by (simp add: word_le_nat_alt [symmetric])
  finally have len: "length conns \<le> unat (sd_remaining st1)" by (simp add: frame)
  have ok1: "ok (sd_provider st1)" using assms(1) by (simp add: frame)
  show ?thesis
  proof (cases "conns = [] \<or> 1000 - cy_elapsed r < 0")
    case True
    have "cycle_inv ok st st1" using cycle_inv_refl [where ok = ok, OF ok1] by (simp add: cycle_inv_take [OF t])
    with True t \<open>n \<noteq> 0\<close> cycle_inv_refl [where ok = ok, OF assms(1)] assms(3) frame show ?thesis
      by (auto simp: send_round_v1_def Let_def n_def [symmetric] unat_gt_0)
  next
    case False
    have "rs \<noteq> []" if "get_n (sd_provider st1) (length conns) (sd_rng st1) = Some (Inr rs, pr, g)" for rs pr g
      using get_n_full [OF ok1 _ that] False by auto
    with send_batch_ok [OF ok1 _ len, of False r] False obtain x where
      x: "send_batch False get_n r conns st1 = Some x" "cycle_inv ok st1 (case x of Inl s \<Rightarrow> s | Inr s \<Rightarrow> s)"
      by auto
    moreover have "\<forall>s. x = Inr s \<longrightarrow> sd_remaining s \<noteq> 0"
      using x(1) by (auto simp: send_batch_def Let_def split: option.splits sum.splits if_splits bind_splits)
    ultimately show ?thesis using t False
      by (auto simp: send_round_v1_def Let_def n_def [symmetric] cycle_inv_take [OF t])
  qed
qed

lemma send_rounds_v1_ok:
  assumes "ok (sd_provider st)" "\<forall>r \<in> set rounds. round_ok r" "sd_remaining st \<noteq> 0" "b \<noteq> 0"
  shows "\<exists>out. send_rounds (send_round_v1 get_n b) rounds st = Some out \<and> cycle_inv ok st (outcome_state out)"
proof (rule send_rounds_run [where Q = "\<lambda>s. cycle_inv ok st s \<and> sd_remaining s \<noteq> 0"])
  fix r s
  assume r: "r \<in> set rounds" and s: "cycle_inv ok st s \<and> sd_remaining s \<noteq> 0"
  then have "ok (sd_provider s)" by (simp add: cycle_inv_def)
  from send_round_v1_ok [OF this _ _ assms(4), of r] r s assms(2) cycle_inv_trans
  show "\<exists>x. send_round_v1 get_n b r s = Some x \<and> (case x of Inl s \<Rightarrow> cycle_inv ok st s
      | Inr s \<Rightarrow> cycle_inv ok st s \<and> sd_remaining s \<noteq> 0)"
    by (fastforce split: sum.splits)
qed (use assms(3) cycle_inv_refl [where ok = ok, OF assms(1)] in auto)

lemma batch_cycle_ok:
  assumes "ok (sd_provider st)" "\<forall>r \<in> set rounds. round_ok r"
  shows "\<exists>out more. send_multiple_requests get_n env_bundle_size qps connection_count rounds st = Some out
    \<and> sd_sent (outcome_state out) = sd_sent st @ more \<and> length more \<le> unat qps
    \<and> (qps \<noteq> 0 \<longrightarrow> length more + unat (sd_remaining (outcome_state out)) = unat qps)"
proof (cases "qps = 0")
  case True
  then show ?thesis by (auto simp: send_multiple_requests_def)
next
  case False
  define w where "w = max (qps div 100 + 1) (of_nat env_bundle_size)"
  have "qps div 100 + 1 \<noteq> 0"
  proof
    assume "qps div 100 + 1 = 0"
    then have "unat (qps div 100) = unat (- 1 :: u32)" by (metis add_eq_0_iff2)
    moreover have "unat (qps div 100) = unat qps div 100" by (simp add: unat_div)
    moreover have "unat (- 1 :: u32) = 4294967295" by code_simp
    moreover have "unat qps < 4294967296" using unsigned_less [of qps] by simp
    ultimately show False by linarith
  qed
  then have "0 < qps div 100 + 1" by (simp only: word_gt_0)
  also have "\<dots> \<le> w" unfolding w_def by (rule max.cobounded1)
  finally have "w \<noteq> 0" by (simp only: word_gt_0)
  define b where "b = (if connection_count = 0 then min qps w else min qps (min connection_count w))"
  have "b \<noteq> 0" using False \<open>w \<noteq> 0\<close> by (auto simp: b_def min_def)
  from send_rounds_v1_ok [of "st\<lparr>sd_remaining := qps\<rparr>", OF _ assms(2) _ this] assms(1) False
  show ?thesis
    by (auto simp: send_multiple_requests_def cycle_inv_def Let_def b_def w_def)
qed

end

text \<open>All providers but the request file return what they are asked for.\<close>

definition provider_full_ok :: "('db, 'g, 'h, 'a) provider_state \<Rightarrow> bool" where
  "provider_full_ok = (\<lambda>(S, E, T, spec). provider_ok S E T spec \<and> (case spec of RequestFile _ \<Rightarrow> False | _ \<Rightarrow> True))"

lemma get_requests_kind:
  "get_requests S E T spec n g = Some (r, spec', g')
     \<Longrightarrow> (case spec of RequestFile _ \<Rightarrow> False | _ \<Rightarrow> True) = (case spec' of RequestFile _ \<Rightarrow> False | _ \<Rightarrow> True)"
  by (cases spec) (auto split: option.splits prod.splits)

interpretation full_providers: full_request_provider provider_get_n provider_full_ok
proof (unfold_locales, goal_cases)
  case (1 s n g)
  obtain S E T spec where "s = (S, E, T, spec)" by (cases s) auto
  with 1 have "provider_ok S E T spec" by (simp add: provider_full_ok_def)
  from get_requests_ok [OF this 1(2), of g] obtain r spec' g' where
    "get_requests S E T spec n g = Some (r, spec', g')" "provider_ok S E T spec'" by blast
  with 1(1) \<open>s = _\<close> get_requests_kind [of S E T spec n g] show ?case
    by (simp add: provider_get_n_def provider_full_ok_def)
next
  case (2 s n g rs s' g')
  obtain S E T spec where "s = (S, E, T, spec)" by (cases s) auto
  with 2 get_requests_ok [of S E T spec n g] show ?case
    by (auto simp: provider_get_n_def provider_full_ok_def)
next
  case (3 s n g rs s' g')
  obtain S E T spec where "s = (S, E, T, spec)" by (cases s) auto
  with 3 get_requests_ok [of S E T spec n g] show ?case
    by (auto simp: provider_get_n_def provider_full_ok_def split: request_spec_enum.splits)
qed

text \<open>In batch mode, with any provider but a request file, a cycle neither panics nor hangs and never
  sends more requests than the rate asks for.\<close>
theorem batch_cycle_within_rate:
  assumes "provider_full_ok (sd_provider st)" "\<forall>r \<in> set rounds. round_ok r"
  shows "\<exists>out more. send_multiple_requests provider_get_n env_bundle_size qps connection_count rounds st = Some out
    \<and> sd_sent (outcome_state out) = sd_sent st @ more \<and> length more \<le> unat qps
    \<and> (qps \<noteq> 0 \<longrightarrow> length more + unat (sd_remaining (outcome_state out)) = unat qps)"
  by (rule full_providers.batch_cycle_ok [OF assms])

end
