(* ===== verification/Secondary.thy ===== *)
theory Secondary
  imports Primary Send_Cycle
begin

text \<open>
  The secondary (\<open>cluster-executor/src/secondary.rs\<close>): a connection from a primary, from the handshake over the
  loop that handles the messages to the cleaning up of the registries, for both generation modes.

  The registries of the process are a record. A one-shot channel is a position in the list of their states, so that
  the sender, which the handler of a connection holds, and the receiver, which the registry holds, refer
  to the same channel. Parameters: fresh UUIDs, the creation and download of files, the Prometheus registry, what other
  connections do to the registries while one waits for its pool, and for each second what \<open>Send_Cycle\<close> takes. The
  response assertion and the channel to the Lua executor are only handed on to the requests (\<open>Http_Future\<close>)
  and are left out of the context. A list of received events that is used up means that the handler waits
  for the next one; \<open>None\<close> is a panic or a cycle that has not returned within its passes.
\<close>

section \<open>Job ids\<close>

text \<open>\<open>str::trim\<close> on the UTF-8 encodings of the characters with the property White_Space.\<close>

definition white_space :: "string list" where
  "white_space = map (map char_of)
     ([[9], [10], [11], [12], [13], [32], [194, 133], [194, 160], [225, 154, 128]]
      @ map (\<lambda>b. [226, 128, b]) [128, 129, 130, 131, 132, 133, 134, 135, 136, 137, 138, 168, 169, 175]
      @ [[226, 129, 159], [227, 128, 128 :: nat]])"

function trim_front :: "string list \<Rightarrow> string \<Rightarrow> string" where
  "trim_front ws s =
     (case find (\<lambda>w. w \<noteq> [] \<and> take (length w) s = w) ws of
        None \<Rightarrow> s
      | Some w \<Rightarrow> trim_front ws (drop (length w) s))"
  by pat_completeness auto
termination
proof (relation "measure (\<lambda>(ws, s). length s)")
  fix ws :: "string list" and s w
  assume "find (\<lambda>w. w \<noteq> [] \<and> take (length w) s = w) ws = Some w"
  then have "w \<noteq> []" "take (length w) s = w" by (auto simp: find_Some_iff)
  then show "((ws, drop (length w) s), (ws, s)) \<in> measure (\<lambda>(ws, s). length s)"
    by (cases s) auto
qed simp

declare trim_front.simps [simp del]

definition str_trim :: "string \<Rightarrow> string" where
  "str_trim s = rev (trim_front (map rev white_space) (rev (trim_front white_space s)))"

text \<open>The regular expression \<open>[0-9a-f]{8}-[0-9a-f]{4}-[0-9a-f]{4}-[0-9a-f]{4}-[0-9a-f]{12}(_[0-9]+)?$\<close>,
  which is not anchored at the front.\<close>

definition is_hex :: "char \<Rightarrow> bool" where
  "is_hex c \<longleftrightarrow> c \<in> set ''0123456789abcdef''"

definition is_digit :: "char \<Rightarrow> bool" where
  "is_digit c \<longleftrightarrow> c \<in> set ''0123456789''"

definition uuid_shape :: "string \<Rightarrow> bool" where
  "uuid_shape s \<longleftrightarrow> length s = 36
     \<and> list_all (\<lambda>i. if i \<in> {8, 13, 18, 23} then s ! i = CHR ''-'' else is_hex (s ! i)) [0..<36]"

definition matches_uuid :: "string \<Rightarrow> bool" where
  "matches_uuid s \<longleftrightarrow> uuid_shape (take 36 s)
     \<and> (case drop 36 s of [] \<Rightarrow> True | c # ds \<Rightarrow> c = CHR ''_'' \<and> ds \<noteq> [] \<and> list_all is_digit ds)"

definition has_uuid :: "string \<Rightarrow> bool" where
  "has_uuid n = list_ex (\<lambda>i. matches_uuid (drop i n)) [0..<length n]"

definition job_id :: "string \<Rightarrow> string option \<Rightarrow> string" where
  "job_id new_uuid request_name =
     (case request_name of
        None \<Rightarrow> new_uuid
      | Some n \<Rightarrow> if has_uuid n then n else str_trim n @ CHR ''-'' # new_uuid)"

section \<open>Files of the primary\<close>

record file_env =
  fl_create :: "string \<Rightarrow> bool"
  fl_fetch :: "string \<Rightarrow> string \<Rightarrow> string \<times> (string + unit)"

type_synonym files = "(string \<times> string) list"

definition path_file_name :: "string \<Rightarrow> string option" where
  "path_file_name p =
     (let f = takeWhile (\<lambda>c. c \<noteq> CHR ''/'') (trim_rev (rev p))
      in if f = [] \<or> f = ''..'' then None else Some (rev f))"

definition download_request_file_from_primary ::
  "file_env \<Rightarrow> string \<Rightarrow> string \<Rightarrow> files \<Rightarrow> ((string + unit) \<times> files) option" where
  "download_request_file_from_primary F file_path primary_uri files =
     (if map_of files file_path \<noteq> None then Some (Inr (), files)
      else if \<not> fl_create F file_path then Some (Inl (''filed to create file '' @ file_path), files)
      else (case path_file_name file_path of
              None \<Rightarrow> None
            | Some filename \<Rightarrow>
                (let (written, result) = fl_fetch F primary_uri filename
                 in Some (result, map_insert file_path written files))))"

definition prepare ::
  "file_env \<Rightarrow> ('h, 'a, 'p, 'db) request \<Rightarrow> string \<Rightarrow> files \<Rightarrow> ((string + unit) \<times> files) option" where
  "prepare F r primary_uri files =
     (case rq_req r of
        RequestFile f \<Rightarrow> download_request_file_from_primary F (rf_file_name f) primary_uri files
      | SplitRequestFile f \<Rightarrow> download_request_file_from_primary F (sf_file_name f) primary_uri files
      | _ \<Rightarrow> Some (Inr (), files))"

section \<open>Registries\<close>

datatype oneshot = Unsent | Notified | SenderDropped

record 'r secondary_world =
  connection_pools :: "(string \<times> queue_pool) list"
  usage_listener :: "(string \<times> nat) list"
  oneshots :: "oneshot list"
  sw_factory :: "'r metrics_factory"
  sw_files :: files

definition get_existing_queue_pool :: "string \<Rightarrow> 'r secondary_world \<Rightarrow> queue_pool option \<times> 'r secondary_world" where
  "get_existing_queue_pool job w =
     (map_of (connection_pools w) job, w\<lparr>connection_pools := map_remove job (connection_pools w)\<rparr>)"

definition register_usage :: "string \<Rightarrow> 'r secondary_world \<Rightarrow> nat \<times> 'r secondary_world" where
  "register_usage job w =
     (let c = length (oneshots w)
      in (c, w\<lparr>oneshots := oneshots w @ [Unsent], usage_listener := map_insert job c (usage_listener w)\<rparr>))"

text \<open>\<open>wait\<close> is what happens to the registries while the listener is waited for, at most 9.7 seconds.\<close>

definition init_connection_pool ::
  "('r secondary_world \<Rightarrow> 'r secondary_world) \<Rightarrow> nat \<Rightarrow> target \<Rightarrow> string \<Rightarrow> connection_keep_alive \<Rightarrow> bool
     \<Rightarrow> 'r secondary_world \<Rightarrow> ((queue_pool \<times> nat) option \<times> 'r secondary_world) option" where
  "init_connection_pool wait now target job ka elastic_pool w =
     (let host_port = t_host target @ CHR '':'' # show_nat (unat (t_port target));
          listener = map_of (usage_listener w) job;
          w = w\<lparr>usage_listener := map_remove job (usage_listener w)\<rparr>
      in case listener of
           None \<Rightarrow>
             (let (tx, w) = register_usage job w
              in Some (Some (queue_pool_new host_port ka elastic_pool now, tx), w))
         | Some rx \<Rightarrow>
             (let w = wait w
              in if oneshots w ! rx \<noteq> Notified
                 then Some (None, w\<lparr>usage_listener := map_insert job rx (usage_listener w)\<rparr>)
                 else (case get_existing_queue_pool job w of
                         (None, w) \<Rightarrow> None
                       | (Some queue_pool, w) \<Rightarrow>
                           (let (tx, w) = register_usage job w in Some (Some (queue_pool, tx), w)))))"

section \<open>Messages\<close>

datatype ('h, 'a, 'p, 'db) recv_event =
    RecvTimeout
  | RecvError string
  | RecvClosed
  | RecvMessage "('h, 'a, 'p, 'db) message_from_primary" cycle_env

text \<open>The first two messages; the result is an error or the content, and the events that are left.\<close>

fun check_for_metadata_msg ::
  "('h, 'a, 'p, 'db) recv_event list \<Rightarrow> ((string + string) \<times> ('h, 'a, 'p, 'db) recv_event list) option" where
  "check_for_metadata_msg [] = None"
| "check_for_metadata_msg (RecvTimeout # rx) = Some (Inl ''deadline has elapsed'', rx)"
| "check_for_metadata_msg (RecvError e # rx) = Some (Inl e, rx)"
| "check_for_metadata_msg (RecvClosed # rx) = Some (Inl ''No message received'', rx)"
| "check_for_metadata_msg (RecvMessage msg _ # rx) =
     Some (case msg of
             Metadata primary_host \<Rightarrow> Inr primary_host
           | _ \<Rightarrow> Inl ''Expected MessageFromPrimary::Metadata, but didn't receive'', rx)"

fun check_for_request_loop ::
  "nat \<Rightarrow> ('h, 'a, 'p, 'db) recv_event list
     \<Rightarrow> ((string + ('h, 'a, 'p, 'db) request) \<times> ('h, 'a, 'p, 'db) recv_event list) option" where
  "check_for_request_loop 0 rx = Some (Inl ''No message received'', rx)"
| "check_for_request_loop (Suc n) [] = None"
| "check_for_request_loop (Suc n) (RecvTimeout # rx) = Some (Inl ''deadline has elapsed'', rx)"
| "check_for_request_loop (Suc n) (RecvError e # rx) = Some (Inl e, rx)"
| "check_for_request_loop (Suc n) (RecvClosed # rx) = Some (Inl ''No message received'', rx)"
| "check_for_request_loop (Suc n) (RecvMessage msg _ # rx) =
     (case msg of
        Request r \<Rightarrow> Some (Inr r, rx)
      | Reset \<Rightarrow> check_for_request_loop n rx
      | _ \<Rightarrow> Some (Inl ''Expected MessageFromPrimary::Request|Reset, but didn't receive'', rx))"

definition check_for_request_msg ::
  "('h, 'a, 'p, 'db) recv_event list
     \<Rightarrow> ((string + ('h, 'a, 'p, 'db) request) \<times> ('h, 'a, 'p, 'db) recv_event list) option" where
  "check_for_request_msg rx = check_for_request_loop 2 rx"

section \<open>The handler of a connection\<close>

text \<open>The locals of the handler: \<open>hn_tx\<close> the channel that tells of the end of its use of the pool,
  \<open>hn_metrics\<close> its reference to the metrics of the job, and \<open>hn_unexpected\<close> the number of messages it has logged as
  unexpected.\<close>

record ('h, 'a, 'db, 'g) handler =
  hn_job_id :: string
  hn_primary_host :: string
  hn_ctx :: "(('db, 'g, 'h, 'a) provider_state, 'g) execution_context"
  hn_tx :: nat
  hn_metrics :: nat
  hn_reset :: bool
  hn_unexpected :: nat

datatype exit_status = ErrorExit | StopExit | FinishExit | ClosedExit | FailedExit string

record ('r, 'db, 'g, 'h, 'a) secondary_env =
  sv_source :: "('db, 'g) source_env"
  sv_gen :: "('h, 'g) gen_env"
  sv_template :: "('a, 'g) template_env"
  sv_registry :: "'r registry_ops"
  sv_file :: file_env
  sv_bundle_size :: nat

definition set_request_spec :: "('h, 'a, 'db) request_spec_enum
  \<Rightarrow> (('db, 'g, 'h, 'a) provider_state, 'g) execution_context \<Rightarrow> (('db, 'g, 'h, 'a) provider_state, 'g) execution_context" where
  "set_request_spec spec ctx =
     (case sd_provider (ex_state ctx) of (S, E, T, _) \<Rightarrow> ctx\<lparr>ex_state := (ex_state ctx)\<lparr>sd_provider := (S, E, T, spec)\<rparr>\<rparr>)"

definition handle_rate ::
  "nat \<Rightarrow> rate_message \<Rightarrow> cycle_env \<Rightarrow> (('db, 'g, 'h, 'a) provider_state, 'g) execution_context
     \<Rightarrow> (('db, 'g, 'h, 'a) provider_state, 'g) execution_context cycle_outcome option" where
  "handle_rate env_bundle_size rate e ctx =
     (case ex_generation_logic ctx of
        Immediate \<Rightarrow> handle_rate_msg_v2 provider_get_n rate e ctx
      | Batch _ \<Rightarrow> handle_rate_msg provider_get_n env_bundle_size rate e ctx)"

text \<open>One turn of the loop; the result holds how the loop is left, if it is.\<close>

definition handle_event ::
  "('r, 'db, 'g, 'h, 'a) secondary_env \<Rightarrow> ('h, 'a, 'p, 'db) recv_event \<Rightarrow> ('h, 'a, 'db, 'g) handler \<times> files
     \<Rightarrow> (exit_status option \<times> ('h, 'a, 'db, 'g) handler \<times> files) option" where
  "handle_event V ev = (\<lambda>(h, fs).
     (case ev of
        RecvTimeout \<Rightarrow> Some (None, h, fs)
      | RecvError _ \<Rightarrow> Some (Some ErrorExit, h, fs)
      | RecvClosed \<Rightarrow> Some (Some ClosedExit, h, fs)
      | RecvMessage msg e \<Rightarrow>
          (case msg of
             Metadata _ \<Rightarrow> Some (None, h\<lparr>hn_unexpected := hn_unexpected h + 1\<rparr>, fs)
           | Rates rate \<Rightarrow>
               (case handle_rate (sv_bundle_size V) rate e (hn_ctx h) of
                  Some (CycleReturned ctx) \<Rightarrow> Some (None, h\<lparr>hn_ctx := ctx\<rparr>, fs)
                | _ \<Rightarrow> None)
           | Stop \<Rightarrow> Some (Some StopExit, h, fs)
           | Finished \<Rightarrow> Some (Some FinishExit, h, fs)
           | Reset \<Rightarrow> Some (None, h\<lparr>hn_reset := True\<rparr>, fs)
           | Request req \<Rightarrow>
               (let h = (if \<not> hn_reset h then h\<lparr>hn_unexpected := hn_unexpected h + 1\<rparr> else h)
                in case prepare (sv_file V) req (hn_primary_host h) fs of
                     None \<Rightarrow> None
                   | Some (Inl e, fs) \<Rightarrow> Some (Some (FailedExit e), h, fs)
                   | Some (Inr _, fs) \<Rightarrow>
                       Some (None, h\<lparr>hn_ctx := set_request_spec (rq_req req) (hn_ctx h), hn_reset := False\<rparr>, fs)))))"

fun event_loop ::
  "('r, 'db, 'g, 'h, 'a) secondary_env \<Rightarrow> ('h, 'a, 'p, 'db) recv_event list \<Rightarrow> ('h, 'a, 'db, 'g) handler \<times> files
     \<Rightarrow> (exit_status option \<times> ('h, 'a, 'db, 'g) handler \<times> files) option" where
  "event_loop V [] (h, fs) = Some (None, h, fs)"
| "event_loop V (ev # rx) hf =
     (case handle_event V ev hf of
        None \<Rightarrow> None
      | Some (Some status, h, fs) \<Rightarrow> Some (Some status, h, fs)
      | Some (None, h, fs) \<Rightarrow> event_loop V rx (h, fs))"

text \<open>The end of the handler: the registries are updated, and the sender of the one-shot channel is dropped unless
  it was used.\<close>

definition exit_connection ::
  "'r registry_ops \<Rightarrow> exit_status \<Rightarrow> ('h, 'a, 'db, 'g) handler \<Rightarrow> 'r secondary_world \<Rightarrow> 'r secondary_world" where
  "exit_connection R status h w =
     (case status of
        ErrorExit \<Rightarrow> w\<lparr>connection_pools := map_insert (hn_job_id h) (sd_pool (ex_state (hn_ctx h))) (connection_pools w),
                       oneshots := (oneshots w)[hn_tx h := Notified]\<rparr>
      | StopExit \<Rightarrow> w\<lparr>connection_pools := map_remove (hn_job_id h) (connection_pools w),
                      usage_listener := map_remove (hn_job_id h) (usage_listener w),
                      sw_factory := remove_metrics R (hn_job_id h) (sw_factory w),
                      oneshots := (oneshots w)[hn_tx h := SenderDropped]\<rparr>
      | FinishExit \<Rightarrow> w\<lparr>connection_pools := map_remove (hn_job_id h) (connection_pools w),
                        usage_listener := map_remove (hn_job_id h) (usage_listener w),
                        sw_factory := remove_metrics R (hn_job_id h) (sw_factory w),
                        oneshots := (oneshots w)[hn_tx h := SenderDropped]\<rparr>
      | ClosedExit \<Rightarrow> w\<lparr>oneshots := (oneshots w)[hn_tx h := SenderDropped]\<rparr>
      | FailedExit _ \<Rightarrow> w\<lparr>oneshots := (oneshots w)[hn_tx h := SenderDropped]\<rparr>)"

text \<open>From the request to the start of the loop.\<close>

definition start_connection ::
  "('r, 'db, 'g, 'h, 'a) secondary_env \<Rightarrow> ('r secondary_world \<Rightarrow> 'r secondary_world) \<Rightarrow> nat \<Rightarrow> string \<Rightarrow> 'g \<Rightarrow> string
     \<Rightarrow> ('h, 'a, 'p, 'db) request \<Rightarrow> 'r secondary_world
     \<Rightarrow> ((string + ('h, 'a, 'db, 'g) handler) \<times> 'r secondary_world) option" where
  "start_connection V wait now new_uuid g primary_host request w =
     do { job \<leftarrow> (case rq_generation_mode request of
                    Immediate \<Rightarrow> rq_name request
                  | Batch _ \<Rightarrow> Some (job_id new_uuid (rq_name request)));
          (let elastic_pool = (case rq_concurrent_connection request of ConnElastic _ \<Rightarrow> True | _ \<Rightarrow> False)
           in do { (m, factory) \<leftarrow> metrics_with_buckets (sv_registry V) (rq_histogram_buckets request) job (sw_factory w);
                   (result, fs) \<leftarrow> prepare (sv_file V) request primary_host (sw_files w);
                   (let w = w\<lparr>sw_factory := factory, sw_files := fs\<rparr>
                    in case result of
                         Inl e \<Rightarrow> Some (Inl e, w)
                       | Inr _ \<Rightarrow>
                           (case init_connection_pool wait now (rq_target request) job (rq_connection_keep_alive request)
                                   elastic_pool w of
                              None \<Rightarrow> None
                            | Some (None, w) \<Rightarrow> Some (Inl ''Unable to create connection pool'', w)
                            | Some (Some (queue_pool, tx), w) \<Rightarrow>
                                Some (Inr \<lparr>hn_job_id = job, hn_primary_host = primary_host,
                                  hn_ctx = \<lparr>ex_prev_connection_count = 0, ex_time_offset = 0, ex_job_id = job,
                                    ex_state = \<lparr>sd_remaining = 0, sd_pool = queue_pool, sd_metrics = metrics_heap (sw_factory w) ! m,
                                      sd_tasks = [], sd_provider = (sv_source V, sv_gen V, sv_template V, rq_req request),
                                      sd_rng = g, sd_sent = [], sd_lost = []\<rparr>,
                                    ex_generation_logic = rq_generation_mode request\<rparr>,
                                  hn_tx = tx, hn_metrics = m, hn_reset = False, hn_unexpected = 0\<rparr>, w))) }) }"

datatype ('r, 'h, 'a, 'db, 'g) connection_result =
    Handshaking
  | ConnectionFailed string "'r secondary_world"
  | ConnectionRunning "('h, 'a, 'db, 'g) handler" "'r secondary_world"
  | ConnectionExited exit_status "('h, 'a, 'db, 'g) handler" "'r secondary_world"

definition run_connection ::
  "('r, 'db, 'g, 'h, 'a) secondary_env \<Rightarrow> ('h, 'a, 'p, 'db) recv_event list \<Rightarrow> ('h, 'a, 'db, 'g) handler
     \<Rightarrow> 'r secondary_world \<Rightarrow> ('r, 'h, 'a, 'db, 'g) connection_result option" where
  "run_connection V rx h w =
     (case event_loop V rx (h, sw_files w) of
        None \<Rightarrow> None
      | Some (None, h, fs) \<Rightarrow> Some (ConnectionRunning h (w\<lparr>sw_files := fs\<rparr>))
      | Some (Some status, h, fs) \<Rightarrow>
          Some (ConnectionExited status h (exit_connection (sv_registry V) status h (w\<lparr>sw_files := fs\<rparr>))))"

definition handle_connection_from_primary ::
  "('r, 'db, 'g, 'h, 'a) secondary_env \<Rightarrow> ('r secondary_world \<Rightarrow> 'r secondary_world) \<Rightarrow> nat \<Rightarrow> string \<Rightarrow> 'g
     \<Rightarrow> ('h, 'a, 'p, 'db) recv_event list \<Rightarrow> 'r secondary_world
     \<Rightarrow> ('r, 'h, 'a, 'db, 'g) connection_result option" where
  "handle_connection_from_primary V wait now new_uuid g rx w =
     (case check_for_metadata_msg rx of
        None \<Rightarrow> Some Handshaking
      | Some (Inl e, _) \<Rightarrow> Some (ConnectionFailed e w)
      | Some (Inr primary_host, rx) \<Rightarrow>
          (case check_for_request_msg rx of
             None \<Rightarrow> Some Handshaking
           | Some (Inl e, _) \<Rightarrow> Some (ConnectionFailed e w)
           | Some (Inr request, rx) \<Rightarrow>
               (case start_connection V wait now new_uuid g primary_host request w of
                  None \<Rightarrow> None
                | Some (Inl e, w) \<Rightarrow> Some (ConnectionFailed e w)
                | Some (Inr h, w) \<Rightarrow> run_connection V rx h w)))"

section \<open>Cycles under the handler\<close>

definition cycle_env_ok :: "cycle_env \<Rightarrow> bool" where
  "cycle_env_ok e \<longleftrightarrow> (\<forall>r \<in> set (ce_rounds e). round_ok r) \<and> clock_ok (ce_rounds e) \<and> 1002 \<le> length (ce_rounds e)"

lemma shift_rounds_ok:
  assumes "cycle_env_ok e" "0 \<le> d"
  shows "\<forall>r \<in> set (map (shift_round d) (ce_rounds e)). round_ok r" "clock_ok (map (shift_round d) (ce_rounds e))"
    "1001 < length (map (shift_round d) (ce_rounds e))"
  using assms by (auto simp: cycle_env_ok_def shift_round_def round_ok_def clock_ok_def sorted_wrt_map)

lemma resize_for_rate_frame:
  assumes "resize_for_rate rate now prev st = (prev', st')"
  shows "sd_provider st' = sd_provider st" "sd_sent st' = sd_sent st"
  using assms by (auto simp: resize_for_rate_def Let_def split: if_splits prod.splits)

context request_provider
begin

lemma handle_rate_msg_v2_ok:
  assumes "ok (sd_provider (ex_state ctx))" "ex_generation_logic ctx = Immediate" "cycle_env_ok e"
  shows "\<exists>ctx'. handle_rate_msg_v2 get_n rate e ctx = Some (CycleReturned ctx')
    \<and> ok (sd_provider (ex_state ctx')) \<and> ex_generation_logic ctx' = Immediate"
proof -
  obtain prev st where r: "resize_for_rate rate (ce_now e) (ex_prev_connection_count ctx) (ex_state ctx) = (prev, st)"
    by fastforce
  define d where "d = time_correction (ex_time_offset ctx)"
  have "0 \<le> d" by (simp add: d_def time_correction_def)
  note shift = shift_rounds_ok [OF assms(3) this]
  have "ok (sd_provider st)" using assms(1) resize_for_rate_frame [OF r] by simp
  from send_cycle_ok [OF this shift, of rate "ce_begin e + d"] r assms(2) show ?thesis
    by (auto simp: handle_rate_msg_v2_def Let_def d_def)
qed

end

text \<open>The providers of one secondary share their environment; only the request specification changes.\<close>

definition provider_in ::
  "('db, 'g) source_env \<Rightarrow> ('h, 'g) gen_env \<Rightarrow> ('a, 'g) template_env \<Rightarrow> ('db, 'g, 'h, 'a) provider_state \<Rightarrow> bool" where
  "provider_in S E T = (\<lambda>(S', E', T', spec). S' = S \<and> E' = E \<and> T' = T \<and> provider_ok S E T spec)"

interpretation local_providers: request_provider provider_get_n "provider_in S E T" for S E T
proof (unfold_locales, goal_cases)
  case (1 s n g)
  then obtain spec where "s = (S, E, T, spec)" "provider_ok S E T spec" by (cases s) (auto simp: provider_in_def)
  with get_requests_ok [of S E T spec n g] 1(2) show ?case
    by (auto simp: provider_get_n_def provider_in_def)
next
  case (2 s n g rs s' g')
  then obtain spec where "s = (S, E, T, spec)" "provider_ok S E T spec" by (cases s) (auto simp: provider_in_def)
  with get_requests_ok [of S E T spec n g] 2 show ?case
    by (auto simp: provider_get_n_def)
qed

section \<open>A complete session\<close>

text \<open>What a secondary needs to be able to work on a request: its files can be fetched, and its
  provider is well formed.\<close>

definition request_ready :: "('r, 'db, 'g, 'h, 'a) secondary_env \<Rightarrow> ('h, 'a, 'p, 'db) request \<Rightarrow> bool" where
  "request_ready V r \<longleftrightarrow> (\<forall>h fs. \<exists>fs'. prepare (sv_file V) r h fs = Some (Inr (), fs'))
     \<and> provider_ok (sv_source V) (sv_gen V) (sv_template V) (rq_req r)"

definition handler_inv :: "('r, 'db, 'g, 'h, 'a) secondary_env \<Rightarrow> bool \<Rightarrow> ('h, 'a, 'db, 'g) handler \<Rightarrow> bool" where
  "handler_inv V resetting h \<longleftrightarrow> hn_reset h = resetting \<and> hn_unexpected h = 0
     \<and> ex_generation_logic (hn_ctx h) = Immediate
     \<and> provider_in (sv_source V) (sv_gen V) (sv_template V) (sd_provider (ex_state (hn_ctx h)))"

lemma session_dead: "foldl session_step Violated ms = Violated"
  by (induction ms) auto

lemma session_ended: "foldl session_step Ended ms = Ended \<longleftrightarrow> ms = []"
  by (cases ms) (auto simp: session_dead)

lemmas session_simps = session_dead session_ended

lemma handle_event_rates:
  assumes "handler_inv V b h" "cycle_env_ok e"
  shows "\<exists>ctx. handle_event V (RecvMessage (Rates rate) e) (h, fs) = Some (None, h\<lparr>hn_ctx := ctx\<rparr>, fs)
    \<and> handler_inv V b (h\<lparr>hn_ctx := ctx\<rparr>)"
  using local_providers.handle_rate_msg_v2_ok [of "sv_source V" "sv_gen V" "sv_template V" "hn_ctx h" e rate] assms
  by (auto simp: handle_event_def handle_rate_def handler_inv_def)

lemma handle_event_request:
  assumes "handler_inv V True h" "request_ready V r"
  shows "\<exists>h' fs'. handle_event V (RecvMessage (Request r) e) (h, fs) = Some (None, h', fs') \<and> handler_inv V False h'
    \<and> hn_job_id h' = hn_job_id h \<and> hn_tx h' = hn_tx h"
proof -
  from assms(2) obtain fs' where "prepare (sv_file V) r (hn_primary_host h) fs = Some (Inr (), fs')"
    by (auto simp: request_ready_def)
  with assms show ?thesis
    by (auto simp: handle_event_def handler_inv_def request_ready_def set_request_spec_def provider_in_def
        split: prod.splits)
qed

lemma event_loop_session:
  assumes "foldl session_step (if b then Resetting else Running) (map fst mes) = Ended" "handler_inv V b h"
    and "\<And>r. Request r \<in> set (map fst mes) \<Longrightarrow> request_ready V r" "list_all (\<lambda>me. cycle_env_ok (snd me)) mes"
  shows "\<exists>status h' fs'. event_loop V (map (\<lambda>(m, e). RecvMessage m e) mes) (h, fs) = Some (Some status, h', fs')
    \<and> status \<in> {StopExit, FinishExit} \<and> hn_unexpected h' = 0 \<and> hn_job_id h' = hn_job_id h \<and> hn_tx h' = hn_tx h"
  using assms
proof (induction mes arbitrary: b h fs)
  case (Cons me mes)
  obtain m e where me: "me = (m, e)" by (cases me)
  have e: "cycle_env_ok e" using Cons.prems(4) me by simp
  show ?case
  proof (cases b)
    case True
    with Cons.prems(1) me obtain r where m: "m = Request r" by (cases m) (auto simp: session_simps)
    with Cons.prems(2,3) True me obtain h' fs' where
      "handle_event V (RecvMessage (Request r) e) (h, fs) = Some (None, h', fs')" "handler_inv V False h'"
      "hn_job_id h' = hn_job_id h" "hn_tx h' = hn_tx h"
      using handle_event_request [of V h r e fs] by auto
    with Cons.IH [of False h' fs'] Cons.prems True me m show ?thesis by auto
  next
    case False
    with Cons.prems(1) me consider (rate) rate where "m = Rates rate" | (reset) "m = Reset"
      | (stop) "m = Stop" "mes = []" | (finish) "m = Finished" "mes = []"
      by (cases m) (auto simp: session_simps)
    then show ?thesis
    proof cases
      case rate
      with handle_event_rates [OF Cons.prems(2) e, of rate fs] obtain ctx where
        "handle_event V (RecvMessage m e) (h, fs) = Some (None, h\<lparr>hn_ctx := ctx\<rparr>, fs)"
        "handler_inv V b (h\<lparr>hn_ctx := ctx\<rparr>)" by blast
      with Cons.IH [of False "h\<lparr>hn_ctx := ctx\<rparr>" fs] Cons.prems False me \<open>m = Rates rate\<close> show ?thesis by auto
    next
      case reset
      have "handler_inv V True (h\<lparr>hn_reset := True\<rparr>)" using Cons.prems(2) by (simp add: handler_inv_def)
      with Cons.IH [of True "h\<lparr>hn_reset := True\<rparr>" fs] Cons.prems False me reset show ?thesis
        by (auto simp: handle_event_def)
    qed (use Cons.prems(2) me in \<open>auto simp: handle_event_def handler_inv_def\<close>)
  qed
qed (auto split: if_splits)

section \<open>The registries\<close>

definition secondary_inv :: "('r \<Rightarrow> descriptor set) \<Rightarrow> 'r secondary_world \<Rightarrow> bool" where
  "secondary_inv view w \<longleftrightarrow> distinct (map fst (connection_pools w)) \<and> distinct (map fst (usage_listener w))
     \<and> list_all (\<lambda>jc. snd jc < length (oneshots w)) (usage_listener w) \<and> factory_inv view (sw_factory w)"

lemma snd_map_insert: "jc \<in> set (map_insert k v m) \<Longrightarrow> jc = (k, v) \<or> jc \<in> set m"
  by (induction k v m rule: map_insert.induct) (auto split: if_splits)

lemma usage_listener_bound:
  fixes n :: nat
  assumes "list_all (\<lambda>jc. snd jc < n) m" "v < n'" "n \<le> n'"
  shows "list_all (\<lambda>jc. snd jc < n') (map_insert k v m)"
  unfolding list_all_iff
proof
  fix jc assume "jc \<in> set (map_insert k v m)"
  then consider "jc = (k, v)" | "jc \<in> set m" using snd_map_insert by metis
  then show "snd jc < n'" using assms by cases (fastforce simp: list_all_iff)+
qed

lemma usage_listener_remove: "list_all P m \<Longrightarrow> list_all P (map_remove k m)"
  using set_map_remove_subset [of k m] by (auto simp: list_all_iff)

lemma register_usage_inv:
  assumes "secondary_inv view w" "register_usage job w = (c, w')"
  shows "secondary_inv view w'" "map_of (usage_listener w') job = Some c" "c < length (oneshots w')"
    "oneshots w' ! c = Unsent" "connection_pools w' = connection_pools w" "sw_factory w' = sw_factory w"
    "sw_files w' = sw_files w"
proof -
  have w': "c = length (oneshots w)"
    "w' = w\<lparr>oneshots := oneshots w @ [Unsent], usage_listener := map_insert job c (usage_listener w)\<rparr>"
    using assms(2) by (auto simp: register_usage_def Let_def)
  have "list_all (\<lambda>jc. snd jc < Suc c) (map_insert job c (usage_listener w))"
    using assms(1) w'(1) by (intro usage_listener_bound [where n = c]) (simp_all add: secondary_inv_def)
  with assms(1) w' show "secondary_inv view w'" by (simp add: secondary_inv_def)
qed (use assms(2) in \<open>auto simp: register_usage_def Let_def nth_append\<close>)

lemma init_connection_pool_new:
  assumes "secondary_inv view w" "map_of (usage_listener w) job = None"
  shows "\<exists>tx w'. init_connection_pool wait now t job ka el w
      = Some (Some (queue_pool_new (t_host t @ CHR '':'' # show_nat (unat (t_port t))) ka el now, tx), w')
    \<and> secondary_inv view w' \<and> map_of (usage_listener w') job = Some tx \<and> tx < length (oneshots w')
    \<and> sw_factory w' = sw_factory w \<and> sw_files w' = sw_files w"
proof -
  let ?w = "w\<lparr>usage_listener := map_remove job (usage_listener w)\<rparr>"
  obtain tx w' where r: "register_usage job ?w = (tx, w')" by fastforce
  have "secondary_inv view ?w" using assms(1) by (auto simp: secondary_inv_def intro: usage_listener_remove)
  note inv = register_usage_inv [OF this r]
  from r assms(2) inv show ?thesis
    by (auto simp: init_connection_pool_def Let_def)
qed

lemma exit_connection_inv:
  assumes "registry_ok R view" "secondary_inv view w"
  shows "secondary_inv view (exit_connection R status h w)"
  using assms remove_metrics_inv [OF assms(1), of "sw_factory w"]
  by (cases status) (auto simp: exit_connection_def secondary_inv_def intro: usage_listener_remove)

lemma exit_connection_clean:
  assumes "secondary_inv view w" "status \<in> {StopExit, FinishExit}"
  shows "map_of (connection_pools (exit_connection R status h w)) (hn_job_id h) = None"
    "map_of (usage_listener (exit_connection R status h w)) (hn_job_id h) = None"
  using assms by (auto simp: exit_connection_def secondary_inv_def)

lemma start_connection_ok:
  assumes "registry_ok (sv_registry V) view" "secondary_inv view w" "request_ready V r" "rq_name r = Some job"
    "rq_generation_mode r = Immediate" "map_of (usage_listener w) job = None"
  shows "\<exists>h w'. start_connection V wait now uuid g primary_host r w = Some (Inr h, w') \<and> handler_inv V False h
    \<and> hn_job_id h = job \<and> secondary_inv view w' \<and> map_of (usage_listener w') job = Some (hn_tx h)
    \<and> hn_tx h < length (oneshots w')"
proof -
  obtain m factory where m: "metrics_with_buckets (sv_registry V) (rq_histogram_buckets r) job (sw_factory w) = Some (m, factory)"
    "factory_inv view factory"
    using metrics_with_buckets_inv [OF assms(1), of "sw_factory w" "rq_histogram_buckets r" job] assms(2)
    by (auto simp: secondary_inv_def)
  obtain fs where fs: "prepare (sv_file V) r primary_host (sw_files w) = Some (Inr (), fs)"
    using assms(3) by (auto simp: request_ready_def)
  let ?w = "w\<lparr>sw_factory := factory, sw_files := fs\<rparr>"
  let ?el = "case rq_concurrent_connection r of ConnElastic _ \<Rightarrow> True | _ \<Rightarrow> False"
  have "secondary_inv view ?w" "map_of (usage_listener ?w) job = None"
    using assms(2,6) m(2) by (simp_all add: secondary_inv_def)
  from init_connection_pool_new [OF this, of wait now "rq_target r" "rq_connection_keep_alive r" ?el]
  obtain p tx w' where i: "init_connection_pool wait now (rq_target r) job (rq_connection_keep_alive r) ?el ?w = Some (Some (p, tx), w')"
    "secondary_inv view w'" "map_of (usage_listener w') job = Some tx" "tx < length (oneshots w')" by blast
  with assms(3-5) m(1) fs show ?thesis
    by (simp add: start_connection_def Let_def handler_inv_def provider_in_def request_ready_def)
qed

lemma run_connection_session:
  assumes "foldl session_step Running (map fst mes) = Ended" "handler_inv V False h"
    and "\<And>r. Request r \<in> set (map fst mes) \<Longrightarrow> request_ready V r" "list_all (\<lambda>me. cycle_env_ok (snd me)) mes"
    and "registry_ok (sv_registry V) view" "secondary_inv view w"
  shows "\<exists>status h' w'. run_connection V (map (\<lambda>(m, e). RecvMessage m e) mes) h w = Some (ConnectionExited status h' w')
    \<and> status \<in> {StopExit, FinishExit} \<and> hn_unexpected h' = 0 \<and> hn_job_id h' = hn_job_id h
    \<and> map_of (connection_pools w') (hn_job_id h) = None \<and> map_of (usage_listener w') (hn_job_id h) = None
    \<and> secondary_inv view w'"
proof -
  from event_loop_session [of False mes V h "sw_files w"] assms(1-4) obtain status h' fs' where
    l: "event_loop V (map (\<lambda>(m, e). RecvMessage m e) mes) (h, sw_files w) = Some (Some status, h', fs')"
    "status \<in> {StopExit, FinishExit}" "hn_unexpected h' = 0" "hn_job_id h' = hn_job_id h" by auto
  have "secondary_inv view (w\<lparr>sw_files := fs'\<rparr>)" using assms(6) by (simp add: secondary_inv_def)
  from exit_connection_inv [OF assms(5) this, of status h'] exit_connection_clean [OF this l(2), of "sv_registry V" h'] l
  show ?thesis by (auto simp: run_connection_def)
qed

text \<open>The handshake on the beginning of a session: metadata, perhaps a reset, and the request.\<close>

lemma session_handshake:
  assumes "session_of (map fst mes) = Ended"
  obtains primary_host r rest where
    "\<exists>rx. check_for_metadata_msg (map (\<lambda>(m, e). RecvMessage m e) mes) = Some (Inr primary_host, rx)
       \<and> check_for_request_msg rx = Some (Inr r, map (\<lambda>(m, e). RecvMessage m e) rest)"
    "foldl session_step Running (map fst rest) = Ended" "Request r \<in> set (map fst mes)" "set rest \<subseteq> set mes"
proof -
  from assms obtain ph e mes' where mes: "mes = (Metadata ph, e) # mes'" "foldl session_step AwaitRequest (map fst mes') = Ended"
  proof (cases mes)
    case (Cons me mes')
    obtain m e where "me = (m, e)" by (cases me)
    with Cons assms that show ?thesis by (cases m) (auto simp: session_of_def session_simps)
  qed (simp add: session_of_def)
  from mes(2) consider (request) r e' rest where "mes' = (Request r, e') # rest" "foldl session_step Running (map fst rest) = Ended"
    | (reset) e' mes'' where "mes' = (Reset, e') # mes''" "foldl session_step AwaitRequestAfterReset (map fst mes'') = Ended"
  proof (cases mes')
    case (Cons me rest)
    obtain m e where "me = (m, e)" by (cases me)
    with Cons mes(2) that show ?thesis by (cases m) (auto simp: session_simps)
  qed simp
  then show thesis
  proof cases
    case request
    with mes(1) that [of ph r rest] show ?thesis
      by (auto simp: check_for_request_msg_def numeral_2_eq_2)
  next
    case reset
    from reset(2) obtain r e'' rest where "mes'' = (Request r, e'') # rest" "foldl session_step Running (map fst rest) = Ended"
    proof (cases mes'')
      case (Cons me rest)
      obtain m e where "me = (m, e)" by (cases me)
      with Cons reset(2) that show ?thesis by (cases m) (auto simp: session_simps)
    qed simp
    with mes(1) reset(1) that [of ph r rest] show ?thesis
      by (auto simp: check_for_request_msg_def numeral_2_eq_2)
  qed
qed

lemma session_accepted:
  assumes "session_of (map fst mes) = Ended" "list_all (\<lambda>me. cycle_env_ok (snd me)) mes"
    and "\<And>r. Request r \<in> set (map fst mes)
            \<Longrightarrow> request_ready V r \<and> rq_name r = Some job \<and> rq_generation_mode r = Immediate"
    and "registry_ok (sv_registry V) view" "secondary_inv view w" "map_of (usage_listener w) job = None"
  shows "\<exists>status h w'. handle_connection_from_primary V wait now uuid g (map (\<lambda>(m, e). RecvMessage m e) mes) w
      = Some (ConnectionExited status h w')
    \<and> status \<in> {StopExit, FinishExit} \<and> hn_unexpected h = 0
    \<and> map_of (connection_pools w') job = None \<and> map_of (usage_listener w') job = None \<and> secondary_inv view w'"
proof -
  obtain ph r rest rx where hs: "check_for_metadata_msg (map (\<lambda>(m, e). RecvMessage m e) mes) = Some (Inr ph, rx)"
    "check_for_request_msg rx = Some (Inr r, map (\<lambda>(m, e). RecvMessage m e) rest)"
    "foldl session_step Running (map fst rest) = Ended" "Request r \<in> set (map fst mes)" "set rest \<subseteq> set mes"
    using session_handshake [OF assms(1)] by metis
  from start_connection_ok [OF assms(4,5), of r job wait now uuid g ph] assms(3) [OF hs(4)] assms(6)
  obtain h w1 where st: "start_connection V wait now uuid g ph r w = Some (Inr h, w1)" "handler_inv V False h"
    "hn_job_id h = job" "secondary_inv view w1" by blast
  have "\<And>r. Request r \<in> set (map fst rest) \<Longrightarrow> request_ready V r" "list_all (\<lambda>me. cycle_env_ok (snd me)) rest"
    using assms(2,3) hs(5) by (auto simp: list_all_iff)
  from run_connection_session [OF hs(3) st(2) this assms(4) st(4)] hs(1,2) st(1,3) show ?thesis
    by (auto simp: handle_connection_from_primary_def)
qed

section \<open>Coming back\<close>

lemma init_connection_pool_existing:
  assumes "secondary_inv view w" "map_of (usage_listener w) job = Some c" "oneshots w ! c = Notified"
    "map_of (connection_pools w) job = Some p"
  shows "\<exists>tx w'. init_connection_pool (\<lambda>u. u) now t job ka el w = Some (Some (p, tx), w')
    \<and> map_of (connection_pools w') job = None \<and> map_of (usage_listener w') job = Some tx
    \<and> sw_factory w' = sw_factory w \<and> sw_files w' = sw_files w"
proof -
  let ?w = "w\<lparr>usage_listener := map_remove job (usage_listener w), connection_pools := map_remove job (connection_pools w)\<rparr>"
  obtain tx w' where r: "register_usage job ?w = (tx, w')" by fastforce
  have "secondary_inv view ?w" using assms(1) by (auto simp: secondary_inv_def intro: usage_listener_remove)
  note inv = register_usage_inv [OF this r]
  have "map_of (connection_pools w') job = None" using inv(5) assms(1) by (simp add: secondary_inv_def)
  with r assms(2-4) inv show ?thesis
    by (auto simp: init_connection_pool_def Let_def get_existing_queue_pool_def)
qed

lemma init_connection_pool_blocked:
  assumes "secondary_inv view w" "map_of (usage_listener w) job = Some c" "oneshots w ! c \<noteq> Notified"
  shows "\<exists>w'. init_connection_pool (\<lambda>u. u) now t job ka el w = Some (None, w') \<and> secondary_inv view w'
    \<and> map_of (usage_listener w') job = Some c \<and> oneshots w' = oneshots w"
proof -
  have "c < length (oneshots w)"
    using assms(1) map_of_SomeD [OF assms(2)] by (auto simp: secondary_inv_def list_all_iff)
  then have "list_all (\<lambda>jc. snd jc < length (oneshots w)) (map_insert job c (map_remove job (usage_listener w)))"
    using assms(1) by (intro usage_listener_bound [where n = "length (oneshots w)"] usage_listener_remove)
      (simp_all add: secondary_inv_def)
  with assms show ?thesis by (simp add: init_connection_pool_def Let_def secondary_inv_def)
qed

text \<open>The part of starting a connection before its pool.\<close>

lemma start_connection_pool:
  assumes "registry_ok (sv_registry V) view" "secondary_inv view w" "request_ready V r" "rq_name r = Some job"
    "rq_generation_mode r = Immediate"
  obtains w1 where "secondary_inv view w1" "usage_listener w1 = usage_listener w" "oneshots w1 = oneshots w"
    "connection_pools w1 = connection_pools w"
    "\<And>p tx w2. init_connection_pool wait now (rq_target r) job (rq_connection_keep_alive r)
         (case rq_concurrent_connection r of ConnElastic _ \<Rightarrow> True | _ \<Rightarrow> False) w1 = Some (Some (p, tx), w2)
       \<Longrightarrow> \<exists>h. start_connection V wait now uuid g ph r w = Some (Inr h, w2) \<and> sd_pool (ex_state (hn_ctx h)) = p"
    "\<And>w2. init_connection_pool wait now (rq_target r) job (rq_connection_keep_alive r)
         (case rq_concurrent_connection r of ConnElastic _ \<Rightarrow> True | _ \<Rightarrow> False) w1 = Some (None, w2)
       \<Longrightarrow> start_connection V wait now uuid g ph r w = Some (Inl ''Unable to create connection pool'', w2)"
proof -
  obtain m factory where m: "metrics_with_buckets (sv_registry V) (rq_histogram_buckets r) job (sw_factory w) = Some (m, factory)"
    "factory_inv view factory"
    using metrics_with_buckets_inv [OF assms(1), of "sw_factory w" "rq_histogram_buckets r" job] assms(2)
    by (auto simp: secondary_inv_def)
  obtain fs where fs: "prepare (sv_file V) r ph (sw_files w) = Some (Inr (), fs)"
    using assms(3) by (auto simp: request_ready_def)
  let ?w = "w\<lparr>sw_factory := factory, sw_files := fs\<rparr>"
  have "secondary_inv view ?w" using assms(2) m(2) by (simp add: secondary_inv_def)
  then show thesis
    by (rule that [of ?w]) (use assms(4,5) m(1) fs in \<open>simp_all add: start_connection_def Let_def\<close>)
qed

text \<open>Attempts to open a connection for a job, one after the other: which of them succeed.\<close>

fun attempts ::
  "('r, 'db, 'g, 'h, 'a) secondary_env \<Rightarrow> nat \<Rightarrow> string \<Rightarrow> 'g \<Rightarrow> string \<Rightarrow> ('h, 'a, 'p, 'db) request list
     \<Rightarrow> 'r secondary_world \<Rightarrow> (bool list \<times> 'r secondary_world) option" where
  "attempts V now uuid g ph [] w = Some ([], w)"
| "attempts V now uuid g ph (r # rs) w =
     (case start_connection V (\<lambda>u. u) now uuid g ph r w of
        None \<Rightarrow> None
      | Some (res, w) \<Rightarrow>
          map_option (\<lambda>(bs, w). ((case res of Inl _ \<Rightarrow> False | Inr _ \<Rightarrow> True) # bs, w)) (attempts V now uuid g ph rs w))"

lemma blocked_attempts:
  assumes "registry_ok (sv_registry V) view" "secondary_inv view w" "map_of (usage_listener w) job = Some c"
    "oneshots w ! c \<noteq> Notified"
    "\<forall>r \<in> set rs. request_ready V r \<and> rq_name r = Some job \<and> rq_generation_mode r = Immediate"
  shows "\<exists>w'. attempts V now uuid g ph rs w = Some (replicate (length rs) False, w')"
  using assms(2-5)
proof (induction rs arbitrary: w)
  case (Cons r rs)
  from Cons.prems(4) have r: "request_ready V r" "rq_name r = Some job" "rq_generation_mode r = Immediate" by simp_all
  obtain w1 where w1: "secondary_inv view w1" "usage_listener w1 = usage_listener w" "oneshots w1 = oneshots w"
    "\<And>w2. init_connection_pool (\<lambda>u. u) now (rq_target r) job (rq_connection_keep_alive r)
         (case rq_concurrent_connection r of ConnElastic _ \<Rightarrow> True | _ \<Rightarrow> False) w1 = Some (None, w2)
       \<Longrightarrow> start_connection V (\<lambda>u. u) now uuid g ph r w = Some (Inl ''Unable to create connection pool'', w2)"
    by (rule start_connection_pool [OF assms(1) Cons.prems(1) r, where wait = "\<lambda>u. u" and now = now and uuid = uuid and g = g and ph = ph])
      (rule that; assumption)
  with init_connection_pool_blocked [OF w1(1), of job c] Cons.prems(2,3) obtain w2 where
    "start_connection V (\<lambda>u. u) now uuid g ph r w = Some (Inl ''Unable to create connection pool'', w2)"
    "secondary_inv view w2" "map_of (usage_listener w2) job = Some c" "oneshots w2 = oneshots w1" by metis
  with Cons.IH [of w2] Cons.prems w1(3) show ?case by auto
qed simp

section \<open>Properties\<close>

definition demo_secondary :: "(descriptor set, nat, unit, string, string) secondary_env" where
  "demo_secondary = \<lparr>sv_source = demo_source, sv_gen = demo_env, sv_template = demo_templates, sv_registry = set_registry,
     sv_file = \<lparr>fl_create = (\<lambda>_. True), fl_fetch = (\<lambda>_ _. ([], Inl ''connection reset''))\<rparr>, sv_bundle_size = 50\<rparr>"

definition demo_registries :: "descriptor set secondary_world" where
  "demo_registries = \<lparr>connection_pools = [], usage_listener = [], oneshots = [],
     sw_factory = metrics_factory_default {}, sw_files = []\<rparr>"

definition demo_handler :: "(string, string, nat, unit) handler" where
  "demo_handler = \<lparr>hn_job_id = ''demo'', hn_primary_host = ''10.0.0.1'',
     hn_ctx = \<lparr>ex_prev_connection_count = 0, ex_time_offset = 0, ex_job_id = ''demo'',
       ex_state = demo_send demo_provider, ex_generation_logic = Immediate\<rparr>,
     hn_tx = 0, hn_metrics = 0, hn_reset = False, hn_unexpected = 0\<rparr>"

definition demo_connected :: "descriptor set secondary_world" where
  "demo_connected = demo_registries\<lparr>usage_listener := [(''demo'', 0)], oneshots := [Unsent]\<rparr>"

lemma demo_registry_ok: "registry_ok (sv_registry demo_secondary) id"
  by (simp add: registry_ok_def set_registry_def demo_secondary_def)

lemma demo_secondary_inv: "secondary_inv id demo_registries" "secondary_inv id demo_connected"
  by (simp_all add: secondary_inv_def demo_registries_def demo_connected_def factory_inv_default)

lemma demo_request_ready: "request_ready demo_secondary demo_list_request"
  "rq_generation_mode demo_list_request = Immediate"
  using demo_source_rng
  by (simp_all add: request_ready_def demo_secondary_def demo_list_request_def demo_split_request_def prepare_def)

text \<open>C24: a connection that ends with an error of the channel gives its pool back, and the next connection for the
  same job continues with exactly that pool.\<close>
theorem reconnect_keeps_pool:
  assumes "registry_ok (sv_registry V) view" "secondary_inv view w" "map_of (usage_listener w) (hn_job_id h) = Some (hn_tx h)"
    "request_ready V r" "rq_name r = Some (hn_job_id h)" "rq_generation_mode r = Immediate"
  shows "\<exists>h' w'. start_connection V (\<lambda>u. u) now uuid g primary_host r (exit_connection (sv_registry V) ErrorExit h w) = Some (Inr h', w')
    \<and> sd_pool (ex_state (hn_ctx h')) = sd_pool (ex_state (hn_ctx h)) \<and> map_of (connection_pools w') (hn_job_id h) = None"
proof -
  let ?w = "exit_connection (sv_registry V) ErrorExit h w" and ?p = "sd_pool (ex_state (hn_ctx h))"
  let ?el = "case rq_concurrent_connection r of ConnElastic _ \<Rightarrow> True | _ \<Rightarrow> False"
  have c: "hn_tx h < length (oneshots w)"
    using assms(2) map_of_SomeD [OF assms(3)] by (auto simp: secondary_inv_def list_all_iff)
  obtain w1 where w1: "secondary_inv view w1" "usage_listener w1 = usage_listener ?w" "oneshots w1 = oneshots ?w"
    "connection_pools w1 = connection_pools ?w"
    "\<And>p tx w2. init_connection_pool (\<lambda>u. u) now (rq_target r) (hn_job_id h) (rq_connection_keep_alive r) ?el w1 = Some (Some (p, tx), w2)
       \<Longrightarrow> \<exists>h. start_connection V (\<lambda>u. u) now uuid g primary_host r ?w = Some (Inr h, w2) \<and> sd_pool (ex_state (hn_ctx h)) = p"
    by (rule start_connection_pool [OF assms(1) exit_connection_inv [OF assms(1,2), of ErrorExit h] assms(4-6),
          where wait = "\<lambda>u. u" and now = now and uuid = uuid and g = g and ph = primary_host]) (rule that; assumption)
  from w1(2-4) c assms(3) have "map_of (usage_listener w1) (hn_job_id h) = Some (hn_tx h)" "oneshots w1 ! hn_tx h = Notified"
    "map_of (connection_pools w1) (hn_job_id h) = Some ?p" by (simp_all add: exit_connection_def)
  from init_connection_pool_existing [OF w1(1) this, of now "rq_target r" "rq_connection_keep_alive r" ?el] w1(5)
  show ?thesis by metis
qed

theorem reconnect_keeps_pool_witness:
  "\<exists>h' w'. start_connection demo_secondary (\<lambda>u. u) 7 [] () ''10.0.0.1'' demo_list_request
       (exit_connection set_registry ErrorExit demo_handler demo_connected) = Some (Inr h', w')
     \<and> sd_pool (ex_state (hn_ctx h')) = two_ready_pool"
proof -
  have "\<exists>h' w'. start_connection demo_secondary (\<lambda>u. u) 7 [] () ''10.0.0.1'' demo_list_request
       (exit_connection (sv_registry demo_secondary) ErrorExit demo_handler demo_connected) = Some (Inr h', w')
     \<and> sd_pool (ex_state (hn_ctx h')) = sd_pool (ex_state (hn_ctx demo_handler))
     \<and> map_of (connection_pools w') (hn_job_id demo_handler) = None"
    by (rule reconnect_keeps_pool [OF demo_registry_ok demo_secondary_inv(2) _ demo_request_ready(1) _ demo_request_ready(2)])
      (simp_all add: demo_connected_def demo_handler_def demo_list_ready)
  then show ?thesis by (auto simp: demo_secondary_def demo_handler_def demo_send_def)
qed



text \<open>A download that fails leaves what was written so far, and the next attempt takes the file for complete.\<close>
theorem failed_download_is_kept:
  assumes "map_of files file_path = None" "fl_create F file_path" "path_file_name file_path = Some name"
    "fl_fetch F primary_uri name = (part, Inl e)"
  shows "\<exists>files'. download_request_file_from_primary F file_path primary_uri files = Some (Inl e, files')
    \<and> download_request_file_from_primary F file_path primary_uri files' = Some (Inr (), files')
    \<and> map_of files' file_path = Some part"
  using assms by (simp add: download_request_file_from_primary_def)

end
