(* ===== verification/Uploads.thy ===== *)
theory Uploads
  imports Secondary
begin

text \<open>
  Request files from their upload to the secondaries: the CSV and SQLite uploads
  (\<open>overload/src/overload/file_uploader.rs\<close>), the route that serves a file to other nodes
  (\<open>response_file\<close> and \<open>file_stream\<close> in \<open>overload/src/filters_cluster.rs\<close>) and its client
  (\<open>download_file_from_url\<close> in \<open>cluster-executor/src/secondary.rs\<close>).

  A body or a file that is read is the list of the results of its reads. Parameters: SQLite (\<open>upload_env\<close>, with the
  parsers of \<open>source_env\<close>), the CSV reader, which hands over the records, the gzip decoder and the copying of
  a stream, the file system and the HTTP client. \<open>None\<close> is a panic.
\<close>

section \<open>Streams\<close>

type_synonym byte_stream = "(string + string) list"

text \<open>The adapters change the type of the errors, \<open>to_io\<close>, and hand over the bytes of the buffers.\<close>

definition warp_stream :: "('e \<Rightarrow> string) \<Rightarrow> ('e + string) list \<Rightarrow> byte_stream" where
  "warp_stream to_io inner = map (\<lambda>data. case data of Inl e \<Rightarrow> Inl (to_io e) | Inr b \<Rightarrow> Inr b) inner"

definition convert_stream :: "('e \<Rightarrow> string) \<Rightarrow> ('e + string) list \<Rightarrow> byte_stream" where
  "convert_stream boxed data = map (\<lambda>x. map_sum boxed (\<lambda>y. y) x) data"

section \<open>Uploads\<close>

record csv_row =
  cv_method :: string
  cv_url :: string
  cv_body :: "string option"
  cv_headers :: string

record 'c upload_env =
  up_uri_ok :: "string \<Rightarrow> bool"
  up_headers_text :: "(string \<times> string) list \<Rightarrow> string + string"
  up_connect :: "string \<Rightarrow> string + 'c"
  up_create_table :: "'c \<Rightarrow> string + 'c"
  up_insert :: "string \<Rightarrow> string \<Rightarrow> string option \<Rightarrow> string \<Rightarrow> 'c \<Rightarrow> string + 'c"

definition csv_try_into :: "('db, 'g) source_env \<Rightarrow> 'c upload_env \<Rightarrow> csv_row \<Rightarrow> http_req option" where
  "csv_try_into S U row =
     (if \<not> up_uri_ok U (cv_url row) then None
      else do { m \<leftarrow> method_from S (cv_method row);
                headers \<leftarrow> headers_from S (cv_headers row);
                Some \<lparr>hr_id = [], hr_method = m, hr_url = cv_url row, hr_body = cv_body row, hr_headers = headers\<rparr> })"

fun csv_loop ::
  "('db, 'g) source_env \<Rightarrow> 'c upload_env \<Rightarrow> (string + csv_row) list \<Rightarrow> usize \<Rightarrow> 'c \<Rightarrow> (string + usize) \<times> 'c" where
  "csv_loop S U [] success c = (Inr success, c)"
| "csv_loop S U (Inl e # reader) success c = csv_loop S U reader success c"
| "csv_loop S U (Inr csv_req # reader) success c =
     (case csv_try_into S U csv_req of
        None \<Rightarrow> csv_loop S U reader success c
      | Some req \<Rightarrow>
          (let success = success + 1
           in case and_then (up_headers_text U (hr_headers req))
                     (\<lambda>headers. up_insert U (hr_url req) (hr_method req) (hr_body req) headers c) of
                Inl e \<Rightarrow> (Inl e, c)
              | Inr c \<Rightarrow> csv_loop S U reader success c))"

text \<open>The second component is the connection, if one was made.\<close>

definition csv_reader_to_sqlite ::
  "('db, 'g) source_env \<Rightarrow> 'c upload_env \<Rightarrow> (string + csv_row) list \<Rightarrow> string \<Rightarrow> (string + usize) \<times> 'c option" where
  "csv_reader_to_sqlite S U reader dest_file =
     (case up_connect U (''sqlite://'' @ dest_file) of
        Inl e \<Rightarrow> (Inl e, None)
      | Inr c \<Rightarrow> (case up_create_table U c of
                    Inl e \<Rightarrow> (Inl e, Some c)
                  | Inr c \<Rightarrow> apsnd Some (csv_loop S U reader 0 c)))"

definition file_upload_success_response :: "string \<Rightarrow> usize \<Rightarrow> (string \<times> string) list" where
  "file_upload_success_response file_name valid_count =
     map_insert ''valid_count'' (show_nat valid_count) (map_insert ''file'' file_name [])"

definition csv_stream_to_sqlite ::
  "('db, 'g) source_env \<Rightarrow> 'c upload_env \<Rightarrow> string \<Rightarrow> (string + csv_row) list \<Rightarrow> string
     \<Rightarrow> (generic_error + (string \<times> string) list) \<times> 'c option" where
  "csv_stream_to_sqlite S U file_name reader data_dir =
     (let (result, c) = csv_reader_to_sqlite S U reader (data_dir @ ''/'' @ file_name @ ''.sqlite'')
      in (case result of
            Inr resp \<Rightarrow> Inr (file_upload_success_response file_name resp)
          | Inl _ \<Rightarrow> Inl (generic_error_default\<lparr>ge_message := ''Unknown error.''\<rparr>), c))"

text \<open>\<open>valid_sqlite\<close> opens the file and counts its rows.\<close>

definition valid_sqlite :: "('db, 'g) source_env \<Rightarrow> string \<Rightarrow> string + usize" where
  "valid_sqlite S sqlite_file =
     and_then (sqlite_open S sqlite_file) (\<lambda>db. and_then (db_count S db) (\<lambda>n. Inr (i64_as_usize n)))"

text \<open>Creating the file, decoding and copying a stream. \<open>io_reopen\<close> is what SQLite finds in a file with the given bytes.\<close>

record ('db, 'g) io_env =
  io_create :: "string \<Rightarrow> string + unit"
  io_gunzip :: "byte_stream \<Rightarrow> byte_stream"
  io_copy :: "byte_stream \<Rightarrow> string \<times> (string + unit)"
  io_reopen :: "string \<Rightarrow> string \<Rightarrow> ('db, 'g) source_env"

definition save_sqlite ::
  "('db, 'g) io_env \<Rightarrow> string \<Rightarrow> byte_stream \<Rightarrow> string \<Rightarrow> string \<Rightarrow> files
     \<Rightarrow> (generic_error + (string \<times> string) list) \<times> files" where
  "save_sqlite I file_name http_stream data_dir content_encoding files =
     (let dest = set_extension ''sqlite'' (path_join data_dir file_name)
      in case io_create I dest of
           Inl e \<Rightarrow> (Inl (internal_500 (''failed to create file: '' @ dest @ '', error: '' @ e)), files)
         | Inr _ \<Rightarrow>
             (let reader = warp_stream (\<lambda>e. e) http_stream;
                  (written, result) = io_copy I (if content_encoding = ''gzip'' then io_gunzip I reader else reader);
                  files = map_insert dest written files
              in (and_then (map_sum generic_error_from (\<lambda>u. u) result) (\<lambda>_.
                    and_then (map_sum generic_error_from (\<lambda>n. n) (valid_sqlite (io_reopen I dest written) dest)) (\<lambda>valid_count.
                      Inr (file_upload_success_response file_name valid_count))), files)))"

section \<open>Serving a file\<close>

definition data_dir :: "string option \<Rightarrow> string" where
  "data_dir env_var = (case env_var of Some e \<Rightarrow> e | None \<Rightarrow> ''/tmp'')"

text \<open>The stream of a file with \<open>len\<close> bytes left to send; each read gives an error or bytes, no bytes at the end of
  the file. Reads that are used up are reads that are still pending.\<close>

fun file_chunks :: "u64 \<Rightarrow> byte_stream \<Rightarrow> byte_stream" where
  "file_chunks len [] = []"
| "file_chunks len (r # reads) =
     (if len = 0 then []
      else case r of
             Inl err \<Rightarrow> Inl err # file_chunks len reads
           | Inr chunk \<Rightarrow>
               if chunk = [] then []
               else if length chunk > len then Inr (take len chunk) # file_chunks 0 reads
               else Inr chunk # file_chunks (len - length chunk) reads)"

definition file_stream :: "(u64 \<Rightarrow> string + byte_stream) \<Rightarrow> byte_stream \<Rightarrow> u64 \<times> u64 \<Rightarrow> byte_stream" where
  "file_stream seek file se =
     (let (start, fin) = se
      in case if start \<noteq> 0 then seek start else Inr file of
           Inl err \<Rightarrow> [Inl err]
         | Inr file \<Rightarrow> file_chunks (usize_sub fin start) file)"

record disk_env =
  dk_open :: "string \<Rightarrow> string + byte_stream"
  dk_len :: "string \<Rightarrow> string + u64"
  dk_seek :: "string \<Rightarrow> u64 \<Rightarrow> string + byte_stream"

definition body_from_file :: "disk_env \<Rightarrow> string \<Rightarrow> generic_error + byte_stream" where
  "body_from_file D path =
     and_then (map_sum generic_error_from (\<lambda>f. f) (dk_open D path)) (\<lambda>file.
     and_then (map_sum generic_error_from (\<lambda>n. n) (dk_len D path)) (\<lambda>len.
     Inr (file_stream (dk_seek D path) file (0, len))))"

text \<open>\<open>StatusCode::from_u16\<close> accepts the codes from 100 to 999.\<close>

definition status_code :: "nat \<Rightarrow> nat option" where
  "status_code n = (if 100 \<le> n \<and> n < 1000 then Some n else None)"

definition response_file ::
  "disk_env \<Rightarrow> (generic_error \<Rightarrow> string) \<Rightarrow> string option \<Rightarrow> string \<Rightarrow> (nat \<times> byte_stream) option" where
  "response_file D error_text env_var filename =
     (case body_from_file D (data_dir env_var @ ''/'' @ filename) of
        Inr body \<Rightarrow> Some (200, body)
      | Inl e \<Rightarrow> do { code \<leftarrow> status_code (error_code e); Some (code, [Inr (error_text e)]) })"

section \<open>Fetching a file\<close>

record fetch_env =
  ft_url :: "string \<Rightarrow> nat \<Rightarrow> string \<Rightarrow> string option"
  ft_build :: "string \<Rightarrow> string + unit"
  ft_request :: "string \<Rightarrow> string + nat \<times> byte_stream"
  ft_copy :: "byte_stream \<Rightarrow> string \<times> (string + unit)"

definition download_file_from_url ::
  "fetch_env \<Rightarrow> string option \<Rightarrow> string \<Rightarrow> string \<Rightarrow> (string \<times> (string + unit)) option" where
  "download_file_from_url H port_var host filename =
     do { url \<leftarrow> ft_url H host (http_port port_var) filename;
          Some (case and_then (ft_build H url) (\<lambda>_. ft_request H url) of
                  Inl e \<Rightarrow> ([], Inl e)
                | Inr (_, body) \<Rightarrow> ft_copy H body) }"


section \<open>What an upload stores\<close>

text \<open>What the code relies on: SQLite appends a row and gives it the rowid after the largest one, the text of a map of
  headers is read as the same map, and the text of an HTTP method as the same method.\<close>

definition table_ok :: "'c upload_env \<Rightarrow> ('c \<Rightarrow> sqlite_row list) \<Rightarrow> bool" where
  "table_ok U rows \<longleftrightarrow> (\<forall>url m b h c. \<exists>c'. up_insert U url m b h c = Inr c'
     \<and> rows c' = rows c @ [\<lparr>row_rowid = int (length (rows c)) + 1, row_method = m, row_url = url, row_body = b, row_headers = h\<rparr>])"

definition texts_ok :: "('db, 'g) source_env \<Rightarrow> 'c upload_env \<Rightarrow> bool" where
  "texts_ok S U \<longleftrightarrow> (\<forall>s h. headers_from S s = Some h \<longrightarrow> (\<exists>t. up_headers_text U h = Inr t \<and> headers_from S t = Some h))
     \<and> (\<forall>s m. method_from S s = Some m \<longrightarrow> method_from S m = Some m)"

definition uploaded :: "('db, 'g) source_env \<Rightarrow> 'c upload_env \<Rightarrow> (string + csv_row) list \<Rightarrow> http_req list" where
  "uploaded S U reader = List.map_filter (\<lambda>r. case r of Inl _ \<Rightarrow> None | Inr row \<Rightarrow> csv_try_into S U row) reader"

definition numbered :: "nat \<Rightarrow> http_req list \<Rightarrow> http_req list" where
  "numbered k qs = map (\<lambda>(i, q). q\<lparr>hr_id := show_int (int i)\<rparr>) (enumerate k qs)"

lemma rows_to_requests_append:
  "rows_to_requests S (xs @ ys)
     = do { qs \<leftarrow> rows_to_requests S xs; qs' \<leftarrow> rows_to_requests S ys; Some (qs @ qs') }"
  by (induction xs) (auto split: Option.bind_splits)

lemma csv_loop_stores:
  assumes "table_ok U rows" "texts_ok S U" "rows_to_requests S (rows c) = Some qs"
  shows "\<exists>c'. csv_loop S U reader n c = (Inr (n + length (uploaded S U reader)), c')
    \<and> rows_to_requests S (rows c') = Some (qs @ numbered (length (rows c) + 1) (uploaded S U reader))"
  using assms(3)
proof (induction reader arbitrary: n c qs)
  case Nil
  then show ?case by (simp add: uploaded_def numbered_def map_filter_simps)
next
  case (Cons r reader)
  show ?case
  proof (cases "case r of Inl _ \<Rightarrow> None | Inr row \<Rightarrow> csv_try_into S U row")
    case None
    then show ?thesis using Cons by (cases r) (auto simp: uploaded_def map_filter_simps)
  next
    case (Some req)
    then obtain row where row: "r = Inr row" "csv_try_into S U row = Some req" by (cases r) auto
    obtain t where t: "up_headers_text U (hr_headers req) = Inr t" "headers_from S t = Some (hr_headers req)"
      using assms(2) row(2) unfolding texts_ok_def
      by (force simp: csv_try_into_def split: if_splits Option.bind_splits)
    let ?row = "\<lparr>row_rowid = int (length (rows c)) + 1, row_method = hr_method req, row_url = hr_url req,
      row_body = hr_body req, row_headers = t\<rparr>"
    obtain c1 where c1: "up_insert U (hr_url req) (hr_method req) (hr_body req) t c = Inr c1" "rows c1 = rows c @ [?row]"
      using assms(1) unfolding table_ok_def by metis
    have "method_from S (hr_method req) = Some (hr_method req)"
      using row(2) assms(2) by (auto simp: csv_try_into_def texts_ok_def split: if_splits Option.bind_splits)
    then have "rows_to_requests S (rows c1) = Some (qs @ [req\<lparr>hr_id := show_int (int (length (rows c)) + 1)\<rparr>])"
      using Cons.prems c1(2) t(2) by (simp add: rows_to_requests_append http_req_from_row_def)
    from Cons.IH [OF this, of "n + 1"] show ?thesis
      using row t(1) c1 by (auto simp: uploaded_def map_filter_simps numbered_def add.commute)
  qed
qed

section \<open>What a download delivers\<close>

lemma file_chunks_0 [simp]: "file_chunks 0 reads = []"
  by (cases reads) auto

lemma file_chunks_deliver:
  assumes "[] \<notin> set blocks" "len \<le> length (concat blocks)"
  shows "\<exists>cs. file_chunks len (map Inr blocks @ rest) = map Inr cs \<and> concat cs = take len (concat blocks)"
  using assms
proof (induction blocks arbitrary: len)
  case (Cons b blocks)
  consider "len = 0" | "0 < len" "len < length b" | "0 < len" "length b \<le> len" by linarith
  then show ?case
  proof cases
    case 1
    then show ?thesis by (simp add: exI [of _ "[]"])
  next
    case 2
    then have "file_chunks len (map Inr (b # blocks) @ rest) = map Inr [take len b]" "concat [take len b] = take len (concat (b # blocks))"
      using Cons.prems(1) by auto
    then show ?thesis by blast
  next
    case 3
    from Cons.prems have "[] \<notin> set blocks" "len - length b \<le> length (concat blocks)" by simp_all
    from Cons.IH [OF this] obtain cs where "file_chunks (len - length b) (map Inr blocks @ rest) = map Inr cs"
      "concat cs = take (len - length b) (concat blocks)" by blast
    with 3 Cons.prems(1) have "file_chunks len (map Inr (b # blocks) @ rest) = map Inr (b # cs)"
      "concat (b # cs) = take len (concat (b # blocks))" by auto
    then show ?thesis by blast
  qed
qed simp

text \<open>The data directory is the default or an absolute path that does not end in a separator.\<close>

definition plain_data_dir :: "string option \<Rightarrow> bool" where
  "plain_data_dir env_var \<longleftrightarrow> data_dir env_var \<noteq> [] \<and> hd (data_dir env_var) = CHR ''/'' \<and> last (data_dir env_var) \<noteq> CHR ''/''"

lemma uuid_plain:
  assumes "uuid_shape u"
  shows "u \<noteq> []" "CHR ''/'' \<notin> set u" "CHR ''.'' \<notin> set u"
proof -
  have "length u = 36" and *: "\<And>i. i < 36 \<Longrightarrow> if i \<in> {8, 13, 18, 23} then u ! i = CHR ''-'' else is_hex (u ! i)"
    using assms by (auto simp: uuid_shape_def list_all_iff)
  then show "u \<noteq> []" by auto
  have "c = CHR ''-'' \<or> is_hex c" if "c \<in> set u" for c
    using that * \<open>length u = 36\<close> unfolding in_set_conv_nth by metis
  then show "CHR ''/'' \<notin> set u" "CHR ''.'' \<notin> set u" by (auto simp: is_hex_def)
qed

lemma uuid_request_path:
  assumes "plain_data_dir env_var" "uuid_shape u"
  shows "file_name_deserializer env_var u = data_dir env_var @ ''/'' @ u @ ''.sqlite''"
    "path_file_name (data_dir env_var @ ''/'' @ u @ ''.sqlite'') = Some (u @ ''.sqlite'')"
proof -
  note u = uuid_plain [OF assms(2)]
  let ?d = "data_dir env_var"
  have d: "data_dir_path env_var = ?d" "?d \<noteq> []" "last ?d \<noteq> CHR ''/''"
    using assms(1) by (auto simp: plain_data_dir_def data_dir_def data_dir_path_def path_join_def split: option.splits)
  obtain x xs where x: "rev u = x # xs" using u(1) by (cases "rev u") auto
  then have set_u: "set u = insert x (set xs)" by (metis list.simps(15) set_rev)
  have t: "trim_rev (rev u @ CHR ''/'' # rev ?d) = rev u @ CHR ''/'' # rev ?d"
    using u set_u x by (cases xs) auto
  have tw: "takeWhile (\<lambda>c. c \<noteq> CHR ''/'') (rev u @ CHR ''/'' # rev ?d) = rev u"
    "dropWhile (\<lambda>c. c \<noteq> CHR ''/'') (rev u @ CHR ''/'' # rev ?d) = CHR ''/'' # rev ?d"
    using u(2) split_at_first [of "CHR ''/''" "rev u"] by auto
  have "dropWhile (\<lambda>c. c \<noteq> CHR ''.'') (rev u) = []" using u(3) by (auto simp: dropWhile_eq_Nil_conv)
  then have stem: "stem_rev (rev u) = rev u" by (simp only: stem_rev_def list.case)
  have "path_join ?d u = ?d @ ''/'' @ u" using d u by (cases u) (auto simp: path_join_def)
  then show "file_name_deserializer env_var u = ?d @ ''/'' @ u @ ''.sqlite''"
    using t tw stem u by (auto simp: file_name_deserializer_def set_extension_def d Let_def)
  show "path_file_name (?d @ ''/'' @ u @ ''.sqlite'') = Some (u @ ''.sqlite'')"
    using tw u by (simp add: path_file_name_def Let_def)
qed


section \<open>Properties\<close>

text \<open>C14: a CSV upload stores exactly the records that are well-formed requests, in their order, and answers their
  number; reading the rows of the file gives the same requests back, numbered from 1. Records that are not well-formed are
  skipped. The table is empty at first, since the name of the file is a fresh UUID.\<close>
theorem uploaded_requests_read_back:
  assumes "table_ok U rows" "texts_ok S U"
    "up_connect U (''sqlite://'' @ dir @ ''/'' @ name @ ''.sqlite'') = Inr c0" "up_create_table U c0 = Inr c1" "rows c1 = []"
  shows "\<exists>c. csv_stream_to_sqlite S U name reader dir
        = (Inr [(''file'', name), (''valid_count'', show_nat (length (uploaded S U reader)))], Some c)
      \<and> rows_to_requests S (rows c) = Some (numbered 1 (uploaded S U reader))"
proof -
  obtain c where "csv_loop S U reader 0 c1 = (Inr (length (uploaded S U reader)), c)"
    "rows_to_requests S (rows c) = Some (numbered 1 (uploaded S U reader))"
    using csv_loop_stores [OF assms(1,2), of c1 "[]" reader 0] assms(5) by auto
  then show ?thesis
    using assms(3,4) by (simp add: csv_stream_to_sqlite_def csv_reader_to_sqlite_def file_upload_success_response_def)
qed

definition csv_source :: "(nat, unit) source_env" where
  "csv_source = demo_source\<lparr>method_from := (\<lambda>m. if m \<in> {''GET'', ''POST''} then Some m else None),
     headers_from := (\<lambda>t. if t = ''{}'' then Some [] else None)\<rparr>"

definition csv_upload :: "sqlite_row list upload_env" where
  "csv_upload = \<lparr>up_uri_ok = (\<lambda>u. u \<noteq> []), up_headers_text = (\<lambda>h. if h = [] then Inr ''{}'' else Inl ''no text''),
     up_connect = (\<lambda>_. Inr []), up_create_table = Inr,
     up_insert = (\<lambda>url m b h rows. Inr (rows @ [\<lparr>row_rowid = int (length rows) + 1, row_method = m, row_url = url,
       row_body = b, row_headers = h\<rparr>]))\<rparr>"

definition csv_records :: "(string + csv_row) list" where
  "csv_records =
     [Inr \<lparr>cv_method = ''GET'', cv_url = ''/a'', cv_body = None, cv_headers = ''{}''\<rparr>,
      Inl ''record of length 3'',
      Inr \<lparr>cv_method = ''GETS'', cv_url = ''/b'', cv_body = None, cv_headers = ''{}''\<rparr>,
      Inr \<lparr>cv_method = ''POST'', cv_url = ''/c'', cv_body = Some ''x'', cv_headers = ''{}''\<rparr>]"

theorem uploaded_requests_read_back_witness:
  "\<exists>rows. csv_stream_to_sqlite csv_source csv_upload ''f'' csv_records ''/tmp''
        = (Inr [(''file'', ''f''), (''valid_count'', ''2'')], Some rows)
     \<and> rows_to_requests csv_source rows
        = Some [\<lparr>hr_id = ''1'', hr_method = ''GET'', hr_url = ''/a'', hr_body = None, hr_headers = []\<rparr>,
                \<lparr>hr_id = ''2'', hr_method = ''POST'', hr_url = ''/c'', hr_body = Some ''x'', hr_headers = []\<rparr>]"
proof -
  have "table_ok csv_upload (\<lambda>rows. rows)" by (simp add: table_ok_def csv_upload_def)
  moreover have "texts_ok csv_source csv_upload" by (auto simp: texts_ok_def csv_source_def csv_upload_def)
  moreover have u: "numbered 1 (uploaded csv_source csv_upload csv_records)
      = [\<lparr>hr_id = ''1'', hr_method = ''GET'', hr_url = ''/a'', hr_body = None, hr_headers = []\<rparr>,
         \<lparr>hr_id = ''2'', hr_method = ''POST'', hr_url = ''/c'', hr_body = Some ''x'', hr_headers = []\<rparr>]"
    "show_nat (length (uploaded csv_source csv_upload csv_records)) = ''2''"
    by code_simp+
  ultimately show ?thesis
    using uploaded_requests_read_back [of csv_upload "\<lambda>rows. rows" csv_source "''/tmp''" "''f''" "[]" "[]" csv_records]
    unfolding u by (simp add: csv_upload_def)
qed

text \<open>The client of the route: the answer to the address of a file is that of \<open>response_file\<close> on the primary, and
  a body without errors is copied completely.\<close>

definition fetches :: "fetch_env \<Rightarrow> string option \<Rightarrow> string \<Rightarrow> (nat \<times> byte_stream) option \<Rightarrow> string \<Rightarrow> bool" where
  "fetches H port_var host answer filename \<longleftrightarrow>
     (\<exists>url. ft_url H host (http_port port_var) filename = Some url \<and> ft_build H url = Inr ()
        \<and> map_option Inr answer = Some (ft_request H url))
     \<and> (\<forall>cs. ft_copy H (map Inr cs) = (concat cs, Inr ()))"

lemma fetched_file:
  assumes "fetches H port_var host (Some (code, map Inr cs)) filename"
  shows "download_file_from_url H port_var host filename = Some (concat cs, Inr ())"
  using assms by (auto simp: fetches_def download_file_from_url_def) (metis sum.case(2) prod.case)

text \<open>C13: the file of an upload reaches the secondaries: the name an upload answers is read in a job description as the
  path at which the upload was stored, and a secondary that does not have the file gets exactly its bytes from the
  primary, whatever the sizes of the reads.\<close>
theorem uploaded_file_reaches_secondary:
  assumes "plain_data_dir env_var" "uuid_shape name"
    and "dk_open D (data_dir env_var @ ''/'' @ name @ ''.sqlite'') = Inr (map Inr blocks @ rest)" "[] \<notin> set blocks"
    and "dk_len D (data_dir env_var @ ''/'' @ name @ ''.sqlite'') = Inr (length (concat blocks))"
    and "fetches H port_var host (response_file D error_text env_var (name @ ''.sqlite'')) (name @ ''.sqlite'')"
    and "download_file_from_url H port_var host (name @ ''.sqlite'') = Some (fl_fetch F host (name @ ''.sqlite''))"
    and "map_of files (file_name_deserializer env_var name) = None" "fl_create F (file_name_deserializer env_var name)"
  shows "file_name_deserializer env_var name = data_dir env_var @ ''/'' @ name @ ''.sqlite''
    \<and> download_request_file_from_primary F (file_name_deserializer env_var name) host files
      = Some (Inr (), map_insert (file_name_deserializer env_var name) (concat blocks) files)"
proof
  note p = uuid_request_path [OF assms(1,2)]
  show "file_name_deserializer env_var name = data_dir env_var @ ''/'' @ name @ ''.sqlite''" by (rule p(1))
  obtain cs where "file_chunks (length (concat blocks)) (map Inr blocks @ rest) = map Inr cs" "concat cs = concat blocks"
    using file_chunks_deliver [OF assms(4) order_refl, of rest] by auto
  then have "response_file D error_text env_var (name @ ''.sqlite'') = Some (200, map Inr cs)"
    using assms(3,5) by (simp add: response_file_def body_from_file_def file_stream_def)
  then have "fl_fetch F host (name @ ''.sqlite'') = (concat blocks, Inr ())"
    using assms(6,7) fetched_file \<open>concat cs = concat blocks\<close> by fastforce
  then show "download_request_file_from_primary F (file_name_deserializer env_var name) host files
      = Some (Inr (), map_insert (file_name_deserializer env_var name) (concat blocks) files)"
    using assms(8,9) p by (simp add: download_request_file_from_primary_def)
qed

definition served_uuid :: string where
  "served_uuid = ''7e19ae6b-59af-4916-8cc0-a04cc48a739b''"

definition served_disk :: disk_env where
  "served_disk = \<lparr>dk_open = (\<lambda>_. Inr (map Inr [''SQLite '', ''format 3''] @ [Inr []])), dk_len = (\<lambda>_. Inr 15),
     dk_seek = (\<lambda>_ _. Inl ''no seek'')\<rparr>"

definition served_fetch :: fetch_env where
  "served_fetch = \<lparr>ft_url = (\<lambda>_ _ filename. Some filename), ft_build = (\<lambda>_. Inr ()),
     ft_request = (\<lambda>filename. Inr (the (response_file served_disk ge_message (Some ''/data'') filename))),
     ft_copy = (\<lambda>b. (concat (map projr b), Inr ()))\<rparr>"

definition served_files :: file_env where
  "served_files = \<lparr>fl_create = (\<lambda>_. True),
     fl_fetch = (\<lambda>host filename. the (download_file_from_url served_fetch None host filename))\<rparr>"

theorem uploaded_file_reaches_secondary_witness:
  "download_request_file_from_primary served_files (''/data/'' @ served_uuid @ ''.sqlite'') ''10.0.0.1'' []
     = Some (Inr (), [(''/data/'' @ served_uuid @ ''.sqlite'', ''SQLite format 3'')])"
proof -
  have d: "data_dir (Some ''/data'') = ''/data''" by (simp add: data_dir_def)
  have "plain_data_dir (Some ''/data'')" by (simp add: plain_data_dir_def d)
  moreover have "uuid_shape served_uuid" by code_simp
  moreover have "response_file served_disk ge_message (Some ''/data'') f = Some (200, [Inr ''SQLite '', Inr ''format 3''])" for f
    by (simp add: response_file_def body_from_file_def file_stream_def served_disk_def)
  then have "fetches served_fetch None ''10.0.0.1'' (response_file served_disk ge_message (Some ''/data'') f) f" for f
    by (auto simp: fetches_def served_fetch_def comp_def)
  moreover have "download_file_from_url served_fetch None ''10.0.0.1'' f = Some (fl_fetch served_files ''10.0.0.1'' f)" for f
    by (simp add: served_files_def download_file_from_url_def served_fetch_def)
  ultimately show ?thesis
    using uploaded_file_reaches_secondary [of "Some ''/data''" served_uuid served_disk "[''SQLite '', ''format 3'']" "[Inr []]"
        served_fetch None "''10.0.0.1''" ge_message served_files "[]"]
    by (auto simp: d served_disk_def served_files_def)
qed

text \<open>A file the primary cannot open is answered with the text of the error and status 500; the secondary does not look at the
  status and stores the text as the request file, as a success.\<close>
theorem failed_fetch_is_stored:
  assumes "dk_open D (data_dir env_var @ ''/'' @ filename) = Inl err"
    and "fetches H port_var host (response_file D error_text env_var filename) filename"
  shows "download_file_from_url H port_var host filename = Some (error_text (generic_error_from err), Inr ())"
proof -
  have "response_file D error_text env_var filename = Some (500, map Inr [error_text (generic_error_from err)])"
    using assms(1) by (simp add: response_file_def body_from_file_def status_code_def generic_error_from_def)
  with assms(2) have "fetches H port_var host (Some (500, map Inr [error_text (generic_error_from err)])) filename"
    by (simp only:)
  from fetched_file [OF this] show ?thesis by simp
qed

end
