(* ===== verification/Standalone.thy ===== *)
theory Standalone
  imports Primary
begin

text \<open>
  Standalone mode (\<open>cluster-executor/src/standalone.rs\<close>): the job runs against one secondary, the process
  itself. As in \<open>Primary\<close>, a \<open>tick_env\<close> per second holds what other tasks do to the job store and
  whether the channel closes; of its other fields only \<open>tk_connect\<close> is read. \<open>None\<close> is a panic.
\<close>

definition send_rate_message_to_executor ::
  "('h, 'a, 'p, 'db) sender \<Rightarrow> u32 \<Rightarrow> u32 \<Rightarrow> ('h, 'a, 'p, 'db) sender" where
  "send_rate_message_to_executor s qps connection_count =
     snd (sender_send (Rates \<lparr>rm_qps = qps, rm_connections = connection_count\<rparr>) s)"

definition close_sender :: "tick_env \<Rightarrow> ('h, 'a, 'p, 'db) sender \<Rightarrow> ('h, 'a, 'p, 'db) sender" where
  "close_sender t s = s\<lparr>sn_closed := sn_closed s \<or> tk_closed t ''localhost''\<rparr>"

text \<open>The loop over the items of the generator; the counter is a \<open>u8\<close> that is reset at 5.\<close>

fun standalone_loop ::
  "string \<Rightarrow> (nat \<Rightarrow> tick_env) \<Rightarrow> nat \<Rightarrow> u8 \<Rightarrow> (u32 \<times> u32) list \<Rightarrow> ('h, 'a, 'p, 'db) sender \<times> job_store
     \<Rightarrow> ('h, 'a, 'p, 'db) sender \<times> job_store" where
  "standalone_loop job_id ticks n counter [] sj = sj"
| "standalone_loop job_id ticks n counter ((qps, connection_count) # items) (s, jobs) =
     (let s = close_sender (ticks n) s; jobs = tk_jobs (ticks n) jobs; counter = counter + 1
      in if counter mod 5 = 0
         then if is_stopped job_id jobs then (s, jobs)
              else standalone_loop job_id ticks (n + 1) 0 items (send_rate_message_to_executor s qps connection_count, jobs)
         else standalone_loop job_id ticks (n + 1) counter items (send_rate_message_to_executor s qps connection_count, jobs))"

definition standalone_handle_request ::
  "('db, 'g) source_env \<Rightarrow> u16 \<Rightarrow> ('h, 'a, 'p, 'db) request \<Rightarrow> 'g \<Rightarrow> tick_env \<Rightarrow> (nat \<Rightarrow> tick_env) \<Rightarrow> job_store
     \<Rightarrow> (('h, 'a, 'p, 'db) senders \<times> job_store) option" where
  "standalone_handle_request S port request g first ticks jobs =
     (case rq_name request of
        None \<Rightarrow> None
      | Some job_id \<Rightarrow>
          (let jobs = btree_insert job_id Starting jobs;
               items = generator_items (request_into_generator (request_clone request))
           in do { s \<leftarrow> get_sender_for_host_port (tk_connect first) port ''127.0.0.1'';
                   (let senders = send_metadata_with_primary ''127.0.0.1'' [(''localhost'', s)] [''localhost'']
                    in do { (_, senders) \<leftarrow> send_request_to_secondary S request senders [''localhost''] g;
                            (let jobs = btree_insert job_id InProgress (tk_jobs first jobs)
                             in do { s \<leftarrow> map_of senders ''localhost'';
                                     (let (s, jobs) = standalone_loop job_id ticks 0 0 items (s, jobs)
                                      in Some ([(''localhost'', send_end_msg False s)], btree_insert job_id Completed jobs)) }) }) }))"

section \<open>One secondary\<close>

lemma calculate_for_one: "calculate_req_per_secondary q c 1 = Some ([q], [c])"
  by (simp add: calculate_req_per_secondary_def Let_def)

lemma send_tick_one:
  assumes "pr_senders st = [(i, s)]" "\<not> sn_closed s"
  shows "send_tick q c st = Some (st\<lparr>pr_senders := [(i, send_rate_message_to_executor s q c)]\<rparr>)"
  using assms calculate_for_one [of q c]
  by (simp add: send_tick_def send_rate_message_to_secondaries_def sender_send_def send_rate_message_to_executor_def
      vec_get_def)

lemma send_rate_open [simp]: "sn_closed (send_rate_message_to_executor s q c) = sn_closed s"
  by (simp add: send_rate_message_to_executor_def sender_send_def)

text \<open>A cluster that consists of the process itself, and a job that nobody stops.\<close>

definition local_node :: "string \<Rightarrow> u16 \<Rightarrow> cluster_node" where
  "local_node port_name port =
     \<lparr>nd_instance_id = Some ''localhost'', nd_ports = Some [(Some port_name, ucast port)], nd_host = Some ''127.0.0.1''\<rparr>"

definition local_tick :: "string \<Rightarrow> u16 \<Rightarrow> string \<Rightarrow> tick_env \<Rightarrow> bool" where
  "local_tick port_name port job_id t \<longleftrightarrow> tk_secondaries t = Some [local_node port_name port]
     \<and> tk_host t = Some ''127.0.0.1'' \<and> tk_connect t ''127.0.0.1'' port \<and> \<not> tk_closed t ''localhost''
     \<and> (\<forall>jobs. \<not> is_stopped job_id (tk_jobs t jobs))"

lemma refresh_one:
  assumes "local_tick port_name port job_id t" "pr_senders st = [(''localhost'', s)]" "\<not> pr_dropped st"
  shows "refresh_secondaries S port_name t request g st = Some st"
  using assms
  by (simp add: refresh_secondaries_def create_senders_for_cluster_nodes_def local_tick_def local_node_def)

lemma local_loop:
  assumes "\<And>i. local_tick port_name port job_id (ticks i)"
  shows "pr_senders st = [(''localhost'', s)] \<Longrightarrow> \<not> sn_closed s \<Longrightarrow> \<not> pr_dropped st \<Longrightarrow>
    \<exists>m st'. primary_loop S port_name job_id request g ticks n items st = Some (m, st')
      \<and> (let (s', jobs') = standalone_loop job_id ticks n counter items (s, pr_jobs st)
         in pr_senders st' = [(''localhost'', s')] \<and> pr_jobs st' = jobs')"
proof (induction items arbitrary: n counter st s)
  case (Cons item items)
  obtain q c where item: "item = (q, c)" by (cases item)
  define st1 where "st1 = st\<lparr>pr_jobs := tk_jobs (ticks n) (pr_jobs st),
      pr_senders := close_senders (tk_closed (ticks n)) (pr_senders st)\<rparr>"
  note t = assms [of n, unfolded local_tick_def]
  have closed: "close_sender (ticks n) s = s" using t by (simp add: close_sender_def)
  have st1: "pr_senders st1 = [(''localhost'', s)]" "\<not> pr_dropped st1" "pr_jobs st1 = tk_jobs (ticks n) (pr_jobs st)"
    using Cons.prems t by (simp_all add: st1_def close_senders_def)
  have live: "\<not> is_stopped job_id (pr_jobs st1)" using t by (simp add: st1(3))
  define st2 where "st2 = (if pr_counter st1 = 10 then st1\<lparr>pr_counter := 0\<rparr> else st1\<lparr>pr_counter := pr_counter st1 + 1\<rparr>)"
  have st2: "pr_senders st2 = [(''localhost'', s)]" "\<not> pr_dropped st2" "pr_jobs st2 = pr_jobs st1"
    by (simp_all add: st2_def st1)
  define st3 where "st3 = st2\<lparr>pr_senders := [(''localhost'', send_rate_message_to_executor s q c)]\<rparr>"
  have tick: "primary_tick S port_name job_id request g (ticks n) item st = Some (Inr st3)"
    using refresh_one [OF assms [of n] st1(1,2), of S request g] send_tick_one [OF st2(1) Cons.prems(2), of q c] live
    by (cases "pr_counter st1 = 10") (simp_all add: primary_tick_def item st1_def [symmetric] st2_def st3_def Let_def)
  have st3: "pr_senders st3 = [(''localhost'', send_rate_message_to_executor s q c)]" "\<not> pr_dropped st3" "pr_jobs st3 = pr_jobs st1"
    by (simp_all add: st3_def st2)
  define counter' where "counter' = (if (counter + 1) mod 5 = 0 then 0 else counter + 1)"
  have "standalone_loop job_id ticks n counter (item # items) (s, pr_jobs st)
      = standalone_loop job_id ticks (n + 1) counter' items (send_rate_message_to_executor s q c, pr_jobs st3)"
    using live by (simp add: item closed st1(3) st3(3) counter'_def Let_def)
  with Cons.IH [OF st3(1) _ st3(2), of "n + 1" counter'] Cons.prems(2) tick show ?case by simp
qed simp

section \<open>Properties\<close>

lemma ucast_port [simp]: "ucast (ucast (port :: u16) :: u32) = port"
  by (rule bit_word_eqI) (simp add: bit_simps)

lemma local_init:
  assumes "local_tick port_name port job_id t"
  shows "init_senders S port_name t (request_clone request) [] g
    = map_option snd (send_request_to_secondary S request
        (send_metadata_with_primary ''127.0.0.1'' [(''localhost'', fresh)] [''localhost'']) [''localhost''] g)"
proof -
  have "send_request_to_secondary S (request_clone request) = send_request_to_secondary S request"
    by (intro ext) (cases "rq_req request"; simp add: send_request_to_secondary_def cong: if_cong)
  with assms show ?thesis
    by (auto simp: init_senders_def create_senders_for_cluster_nodes_def local_tick_def local_node_def send_metadata_def
        get_sender_for_secondary_def get_sender_for_host_port_def split: bind_splits)
qed

lemma send_request_one:
  assumes "send_request_to_secondary S request [(i, s)] [i] g = Some (x, ss)" "\<not> sn_closed s"
  shows "\<exists>s'. ss = [(i, s')] \<and> \<not> sn_closed s'"
proof (cases "require_reset request")
  case True
  with assms show ?thesis
    by (auto simp: require_reset_def send_request_to_secondary_def process_and_send_request_def sender_send_def Let_def
        split: request_spec_enum.splits option.splits sum.splits bind_splits if_splits list.splits)
next
  case False
  with assms show ?thesis
    by (auto simp: require_reset_def send_request_to_secondary_def sender_send_def split: request_spec_enum.splits)
qed


definition demo_local_tick :: tick_env where
  "demo_local_tick = \<lparr>tk_secondaries = Some [local_node ''tcp-remoc'' 3031], tk_host = Some ''127.0.0.1'', tk_connect = (\<lambda>_ _. True),
     tk_closed = (\<lambda>_. False), tk_jobs = (\<lambda>_. [])\<rparr>"


end
