(* ===== verification/Api.thy ===== *)
theory Api
  imports Uploads Standalone
begin

text \<open>
  The HTTP interface: the checks and the handlers of the two modes (\<open>overload/src/overload/lib.rs\<close>,
  \<open>standalone.rs\<close>, \<open>cluster/mod.rs\<close> and \<open>cluster/secondary.rs\<close>), the replies the routes make of their results
  (\<open>overload/src/filters_common.rs\<close>, \<open>filters.rs\<close> and \<open>filters_cluster.rs\<close>) and the cluster settings of
  \<open>main.rs\<close>.

  A handler that spawns jobs returns the requests it spawns; \<open>Standalone\<close> and \<open>Primary\<close> model what
  they do. \<open>job_id\<close> is the function of \<open>Secondary\<close>, which the interface has a copy of. Parameters: fresh
  UUIDs, whether a file exists, the random generator, the Lua interpreter, what the cluster library says about
  the node, the HTTP client and the JSON texts. \<open>None\<close> is a panic.
\<close>

section \<open>Checks\<close>

record response =
  rp_job_id :: string
  rp_status :: job_status

definition response_new :: "string \<Rightarrow> job_status \<Rightarrow> response" where
  "response_new job status = \<lparr>rp_job_id = job, rp_status = status\<rparr>"

record ('h, 'g, 'f, 'k) api_env =
  ap_gen :: "('h, 'g) gen_env"
  ap_lua :: "('f, 'k) lua_env"
  ap_exists :: "string \<Rightarrow> bool"

text \<open>A schema that is there must generate something else than \<open>Null\<close>.\<close>

fun check_schema ::
  "('h, 'g) gen_env \<Rightarrow> exec_error_code \<Rightarrow> 'h data_schema option \<Rightarrow> 'g \<Rightarrow> ((exec_error_code + unit) \<times> 'g) option" where
  "check_schema E err None g = Some (Inr (), g)"
| "check_schema E err (Some schema) g =
     do { (v, g) \<leftarrow> generate_data E schema g; Some (case v of Null \<Rightarrow> Inl err | _ \<Rightarrow> Inr (), g) }"

fun check_spec ::
  "('h, 'g, 'f, 'k) api_env \<Rightarrow> ('h, 'a, 'db) request_spec_enum \<Rightarrow> 'g \<Rightarrow> ((exec_error_code + unit) \<times> 'g) option" where
  "check_spec A (RequestFile file) g =
     Some (if \<not> ap_exists A (rf_file_name file) then Inl RequestFileNotFound else Inr (), g)"
| "check_spec A (RandomDataRequest req) g =
     do { (r, g) \<leftarrow> check_schema (ap_gen A) BodyGenerationFailure (rd_body_schema req) g;
          case r of
            Inl e \<Rightarrow> Some (Inl e, g)
          | Inr _ \<Rightarrow> check_schema (ap_gen A) UriParamGenerationFailure (rd_uri_param_schema req) g }"
| "check_spec A _ g = Some (Inr (), g)"

definition check_lua :: "('f, 'k) lua_env \<Rightarrow> 'p response_assertion option \<Rightarrow> exec_error_code + unit" where
  "check_lua L assertion =
     (case Option.bind assertion lua_assertion of
        None \<Rightarrow> Inr ()
      | Some chunks \<Rightarrow> map_sum (\<lambda>_. LuaParseFailure) (\<lambda>u. u) (verify_lua_chunk L (join_lines chunks)))"

definition pre_check ::
  "('h, 'g, 'f, 'k) api_env \<Rightarrow> ('h, 'a, 'p, 'db) request \<Rightarrow> 'g \<Rightarrow> ((exec_error_code + unit) \<times> 'g) option" where
  "pre_check A request g =
     do { (r, g) \<leftarrow> check_spec A (rq_req request) g;
          Some (and_then r (\<lambda>_. check_lua (ap_lua A) (rq_response_assertion request)), g) }"

section \<open>Standalone mode\<close>

definition api_handle_request ::
  "('h, 'g, 'f, 'k) api_env \<Rightarrow> string \<Rightarrow> ('h, 'a, 'p, 'db) request \<Rightarrow> 'g
     \<Rightarrow> (response \<times> ('h, 'a, 'p, 'db) request list \<times> 'g) option" where
  "api_handle_request A new_uuid request g =
     (let job = job_id new_uuid (rq_name request);
          request = request\<lparr>rq_name := Some job\<rparr>
      in do { (r, g) \<leftarrow> pre_check A request g;
              Some (case r of Inl e \<Rightarrow> (response_new job (JobError e), [], g)
                            | Inr _ \<Rightarrow> (response_new job Starting, [request], g)) })"

fun multi_request_loop ::
  "('h, 'g, 'f, 'k) api_env \<Rightarrow> string \<Rightarrow> nat \<Rightarrow> ('h, 'a, 'p, 'db) request list \<Rightarrow> 'g
     \<Rightarrow> (response \<times> ('h, 'a, 'p, 'db) request list \<times> 'g) option" where
  "multi_request_loop A job idx [] g = Some (response_new job Starting, [], g)"
| "multi_request_loop A job idx (request # requests) g =
     (let request = request\<lparr>rq_name := Some (job @ ''_'' @ show_nat idx)\<rparr>
      in do { (r, g) \<leftarrow> pre_check A request g;
              case r of
                Inl e \<Rightarrow> Some (response_new job (JobError e), [], g)
              | Inr _ \<Rightarrow> do { (resp, spawned, g) \<leftarrow> multi_request_loop A job (idx + 1) requests g;
                              Some (resp, request # spawned, g) } })"

definition handle_multi_request ::
  "('h, 'g, 'f, 'k) api_env \<Rightarrow> string \<Rightarrow> ('h, 'a, 'p, 'db) multi_request \<Rightarrow> 'g
     \<Rightarrow> (response \<times> ('h, 'a, 'p, 'db) request list \<times> 'g) option" where
  "handle_multi_request A new_uuid requests g =
     multi_request_loop A (job_id new_uuid (mr_name requests)) 0 (mr_requests requests) g"

definition standalone_stop ::
  "string \<Rightarrow> job_store \<Rightarrow> (generic_error + (string \<times> string) list) \<times> job_store" where
  "standalone_stop job jobs =
     (let (result, jobs) = stop_request_by_job_id job jobs
      in (Inr (map (\<lambda>(k, s). (k, stop_message s)) result), jobs))"

section \<open>Talking to the primary\<close>

record http_message =
  hm_uri :: string
  hm_method :: string
  hm_headers :: "(string \<times> string) list"
  hm_body :: byte_stream

text \<open>Building a message, sending it and reading the body of the answer; the address of a path on a node.\<close>

record http_client =
  hc_build :: "http_message \<Rightarrow> string + unit"
  hc_send :: "http_message \<Rightarrow> string + string"
  hc_join :: "string \<Rightarrow> string \<Rightarrow> string option"

text \<open>What the cluster library says; the secondaries are asked for twice. A primary is seen through the URI of its
  service instance.\<close>

record cluster_view =
  cl_active :: bool
  cl_primary :: bool
  cl_secondaries :: "cluster_node list option"
  cl_secondaries_again :: "cluster_node list option"
  cl_primaries :: "string option list option"

definition inactive_cluster_error :: "(job_status \<Rightarrow> string) \<Rightarrow> generic_error" where
  "inactive_cluster_error status_text =
     \<lparr>error_code = 404, ge_message = status_text (JobError InactiveCluster), ge_data = []\<rparr>"

definition primary_uri :: "string option list option \<Rightarrow> generic_error + string" where
  "primary_uri primaries =
     ok_or (internal_500 ''No primary or invalid ServiceInstance URI'')
       (Option.bind (Option.bind primaries (\<lambda>s. vec_get s 0)) (\<lambda>uri. uri))"

definition unknown_error_resp :: "string \<Rightarrow> response" where
  "unknown_error_resp job = response_new job (JobError Others)"

definition forward_other_requests_to_primary ::
  "http_client \<Rightarrow> (string \<Rightarrow> string + 'v) \<Rightarrow> http_message \<Rightarrow> generic_error + 'v" where
  "forward_other_requests_to_primary H parse req =
     and_then (map_sum generic_error_from (\<lambda>b. b) (hc_send H req)) (\<lambda>bytes.
       map_sum generic_error_from (\<lambda>r. r) (parse bytes))"

definition get_message :: "string \<Rightarrow> http_message" where
  "get_message uri = \<lparr>hm_uri = uri, hm_method = ''GET'', hm_headers = [], hm_body = []\<rparr>"

definition forward_stop_request_to_primary ::
  "http_client \<Rightarrow> (string \<Rightarrow> string + (string \<times> string) list) \<Rightarrow> string \<Rightarrow> cluster_view
     \<Rightarrow> generic_error + (string \<times> string) list" where
  "forward_stop_request_to_primary H parse job C =
     (case primary_uri (cl_primaries C) of
        Inl _ \<Rightarrow> Inl (internal_500 ''Unknown error'')
      | Inr uri \<Rightarrow>
          (let request = get_message (uri @ ''/test/stop'' @ ''/'' @ job)
           in and_then (map_sum generic_error_from_http (\<lambda>u. u) (hc_build H request)) (\<lambda>_.
                forward_other_requests_to_primary H parse request)))"

definition forward_get_status_request ::
  "http_client \<Rightarrow> (string \<Rightarrow> string + job_store) \<Rightarrow> job_status_query_params \<Rightarrow> cluster_view \<Rightarrow> generic_error + job_store" where
  "forward_get_status_request H parse query C =
     (case primary_uri (cl_primaries C) of
        Inl _ \<Rightarrow> Inl (internal_500 ''Unknown error'')
      | Inr uri \<Rightarrow>
          (let request = get_message (uri @ ''/test/status'' @ ''?'' @ job_status_query_params_fmt query)
           in and_then (map_sum generic_error_from_http (\<lambda>u. u) (hc_build H request)) (\<lambda>_.
                forward_other_requests_to_primary H parse request)))"

definition post_message :: "string \<Rightarrow> string \<Rightarrow> http_message" where
  "post_message uri text = \<lparr>hm_uri = uri, hm_method = ''POST'', hm_headers = [], hm_body = [Inr text]\<rparr>"

definition forward_test_request ::
  "http_client \<Rightarrow> (string \<Rightarrow> string + response) \<Rightarrow> string \<Rightarrow> string \<Rightarrow> cluster_view \<Rightarrow> string + response" where
  "forward_test_request H parse path request_text C =
     and_then (ok_or ''Primary returns None'' (cl_primaries C)) (\<lambda>primaries.
       case primaries of
         primary # _ \<Rightarrow>
           and_then (ok_or ''Invalid ServiceInstance URI'' primary) (\<lambda>uri.
             (let req = post_message (uri @ ''/'' @ path) request_text
              in and_then (hc_build H req) (\<lambda>_. and_then (hc_send H req) parse)))
       | [] \<Rightarrow> Inr (unknown_error_resp ''error''))"

section \<open>Cluster mode\<close>

text \<open>The JSON texts of what is sent and received.\<close>

record ('h, 'a, 'p, 'db) api_texts =
  tx_request :: "('h, 'a, 'p, 'db) request \<Rightarrow> string"
  tx_multi_request :: "('h, 'a, 'p, 'db) multi_request \<Rightarrow> string"
  tx_status :: "job_status \<Rightarrow> string"
  tx_read_response :: "string \<Rightarrow> string + response"
  tx_read_statuses :: "string \<Rightarrow> string + job_store"
  tx_read_messages :: "string \<Rightarrow> string + (string \<times> string) list"

definition forwarded_response :: "string \<Rightarrow> string + response \<Rightarrow> response" where
  "forwarded_response job r = (case r of Inr resp \<Rightarrow> resp | Inl err \<Rightarrow> unknown_error_resp job)"

definition handle_request_cluster ::
  "('h, 'g, 'f, 'k) api_env \<Rightarrow> ('h, 'a, 'p, 'db) api_texts \<Rightarrow> http_client \<Rightarrow> cluster_view \<Rightarrow> string
     \<Rightarrow> ('h, 'a, 'p, 'db) request \<Rightarrow> 'g \<Rightarrow> (response \<times> ('h, 'a, 'p, 'db) request list \<times> 'g) option" where
  "handle_request_cluster A X H C new_uuid request g =
     (let job = job_id new_uuid (rq_name request);
          request = request\<lparr>rq_name := Some job\<rparr>
      in if \<not> cl_active C then Some (response_new job (JobError InactiveCluster), [], g)
         else if cl_primary C
         then do { none \<leftarrow> (if cl_secondaries C = None then Some True else map_option (\<lambda>s. s = []) (cl_secondaries_again C));
                   if none then Some (response_new job (JobError NoSecondary), [], g)
                   else do { (r, g) \<leftarrow> pre_check A request g;
                             Some (case r of Inl e \<Rightarrow> (response_new job (JobError e), [], g)
                                           | Inr _ \<Rightarrow> (response_new job Starting, [request], g)) } }
         else Some (forwarded_response job
                      (forward_test_request H (tx_read_response X) ''test'' (tx_request X request) C), [], g))"

definition handle_multi_request_cluster ::
  "('h, 'a, 'p, 'db) api_texts \<Rightarrow> http_client \<Rightarrow> cluster_view \<Rightarrow> string \<Rightarrow> ('h, 'a, 'p, 'db) multi_request
     \<Rightarrow> response \<times> ('h, 'a, 'p, 'db) request list" where
  "handle_multi_request_cluster X H C new_uuid requests =
     (let job = job_id new_uuid (mr_name requests)
      in if \<not> cl_active C then (response_new job (JobError InactiveCluster), [])
         else if cl_primary C
         then (response_new job Starting,
               map (\<lambda>(idx, request). request\<lparr>rq_name := Some (job @ ''_'' @ show_nat idx)\<rparr>)
                 (enumerate 0 (mr_requests requests)))
         else (forwarded_response job
                 (forward_test_request H (tx_read_response X) ''tests''
                    (tx_multi_request X (requests\<lparr>mr_name := Some job\<rparr>)) C), []))"

definition handle_history_all ::
  "('h, 'a, 'p, 'db) api_texts \<Rightarrow> http_client \<Rightarrow> cluster_view \<Rightarrow> job_status_query_params \<Rightarrow> job_store
     \<Rightarrow> generic_error + job_store" where
  "handle_history_all X H C query jobs =
     (if \<not> cl_active C then Inl (inactive_cluster_error (tx_status X))
      else if cl_primary C then Inr (handle_get_status query jobs)
      else forward_get_status_request H (tx_read_statuses X) query C)"

definition cluster_stop ::
  "('h, 'a, 'p, 'db) api_texts \<Rightarrow> http_client \<Rightarrow> cluster_view \<Rightarrow> string \<Rightarrow> job_store
     \<Rightarrow> (generic_error + (string \<times> string) list) \<times> job_store" where
  "cluster_stop X H C job jobs =
     (if \<not> cl_active C then (Inl (inactive_cluster_error (tx_status X)), jobs)
      else if cl_primary C then apfst Inr (stop_job job jobs)
      else (forward_stop_request_to_primary H (tx_read_messages X) job C, jobs))"

text \<open>An upload is stored on the primary or sent there as it is; \<open>read_csv\<close> is the CSV reader.\<close>

definition forward_upload ::
  "('h, 'a, 'p, 'db) api_texts \<Rightarrow> http_client \<Rightarrow> cluster_view \<Rightarrow> string \<Rightarrow> (string \<times> string) list \<Rightarrow> byte_stream
     \<Rightarrow> (generic_error + (string \<times> string) list) option" where
  "forward_upload X H C path headers data =
     (case primary_uri (cl_primaries C) of
        Inl _ \<Rightarrow> Some (Inl (internal_500 ''Unknown error''))
      | Inr uri \<Rightarrow>
          do { url \<leftarrow> hc_join H uri path;
               (let request = \<lparr>hm_uri = url, hm_method = ''POST'', hm_headers = headers, hm_body = convert_stream (\<lambda>e. e) data\<rparr>
                in Some (and_then (map_sum generic_error_from_http (\<lambda>u. u) (hc_build H request)) (\<lambda>_.
                     and_then (map_sum generic_error_from (\<lambda>b. b) (hc_send H request)) (\<lambda>bytes.
                       map_sum generic_error_from (\<lambda>r. r) (tx_read_messages X bytes))))) })"

definition handle_file_upload ::
  "('h, 'a, 'p, 'db) api_texts \<Rightarrow> http_client \<Rightarrow> cluster_view \<Rightarrow> ('db, 'g) source_env \<Rightarrow> 'c upload_env
     \<Rightarrow> (byte_stream \<Rightarrow> (string + csv_row) list) \<Rightarrow> string \<Rightarrow> byte_stream \<Rightarrow> string \<Rightarrow> nat
     \<Rightarrow> ((generic_error + (string \<times> string) list) \<times> 'c option) option" where
  "handle_file_upload X H C S U read_csv new_uuid data dir content_len =
     (if \<not> cl_active C then Some (Inl (inactive_cluster_error (tx_status X)), None)
      else if cl_primary C then Some (csv_stream_to_sqlite S U new_uuid (read_csv (warp_stream (\<lambda>e. e) data)) dir)
      else map_option (\<lambda>r. (r, None))
        (forward_upload X H C ''/request-file/csv'' [(''content-length'', show_nat content_len)] data))"

definition cluster_save_sqlite ::
  "('h, 'a, 'p, 'db) api_texts \<Rightarrow> http_client \<Rightarrow> cluster_view \<Rightarrow> ('db, 'g) io_env \<Rightarrow> string \<Rightarrow> byte_stream \<Rightarrow> string \<Rightarrow> nat
     \<Rightarrow> string \<Rightarrow> files \<Rightarrow> ((generic_error + (string \<times> string) list) \<times> files) option" where
  "cluster_save_sqlite X H C I new_uuid data dir content_len content_encoding files =
     (if \<not> cl_active C then Some (Inl (inactive_cluster_error (tx_status X)), files)
      else if cl_primary C then Some (save_sqlite I new_uuid data dir content_encoding files)
      else map_option (\<lambda>r. (r, files))
        (forward_upload X H C ''/request-file/sqlite''
           [(''content-length'', show_nat content_len), (''content-encoding'', content_encoding)] data))"

section \<open>Replies\<close>

datatype 'v reply_body = Answer "(string \<times> 'v) list" | Failure generic_error

definition generic_error_to_reply_with_status :: "generic_error \<Rightarrow> (nat \<times> 'v reply_body) option" where
  "generic_error_to_reply_with_status err =
     do { code \<leftarrow> status_code (error_code err); Some (code, Failure err) }"

definition generic_result_to_reply_with_status :: "generic_error + (string \<times> 'v) list \<Rightarrow> (nat \<times> 'v reply_body) option" where
  "generic_result_to_reply_with_status status =
     (case status of Inr resp \<Rightarrow> Some (200, Answer resp) | Inl err \<Rightarrow> generic_error_to_reply_with_status err)"

definition standalone_status_reply :: "(string \<times> string) list \<Rightarrow> job_store \<Rightarrow> (nat \<times> job_status reply_body) option" where
  "standalone_status_reply query jobs =
     (case job_status_query_params_try_from query of
        Inr option \<Rightarrow> generic_result_to_reply_with_status (Inr (handle_get_status option jobs))
      | Inl e \<Rightarrow> generic_error_to_reply_with_status e)"

definition history_reply ::
  "('h, 'a, 'p, 'db) api_texts \<Rightarrow> http_client \<Rightarrow> cluster_view \<Rightarrow> (string \<times> string) list \<Rightarrow> job_store
     \<Rightarrow> (nat \<times> job_status reply_body) option" where
  "history_reply X H C query jobs =
     (case job_status_query_params_try_from query of
        Inr option \<Rightarrow> generic_result_to_reply_with_status (handle_history_all X H C option jobs)
      | Inl e \<Rightarrow> generic_error_to_reply_with_status e)"

definition standalone_stop_reply :: "string \<Rightarrow> job_store \<Rightarrow> (nat \<times> string reply_body) option \<times> job_store" where
  "standalone_stop_reply job jobs = apfst generic_result_to_reply_with_status (standalone_stop job jobs)"

definition cluster_stop_reply ::
  "('h, 'a, 'p, 'db) api_texts \<Rightarrow> http_client \<Rightarrow> cluster_view \<Rightarrow> string \<Rightarrow> job_store
     \<Rightarrow> (nat \<times> string reply_body) option \<times> job_store" where
  "cluster_stop_reply X H C job jobs = apfst generic_result_to_reply_with_status (cluster_stop X H C job jobs)"

definition upload_reply :: "generic_error + (string \<times> string) list \<Rightarrow> nat \<times> string reply_body" where
  "upload_reply result = (case result of Inr r \<Rightarrow> (200, Answer r) | Inl e \<Rightarrow> (500, Failure e))"

definition standalone_upload_sqlite ::
  "('db, 'g) io_env \<Rightarrow> string \<Rightarrow> string option \<Rightarrow> string option \<Rightarrow> byte_stream \<Rightarrow> files
     \<Rightarrow> (nat \<times> string reply_body) \<times> files" where
  "standalone_upload_sqlite I new_uuid env_var content_encoding data files =
     apfst upload_reply (save_sqlite I new_uuid data (data_dir_path env_var) (or_default ''bytes'' content_encoding) files)"

definition cluster_upload_sqlite ::
  "('h, 'a, 'p, 'db) api_texts \<Rightarrow> http_client \<Rightarrow> cluster_view \<Rightarrow> ('db, 'g) io_env \<Rightarrow> string \<Rightarrow> string option \<Rightarrow> byte_stream
     \<Rightarrow> nat \<Rightarrow> string option \<Rightarrow> files \<Rightarrow> ((nat \<times> string reply_body) \<times> files) option" where
  "cluster_upload_sqlite X H C I new_uuid env_var data content_len content_encoding files =
     map_option (apfst upload_reply)
       (cluster_save_sqlite X H C I new_uuid data (data_dir_path env_var) content_len
          (or_default ''bytes'' content_encoding) files)"

definition standalone_upload_csv ::
  "('db, 'g) source_env \<Rightarrow> 'c upload_env \<Rightarrow> string \<Rightarrow> string option \<Rightarrow> (string + csv_row) list
     \<Rightarrow> (nat \<times> string reply_body) \<times> 'c option" where
  "standalone_upload_csv S U new_uuid env_var reader =
     apfst upload_reply (csv_stream_to_sqlite S U new_uuid reader (data_dir_path env_var))"

definition cluster_upload_csv ::
  "('h, 'a, 'p, 'db) api_texts \<Rightarrow> http_client \<Rightarrow> cluster_view \<Rightarrow> ('db, 'g) source_env \<Rightarrow> 'c upload_env
     \<Rightarrow> (byte_stream \<Rightarrow> (string + csv_row) list) \<Rightarrow> string \<Rightarrow> string option \<Rightarrow> byte_stream \<Rightarrow> nat
     \<Rightarrow> ((nat \<times> string reply_body) \<times> 'c option) option" where
  "cluster_upload_csv X H C S U read_csv new_uuid env_var data content_len =
     map_option (apfst upload_reply)
       (handle_file_upload X H C S U read_csv new_uuid data (data_dir env_var) content_len)"

text \<open>The metrics, and the messages of the election; \<open>cluster_mode\<close> is always true.\<close>

definition prometheus_metric :: "string + string \<Rightarrow> nat \<times> string" where
  "prometheus_metric encoded = (case encoded of Inr resp_buffer \<Rightarrow> (200, resp_buffer) | Inl _ \<Rightarrow> (500, ''Error exporting metrics''))"

definition no_cluster_err :: "nat \<times> json" where
  "no_cluster_err = (404, Object [(''error'', String ''Cluster is not running'')])"

record 'cl raft_env =
  rf_info :: "'cl \<Rightarrow> json"
  rf_request_vote :: "string \<Rightarrow> usize \<Rightarrow> 'cl \<Rightarrow> 'cl"
  rf_request_vote_resp :: "usize \<Rightarrow> bool \<Rightarrow> 'cl \<Rightarrow> 'cl"
  rf_heartbeat :: "string \<Rightarrow> usize \<Rightarrow> 'cl \<Rightarrow> 'cl"

definition cluster_info :: "'cl raft_env \<Rightarrow> bool \<Rightarrow> 'cl \<Rightarrow> nat \<times> json" where
  "cluster_info R cluster_mode cl = (if \<not> cluster_mode then no_cluster_err else (200, rf_info R cl))"

definition cluster_request_vote :: "'cl raft_env \<Rightarrow> bool \<Rightarrow> string \<Rightarrow> usize \<Rightarrow> 'cl \<Rightarrow> (nat \<times> json) \<times> 'cl" where
  "cluster_request_vote R cluster_mode requester_node_id term cl =
     (if \<not> cluster_mode then (no_cluster_err, cl) else ((200, Null), rf_request_vote R requester_node_id term cl))"

definition cluster_request_vote_response :: "'cl raft_env \<Rightarrow> bool \<Rightarrow> usize \<Rightarrow> bool \<Rightarrow> 'cl \<Rightarrow> (nat \<times> json) \<times> 'cl" where
  "cluster_request_vote_response R cluster_mode term vote cl =
     (if \<not> cluster_mode then (no_cluster_err, cl) else ((200, Null), rf_request_vote_resp R term vote cl))"

definition cluster_heartbeat :: "'cl raft_env \<Rightarrow> bool \<Rightarrow> string \<Rightarrow> usize \<Rightarrow> 'cl \<Rightarrow> (nat \<times> json) \<times> 'cl" where
  "cluster_heartbeat R cluster_mode leader_node_id term cl =
     (if \<not> cluster_mode then (no_cluster_err, cl) else ((200, Null), rf_heartbeat R leader_node_id term cl))"

section \<open>Settings of the cluster\<close>

record cluster_config =
  update_interval :: u64
  election_timeout :: u64
  max_node :: usize
  min_node :: usize

definition get_env :: "(string \<Rightarrow> string option) \<Rightarrow> (string \<Rightarrow> 'v option) \<Rightarrow> string \<Rightarrow> ('v \<Rightarrow> bool) \<Rightarrow> 'v option" where
  "get_env env_vars from_str name p =
     do { s \<leftarrow> env_vars name; v \<leftarrow> from_str s; if p v then Some v else None }"

definition parse_non_zero :: "string \<Rightarrow> usize option" where
  "parse_non_zero s = do { n \<leftarrow> parse_usize s; if n = 0 then None else Some n }"

definition cluster_config_from :: "(string \<Rightarrow> string option) \<Rightarrow> cluster_config \<Rightarrow> cluster_config" where
  "cluster_config_from env_vars config =
     (let config = (case get_env env_vars (parse_unsigned 64) ''CLUSTER_UPDATE_INTERVAL'' (\<lambda>v. v > 10) of
                      Some v \<Rightarrow> config\<lparr>update_interval := v * 1000 mod 2 ^ 64\<rparr> | None \<Rightarrow> config);
          config = (case get_env env_vars (parse_unsigned 64) ''CLUSTER_ELECTION_TIMEOUT'' (\<lambda>v. v > 10) of
                      Some v \<Rightarrow> config\<lparr>election_timeout := v * 1000 mod 2 ^ 64\<rparr> | None \<Rightarrow> config);
          config = (case get_env env_vars parse_non_zero ''CLUSTER_MAX_NODE'' (\<lambda>v. v > 4) of
                      Some v \<Rightarrow> config\<lparr>max_node := v\<rparr> | None \<Rightarrow> config)
      in case get_env env_vars parse_non_zero ''CLUSTER_MIN_NODE'' (\<lambda>v. v > 4) of
           Some v \<Rightarrow> config\<lparr>min_node := v\<rparr> | None \<Rightarrow> config)"

section \<open>Job ids\<close>

lemma has_uuid_suffix: "matches_uuid u \<Longrightarrow> has_uuid (xs @ u)"
proof -
  assume m: "matches_uuid u"
  then have "u \<noteq> []" by (auto simp: matches_uuid_def uuid_shape_def)
  with m show ?thesis by (auto simp: has_uuid_def list_ex_iff intro!: bexI [of _ "length xs"])
qed

lemma matches_uuid_plain: "uuid_shape u \<Longrightarrow> matches_uuid u"
  by (simp add: matches_uuid_def uuid_shape_def)

lemma digit_char_is_digit: "d < 10 \<Longrightarrow> is_digit (digit_char d)"
proof -
  have "\<forall>d \<in> set [0..<10]. is_digit (digit_char d)" by code_simp
  moreover assume "d < 10"
  ultimately show ?thesis by simp
qed

lemma show_nat_digits: "list_all is_digit (show_nat n)"
proof (induction n rule: show_nat.induct)
  case (1 n)
  then show ?case by (subst show_nat.simps) (simp add: digit_char_is_digit)
qed

lemma matches_uuid_sub: "uuid_shape u \<Longrightarrow> matches_uuid (u @ ''_'' @ show_nat i)"
  using show_nat_digits [of i] by (simp add: matches_uuid_def uuid_shape_def)

lemma job_id_has_uuid: "uuid_shape u \<Longrightarrow> has_uuid (job_id u n)"
  using has_uuid_suffix [OF matches_uuid_plain, of u] has_uuid_suffix [OF matches_uuid_plain, of u "[]"]
  by (cases n) (auto simp: job_id_def, metis append.assoc append_Cons append_Nil)

lemma job_id_stable: "uuid_shape u \<Longrightarrow> job_id v (Some (job_id u n)) = job_id u n"
  using job_id_has_uuid [of u n] by (simp add: job_id_def [of v])

lemma sub_job_id_stable:
  assumes "uuid_shape u" "n = None \<or> \<not> has_uuid (the n)"
  shows "job_id v (Some (job_id u n @ ''_'' @ show_nat i)) = job_id u n @ ''_'' @ show_nat i"
proof -
  have "job_id u n = (case n of None \<Rightarrow> [] | Some s \<Rightarrow> str_trim s @ ''-'') @ u"
    using assms(2) by (auto simp: job_id_def split: option.splits)
  then have "\<exists>xs. job_id u n = xs @ u" by blast
  then show ?thesis using has_uuid_suffix [OF matches_uuid_sub [OF assms(1)], of _ i] by (auto simp: job_id_def [of v])
qed

section \<open>Handlers of single jobs\<close>

text \<open>What the handlers of both modes promise: a job is started under the answered id and only with the answer
  \<open>Starting\<close>, and a job that already has its id is handled as it was when the id was made.\<close>

locale job_handler =
  fixes handler :: "string \<Rightarrow> ('h, 'a, 'p, 'db) request \<Rightarrow> 'g \<Rightarrow> (response \<times> ('h, 'a, 'p, 'db) request list \<times> 'g) option"
  assumes started: "handler u r g = Some (resp, spawned, g') \<Longrightarrow> spawned \<noteq> []
      \<Longrightarrow> rp_status resp = Starting \<and> rp_job_id resp = job_id u (rq_name r) \<and> spawned = [r\<lparr>rq_name := Some (job_id u (rq_name r))\<rparr>]"
    and named: "uuid_shape u \<Longrightarrow> handler v (r\<lparr>rq_name := Some (job_id u (rq_name r))\<rparr>) g = handler u r g"
begin

lemma started_name: "handler u r g = Some (resp, [r'], g') \<Longrightarrow> rq_name r' = Some (rp_job_id resp)"
  using started by fastforce

lemma resubmitted:
  assumes "handler u r g = Some (resp, [r'], g')" "uuid_shape u"
  shows "handler v r' g = Some (resp, [r'], g')"
proof -
  have "r' = r\<lparr>rq_name := Some (job_id u (rq_name r))\<rparr>" using started [OF assms(1)] by simp
  then show ?thesis using named [OF assms(2), of v r g] assms(1) by simp
qed

end

interpretation standalone_api: job_handler "api_handle_request A" for A
  by unfold_locales
    (auto simp: api_handle_request_def Let_def response_new_def job_id_stable split: Option.bind_splits sum.splits)

interpretation cluster_api: job_handler "handle_request_cluster A X H C" for A X H C
  by unfold_locales
    (auto simp: handle_request_cluster_def Let_def response_new_def job_id_stable
      split: Option.bind_splits sum.splits if_splits)

section \<open>Several jobs at once\<close>

definition sub_jobs :: "string \<Rightarrow> ('h, 'a, 'p, 'db) request list \<Rightarrow> ('h, 'a, 'p, 'db) request list" where
  "sub_jobs job requests =
     map (\<lambda>(idx, request). request\<lparr>rq_name := Some (job @ ''_'' @ show_nat idx)\<rparr>) (enumerate 0 requests)"

text \<open>The checks of a list of requests, in order, until the first that fails.\<close>

fun check_all ::
  "('h, 'g, 'f, 'k) api_env \<Rightarrow> ('h, 'a, 'p, 'db) request list \<Rightarrow> 'g \<Rightarrow> (nat \<times> exec_error_code option \<times> 'g) option" where
  "check_all A [] g = Some (0, None, g)"
| "check_all A (r # rs) g =
     do { (x, g) \<leftarrow> pre_check A r g;
          case x of Inl e \<Rightarrow> Some (0, Some e, g)
                  | Inr _ \<Rightarrow> map_option (apfst Suc) (check_all A rs g) }"

lemma multi_request_loop_checks:
  "multi_request_loop A job idx requests g
     = map_option (\<lambda>(n, err, g). (response_new job (case err of None \<Rightarrow> Starting | Some e \<Rightarrow> JobError e),
          take n (map (\<lambda>(idx, request). request\<lparr>rq_name := Some (job @ ''_'' @ show_nat idx)\<rparr>) (enumerate idx requests)), g))
        (check_all A (map (\<lambda>(idx, request). request\<lparr>rq_name := Some (job @ ''_'' @ show_nat idx)\<rparr>) (enumerate idx requests)) g)"
  by (induction requests arbitrary: idx g)
    (auto simp: Let_def split: Option.bind_splits sum.splits prod.splits option.splits)

lemma check_all_le:
  "check_all A rs g = Some (n, err, g') \<Longrightarrow> n \<le> length rs \<and> (err = None \<longleftrightarrow> n = length rs)"
proof (induction rs arbitrary: g n)
  case (Cons r rs)
  from Cons.prems obtain x g1 where x: "pre_check A r g = Some (x, g1)" by (auto split: Option.bind_splits)
  then show ?case
  proof (cases x)
    case (Inr u)
    with Cons.prems x obtain m where "check_all A rs g1 = Some (m, err, g')" "n = Suc m" by auto
    with Cons.IH show ?thesis by fastforce
  qed (use Cons.prems in auto)
qed auto

lemma distinct_sub_jobs: "distinct (map rq_name (sub_jobs job requests))"
proof -
  have "map rq_name (sub_jobs job requests) = map (\<lambda>i. Some (job @ ''_'' @ show_nat i)) [0..<length requests]"
    by (rule nth_equalityI) (simp_all add: sub_jobs_def nth_enumerate_eq)
  then show ?thesis by (simp add: distinct_map inj_on_def show_nat_inj)
qed

section \<open>Properties\<close>

text \<open>C36: a list of jobs is answered with the first check that fails, but every job before it has been
  started: the started jobs are the longest prefix whose checks succeed, under distinct names made of the answered id and
  their positions, and the answer is \<open>Starting\<close> exactly when all were started.\<close>
theorem multi_request_starts_prefix:
  assumes "jobs = sub_jobs (job_id u (mr_name requests)) (mr_requests requests)" "check_all A jobs g = Some (n, err, g')"
  shows "handle_multi_request A u requests g
      = Some (response_new (job_id u (mr_name requests)) (case err of None \<Rightarrow> Starting | Some e \<Rightarrow> JobError e), take n jobs, g')
    \<and> n \<le> length jobs \<and> (err = None \<longleftrightarrow> n = length jobs) \<and> distinct (map rq_name jobs)"
  using assms(2) check_all_le [OF assms(2)] distinct_sub_jobs [of "job_id u (mr_name requests)" "mr_requests requests"]
  by (simp add: handle_multi_request_def multi_request_loop_checks assms(1) sub_jobs_def)

definition demo_api :: "(string, unit, unit, unit) api_env" where
  "demo_api = \<lparr>ap_gen = demo_env,
     ap_lua = \<lparr>lua_eval_function = (\<lambda>_. Inr ()), lua_create_registry_value = (\<lambda>_. Inr ()), lua_registry_value = (\<lambda>_. Inr ()),
       lua_call = (\<lambda>_ _ _ _ _. Inr [])\<rparr>,
     ap_exists = (\<lambda>_. False)\<rparr>"

definition demo_file_request :: "(string, string, string, nat) request" where
  "demo_file_request = demo_list_request\<lparr>rq_req := RequestFile (request_file_new ''/tmp/missing.sqlite'')\<rparr>"

theorem multi_request_starts_prefix_witness:
  "handle_multi_request demo_api served_uuid \<lparr>mr_name = None, mr_requests = [demo_list_request, demo_file_request]\<rparr> ()
     = Some (response_new served_uuid (JobError RequestFileNotFound),
         [demo_list_request\<lparr>rq_name := Some (served_uuid @ ''_0'')\<rparr>], ())"
proof -
  let ?rs = "\<lparr>mr_name = None, mr_requests = [demo_list_request, demo_file_request]\<rparr>"
  let ?jobs = "[demo_list_request\<lparr>rq_name := Some (served_uuid @ ''_0'')\<rparr>, demo_file_request\<lparr>rq_name := Some (served_uuid @ ''_1'')\<rparr>]"
  have "show_nat 0 = ''0''" "show_nat (Suc 0) = ''1''" by code_simp+
  then have j: "?jobs = sub_jobs (job_id served_uuid (mr_name ?rs)) (mr_requests ?rs)" by (simp add: sub_jobs_def job_id_def)
  have c: "check_all demo_api ?jobs () = Some (1, Some RequestFileNotFound, ())"
    by (simp add: pre_check_def demo_list_request_def demo_split_request_def demo_file_request_def demo_api_def
        check_lua_def request_file_new_def)
  show ?thesis using multi_request_starts_prefix [OF j c] by (simp add: job_id_def)
qed

text \<open>The node that is asked for a job hands it over to the primary: what arrives there is answered by the handler of the
  primary, \<open>v\<close> being a UUID made there, and the answer is read back.\<close>

definition primary_answers ::
  "('h, 'g) gen_env \<Rightarrow> ('a, 'x) template_env \<Rightarrow> string option \<Rightarrow> ('h, 'a, 'p, 'db) api_texts \<Rightarrow> http_client \<Rightarrow> string
     \<Rightarrow> (('h, 'a, 'p, 'db) request \<Rightarrow> response option) \<Rightarrow> ('h, 'a, 'p, 'db) request \<Rightarrow> bool" where
  "primary_answers E T env_var X H uri handler r \<longleftrightarrow>
     (\<forall>r' resp. receive_request E T env_var r = Some (Inr r') \<and> handler r' = Some resp
        \<longrightarrow> hc_build H (post_message (uri @ ''/test'') (tx_request X r)) = Inr ()
          \<and> (\<exists>body. hc_send H (post_message (uri @ ''/test'') (tx_request X r)) = Inr body
               \<and> tx_read_response X body = Inr resp))"

text \<open>C11: a job submitted to a node that is not the primary is handled as if it had been submitted to the primary: the
  primary receives the same description under the id made by the first node, keeps the id, and
  starts the same job or finds the same error, which is what the first node answers; that node itself starts
  nothing.\<close>
theorem forwarded_job_runs_on_primary:
  assumes "accepted_spec E T env_var (rs_req sh)" "accepted_rate (rs_qps sh)"
    "pred_option accepted_connection_rate (rs_concurrent_connection sh)"
    and "uuid_shape u" "cl_active C" "\<not> cl_primary C" "cl_primaries C = Some (Some uri # primaries)"
    and "primary_answers E T env_var' X H uri (\<lambda>r. map_option fst (handle_request_cluster A X HP P v r g))
      ((request_from sh)\<lparr>rq_name := Some (job_id u (rs_name sh))\<rparr>)"
    and "handle_request_cluster A X HP P u (request_from sh) g = Some (resp, spawned, g')"
  shows "handle_request_cluster A X HP P v ((request_from sh)\<lparr>rq_name := Some (job_id u (rs_name sh))\<rparr>) g = Some (resp, spawned, g')
    \<and> handle_request_cluster A X H C u (request_from sh) h = Some (resp, [], h)"
proof
  let ?job = "job_id u (rs_name sh)"
  let ?r = "(request_from sh)\<lparr>rq_name := Some ?job\<rparr>"
  have name: "rq_name (request_from sh) = rs_name sh" by (simp add: request_from_def)
  have r: "?r = request_from (sh\<lparr>rs_name := Some ?job\<rparr>)" by (simp add: request_from_def)
  have "receive_request E T env_var' ?r = Some (Inr ?r)"
    unfolding r by (rule receive_request_stable) (use assms(1-3) in simp_all)
  moreover show run: "handle_request_cluster A X HP P v ?r g = Some (resp, spawned, g')"
    using assms(9) cluster_api.named [OF assms(4), of A X HP P v "request_from sh" g] by (simp add: name)
  ultimately obtain body where "hc_build H (post_message (uri @ ''/test'') (tx_request X ?r)) = Inr ()"
    "hc_send H (post_message (uri @ ''/test'') (tx_request X ?r)) = Inr body" "tx_read_response X body = Inr resp"
    using assms(8) unfolding primary_answers_def by (metis option.simps(9) fst_conv)
  then show "handle_request_cluster A X H C u (request_from sh) h = Some (resp, [], h)"
    using assms(5-7) by (simp add: handle_request_cluster_def forward_test_request_def forwarded_response_def name)
qed

definition forward_texts :: "(string, string, string, unit) api_texts" where
  "forward_texts = \<lparr>tx_request = (\<lambda>r. or_default [] (rq_name r)), tx_multi_request = (\<lambda>r. []), tx_status = (\<lambda>_. []),
     tx_read_response = (\<lambda>t. Inr (response_new t Starting)), tx_read_statuses = Inl, tx_read_messages = Inl\<rparr>"

definition forward_client :: http_client where
  "forward_client = \<lparr>hc_build = (\<lambda>_. Inr ()), hc_send = (\<lambda>m. hd (hm_body m)), hc_join = (\<lambda>u p. Some (u @ p))\<rparr>"

definition forward_view :: "bool \<Rightarrow> cluster_view" where
  "forward_view is_primary = \<lparr>cl_active = True, cl_primary = is_primary, cl_secondaries = Some [demo_node],
     cl_secondaries_again = Some [demo_node], cl_primaries = Some [Some ''http://10.0.0.1:3030'']\<rparr>"

abbreviation forward_primary :: "string \<Rightarrow> (string, string, string, unit) request \<Rightarrow> (response \<times> (string, string, string, unit) request list \<times> unit) option" where
  "forward_primary u r \<equiv>
     handle_request_cluster (demo_api\<lparr>ap_exists := (\<lambda>_. True)\<rparr>) forward_texts forward_client (forward_view True) u r ()"

lemma forward_demo:
  "uuid_shape served_uuid" "job_id served_uuid (rs_name demo_shadow) = ''demo-'' @ served_uuid"
  "forward_primary served_uuid (request_from demo_shadow)
     = Some (response_new (''demo-'' @ served_uuid) Starting, [(request_from demo_shadow)\<lparr>rq_name := Some (''demo-'' @ served_uuid)\<rparr>], ())"
proof -
  show "uuid_shape served_uuid" by code_simp
  have "job_id served_uuid (Some ''demo'') = ''demo-'' @ served_uuid" by code_simp
  then show job: "job_id served_uuid (rs_name demo_shadow) = ''demo-'' @ served_uuid" by (simp add: demo_shadow_def)
  have name: "rq_name (request_from demo_shadow) = rs_name demo_shadow" by (simp add: request_from_def)
  have "pre_check (demo_api\<lparr>ap_exists := (\<lambda>_. True)\<rparr>) ((request_from demo_shadow)\<lparr>rq_name := n\<rparr>) () = Some (Inr (), ())" for n
    by (simp add: pre_check_def request_from_def demo_shadow_def demo_api_def check_lua_def)
  then show "forward_primary served_uuid (request_from demo_shadow)
      = Some (response_new (''demo-'' @ served_uuid) Starting, [(request_from demo_shadow)\<lparr>rq_name := Some (''demo-'' @ served_uuid)\<rparr>], ())"
    by (simp add: handle_request_cluster_def forward_view_def job name Let_def)
qed

lemma forward_demo_answers:
  "primary_answers demo_env demo_templates None forward_texts forward_client ''http://10.0.0.1:3030''
     (\<lambda>r. map_option fst (forward_primary [] r))
     ((request_from demo_shadow)\<lparr>rq_name := Some (job_id served_uuid (rs_name demo_shadow))\<rparr>)"
proof -
  let ?r = "(request_from demo_shadow)\<lparr>rq_name := Some (job_id served_uuid (rs_name demo_shadow))\<rparr>"
  have "receive_request demo_env demo_templates None ?r = Some (Inr ?r)"
    using receive_request_stable [of demo_env demo_templates "Some ''data''"
        "demo_shadow\<lparr>rs_name := Some (job_id served_uuid (rs_name demo_shadow))\<rparr>" None] demo_shadow_accepted
    by (simp add: request_from_def)
  moreover have "forward_primary [] ?r = forward_primary served_uuid (request_from demo_shadow)"
    using cluster_api.named [OF forward_demo(1), of "demo_api\<lparr>ap_exists := (\<lambda>_. True)\<rparr>" forward_texts forward_client
        "forward_view True" "[]" "request_from demo_shadow" "()"]
    by (simp add: request_from_def)
  then have "map_option fst (forward_primary [] ?r) = Some (response_new (''demo-'' @ served_uuid) Starting)"
    unfolding forward_demo(3) by simp
  moreover have "hc_build forward_client (post_message p t) = Inr ()" "hc_send forward_client (post_message p t) = Inr t" for p t
    by (simp_all add: forward_client_def post_message_def)
  moreover have "tx_read_response forward_texts (tx_request forward_texts ?r) = Inr (response_new (''demo-'' @ served_uuid) Starting)"
    by (simp add: forward_texts_def or_default_def forward_demo(2))
  ultimately show ?thesis unfolding primary_answers_def by (metis option.inject sum.inject(2))
qed

theorem forwarded_job_runs_on_primary_witness:
  "handle_request_cluster (demo_api\<lparr>ap_exists := (\<lambda>_. True)\<rparr>) forward_texts forward_client (forward_view False) served_uuid
     (request_from demo_shadow) ()
   = Some (response_new (''demo-'' @ served_uuid) Starting, [], ())"
  using forwarded_job_runs_on_primary [OF demo_shadow_accepted forward_demo(1) _ _ _ forward_demo_answers forward_demo(3),
      of "forward_view False"]
  by (simp add: forward_view_def)

text \<open>Every answer to a status query or a stop request is an HTTP response: all errors that can arise have a valid
  status code.\<close>
lemma query_error_codes: "job_status_query_params_try_from q = Inl e \<Longrightarrow> error_code e = 400"
  by (auto simp: job_status_query_params_try_from_def Let_def generic_error_new_def and_then_def ok_or_def
      split: option.splits sum.splits if_splits prod.splits)

lemmas api_error_codes = generic_error_from_def generic_error_from_http_def internal_500_def inactive_cluster_error_def

lemma forward_error_codes:
  "forward_other_requests_to_primary H parse req = Inl e \<Longrightarrow> error_code e = 500"
  "forward_stop_request_to_primary H parse' job C = Inl e \<Longrightarrow> error_code e \<in> {400, 500}"
  "forward_get_status_request H parse'' query C = Inl e \<Longrightarrow> error_code e \<in> {400, 500}"
  by (auto simp: forward_other_requests_to_primary_def forward_stop_request_to_primary_def forward_get_status_request_def
      api_error_codes and_then_Inl_iff map_sum_Inl_iff Let_def split: sum.splits)

theorem replies_never_panic:
  "standalone_status_reply query jobs \<noteq> None" "history_reply X H C query jobs \<noteq> None"
  "fst (standalone_stop_reply job jobs) \<noteq> None" "fst (cluster_stop_reply X H C job jobs) \<noteq> None"
  by (auto simp: standalone_status_reply_def history_reply_def standalone_stop_reply_def cluster_stop_reply_def
      generic_result_to_reply_with_status_def generic_error_to_reply_with_status_def status_code_def handle_history_all_def
      cluster_stop_def standalone_stop_def stop_request_by_job_id_def inactive_cluster_error_def
      split: sum.splits if_splits prod.splits dest!: query_error_codes forward_error_codes)

text \<open>In cluster mode a list of jobs is started without the checks a single job has to pass.\<close>
theorem multi_request_cluster_unchecked:
  "cl_active C \<Longrightarrow> cl_primary C \<Longrightarrow>
     handle_multi_request_cluster X H C u requests
       = (response_new (job_id u (mr_name requests)) Starting, sub_jobs (job_id u (mr_name requests)) (mr_requests requests))"
  by (simp add: handle_multi_request_cluster_def sub_jobs_def Let_def)

text \<open>The configuration of the cluster keeps its value where a variable is not above the least value the code accepts: a
  maximum of 4 nodes is ignored.\<close>
theorem max_node_four_ignored:
  "max_node (cluster_config_from (\<lambda>name. if name = ''CLUSTER_MAX_NODE'' then Some ''4'' else None) config) = max_node config"
proof -
  have "parse_non_zero ''4'' = Some 4" by code_simp
  then show ?thesis by (simp add: cluster_config_from_def get_env_def)
qed

end
