(* ===== verification/Routes.thy ===== *)
theory Routes
  imports Api
begin

text \<open>
  The routes of a node (\<open>overload/src/filters.rs\<close> and \<open>overload/src/filters_cluster.rs\<close>) and the handlers they call.

  A route is a filter on a request: it accepts with what the handler gets, or rejects, \<open>None\<close>. The primitive filters of the
  warp library (methods, path segments, the length limit, headers, the query and JSON bodies) are the parameters of
  \<open>warp_env\<close>; a chain of filters takes the segments of the path one after the other, and of several routes the first that
  accepts is taken. A request is given by its method, the segments of its path, its query, its headers and its body.
\<close>

section \<open>Filters\<close>

record http_in =
  hi_method :: string
  hi_path :: "string list"
  hi_query :: string
  hi_headers :: "(string \<times> string) list"
  hi_body :: byte_stream

record ('h, 'a, 'p, 'db) warp_env =
  wp_method :: "string \<Rightarrow> http_in \<Rightarrow> bool"
  wp_lit :: "string \<Rightarrow> string \<Rightarrow> bool"
  wp_string :: "string \<Rightarrow> string option"
  wp_usize :: "string \<Rightarrow> usize option"
  wp_bool :: "string \<Rightarrow> bool option"
  wp_length_limit :: "nat \<Rightarrow> http_in \<Rightarrow> bool"
  wp_header :: "string \<Rightarrow> http_in \<Rightarrow> string option"
  wp_u64_header :: "string \<Rightarrow> http_in \<Rightarrow> nat option"
  wp_query :: "http_in \<Rightarrow> (string \<times> string) list option"
  wp_request :: "http_in \<Rightarrow> ('h, 'a, 'p, 'db) request option"
  wp_multi_request :: "http_in \<Rightarrow> ('h, 'a, 'p, 'db) multi_request option"

definition require :: "bool \<Rightarrow> unit option" where
  "require b = (if b then Some () else None)"

definition path_lit :: "('h, 'a, 'p, 'db) warp_env \<Rightarrow> string \<Rightarrow> string list \<Rightarrow> string list option" where
  "path_lit W l segs = (case segs of s # rest \<Rightarrow> if wp_lit W l s then Some rest else None | [] \<Rightarrow> None)"

definition path_param :: "(string \<Rightarrow> 'v option) \<Rightarrow> string list \<Rightarrow> ('v \<times> string list) option" where
  "path_param f segs = (case segs of s # rest \<Rightarrow> map_option (\<lambda>v. (v, rest)) (f s) | [] \<Rightarrow> None)"

definition path_end :: "string list \<Rightarrow> unit option" where
  "path_end segs = require (segs = [])"

section \<open>Routes\<close>

datatype ('h, 'a, 'p, 'db) endpoint =
    MetricsEndpoint
  | TestEndpoint "('h, 'a, 'p, 'db) request"
  | TestsEndpoint "('h, 'a, 'p, 'db) multi_request"
  | StopEndpoint string
  | StatusEndpoint "(string \<times> string) list"
  | CsvEndpoint byte_stream
  | SqliteEndpoint "string option" byte_stream
  | ClusterCsvEndpoint nat byte_stream
  | ClusterSqliteEndpoint nat "string option" byte_stream
  | InfoEndpoint
  | RequestVoteEndpoint string usize
  | VoteEndpoint usize bool
  | BeatEndpoint string usize
  | DataFileEndpoint string

type_synonym ('h, 'a, 'p, 'db) route = "http_in \<Rightarrow> ('h, 'a, 'p, 'db) endpoint option"

definition prometheus_route :: "('h, 'a, 'p, 'db) warp_env \<Rightarrow> ('h, 'a, 'p, 'db) route" where
  "prometheus_route W q = do { require (wp_method W ''GET'' q); path_lit W ''metrics'' (hi_path q); Some MetricsEndpoint }"

definition overload_req :: "('h, 'a, 'p, 'db) warp_env \<Rightarrow> ('h, 'a, 'p, 'db) route" where
  "overload_req W q =
     do { require (wp_method W ''POST'' q);
          p \<leftarrow> path_lit W ''test'' (hi_path q); path_end p;
          require (wp_length_limit W (1024 * 1024 * 2) q);
          request \<leftarrow> wp_request W q;
          Some (TestEndpoint request) }"

definition overload_multi_req :: "('h, 'a, 'p, 'db) warp_env \<Rightarrow> ('h, 'a, 'p, 'db) route" where
  "overload_multi_req W q =
     do { require (wp_method W ''POST'' q);
          p \<leftarrow> path_lit W ''tests'' (hi_path q); path_end p;
          require (wp_length_limit W (1024 * 1024 * 5) q);
          request \<leftarrow> wp_multi_request W q;
          Some (TestsEndpoint request) }"

definition stop_req :: "('h, 'a, 'p, 'db) warp_env \<Rightarrow> ('h, 'a, 'p, 'db) route" where
  "stop_req W q =
     do { p \<leftarrow> path_lit W ''test'' (hi_path q); p \<leftarrow> path_lit W ''stop'' p;
          (job, p) \<leftarrow> path_param (wp_string W) p; path_end p;
          Some (StopEndpoint job) }"

definition status_req :: "('h, 'a, 'p, 'db) warp_env \<Rightarrow> ('h, 'a, 'p, 'db) route" where
  "status_req W q =
     do { p \<leftarrow> path_lit W ''test'' (hi_path q); p \<leftarrow> path_lit W ''status'' p; path_end p;
          pager_option \<leftarrow> wp_query W q;
          Some (StatusEndpoint pager_option) }"

text \<open>The three upload routes; in cluster mode they also take the length from the header.\<close>

definition upload_filter :: "('h, 'a, 'p, 'db) warp_env \<Rightarrow> string \<Rightarrow> string \<Rightarrow> http_in \<Rightarrow> unit option" where
  "upload_filter W a b q =
     do { require (wp_method W ''POST'' q);
          p \<leftarrow> path_lit W a (hi_path q); p \<leftarrow> path_lit W b p; path_end p;
          require (wp_length_limit W (1024 * 1024 * 1024) q) }"

definition upload_binary_file :: "('h, 'a, 'p, 'db) warp_env \<Rightarrow> ('h, 'a, 'p, 'db) route" where
  "upload_binary_file W q = do { upload_filter W ''test'' ''requests-bin'' q; Some (CsvEndpoint (hi_body q)) }"

definition upload_csv_file :: "('h, 'a, 'p, 'db) warp_env \<Rightarrow> ('h, 'a, 'p, 'db) route" where
  "upload_csv_file W q = do { upload_filter W ''request-file'' ''csv'' q; Some (CsvEndpoint (hi_body q)) }"

definition upload_sqlite_file :: "('h, 'a, 'p, 'db) warp_env \<Rightarrow> ('h, 'a, 'p, 'db) route" where
  "upload_sqlite_file W q =
     do { upload_filter W ''request-file'' ''sqlite'' q;
          Some (SqliteEndpoint (wp_header W ''content-encoding'' q) (hi_body q)) }"

definition cluster_upload_binary_file :: "('h, 'a, 'p, 'db) warp_env \<Rightarrow> ('h, 'a, 'p, 'db) route" where
  "cluster_upload_binary_file W q =
     do { upload_filter W ''test'' ''requests-bin'' q;
          content_len \<leftarrow> wp_u64_header W ''content-length'' q;
          Some (ClusterCsvEndpoint content_len (hi_body q)) }"

definition cluster_upload_csv_file :: "('h, 'a, 'p, 'db) warp_env \<Rightarrow> ('h, 'a, 'p, 'db) route" where
  "cluster_upload_csv_file W q =
     do { upload_filter W ''request-file'' ''csv'' q;
          content_len \<leftarrow> wp_u64_header W ''content-length'' q;
          Some (ClusterCsvEndpoint content_len (hi_body q)) }"

definition cluster_upload_sqlite_file :: "('h, 'a, 'p, 'db) warp_env \<Rightarrow> ('h, 'a, 'p, 'db) route" where
  "cluster_upload_sqlite_file W q =
     do { upload_filter W ''request-file'' ''sqlite'' q;
          content_len \<leftarrow> wp_u64_header W ''content-length'' q;
          Some (ClusterSqliteEndpoint content_len (wp_header W ''content-encoding'' q) (hi_body q)) }"

definition info_req :: "('h, 'a, 'p, 'db) warp_env \<Rightarrow> ('h, 'a, 'p, 'db) route" where
  "info_req W q =
     do { p \<leftarrow> path_lit W ''cluster'' (hi_path q); p \<leftarrow> path_lit W ''info'' p; path_end p; Some InfoEndpoint }"

definition raft_path :: "('h, 'a, 'p, 'db) warp_env \<Rightarrow> string \<Rightarrow> http_in \<Rightarrow> string list option" where
  "raft_path W l q = do { p \<leftarrow> path_lit W ''cluster'' (hi_path q); p \<leftarrow> path_lit W ''raft'' p; path_lit W l p }"

definition request_vote :: "('h, 'a, 'p, 'db) warp_env \<Rightarrow> ('h, 'a, 'p, 'db) route" where
  "request_vote W q =
     do { p \<leftarrow> raft_path W ''request-vote'' q;
          (node_id, p) \<leftarrow> path_param (wp_string W) p; (trm, p) \<leftarrow> path_param (wp_usize W) p; path_end p;
          Some (RequestVoteEndpoint node_id trm) }"

definition request_vote_response :: "('h, 'a, 'p, 'db) warp_env \<Rightarrow> ('h, 'a, 'p, 'db) route" where
  "request_vote_response W q =
     do { p \<leftarrow> raft_path W ''vote'' q;
          (trm, p) \<leftarrow> path_param (wp_usize W) p; (vote, p) \<leftarrow> path_param (wp_bool W) p; path_end p;
          Some (VoteEndpoint trm vote) }"

definition heartbeat :: "('h, 'a, 'p, 'db) warp_env \<Rightarrow> ('h, 'a, 'p, 'db) route" where
  "heartbeat W q =
     do { p \<leftarrow> raft_path W ''beat'' q;
          (leader_node, p) \<leftarrow> path_param (wp_string W) p; (trm, p) \<leftarrow> path_param (wp_usize W) p; path_end p;
          Some (BeatEndpoint leader_node trm) }"

definition download_req_from_secondaries :: "('h, 'a, 'p, 'db) warp_env \<Rightarrow> ('h, 'a, 'p, 'db) route" where
  "download_req_from_secondaries W q =
     do { p \<leftarrow> path_lit W ''cluster'' (hi_path q); p \<leftarrow> path_lit W ''data-file'' p;
          (filename, p) \<leftarrow> path_param (wp_string W) p; path_end p;
          Some (DataFileEndpoint filename) }"

fun first_route :: "('h, 'a, 'p, 'db) route list \<Rightarrow> ('h, 'a, 'p, 'db) route" where
  "first_route [] q = None"
| "first_route (r # rs) q = (case r q of None \<Rightarrow> first_route rs q | Some e \<Rightarrow> Some e)"

definition get_routes :: "('h, 'a, 'p, 'db) warp_env \<Rightarrow> ('h, 'a, 'p, 'db) route list" where
  "get_routes W = [prometheus_route W, overload_req W, overload_multi_req W, stop_req W, status_req W,
     upload_binary_file W, upload_csv_file W, upload_sqlite_file W]"

definition get_routes_with_cluster :: "('h, 'a, 'p, 'db) warp_env \<Rightarrow> ('h, 'a, 'p, 'db) route list" where
  "get_routes_with_cluster W = [prometheus_route W, overload_req W, overload_multi_req W, stop_req W, status_req W,
     cluster_upload_binary_file W, cluster_upload_csv_file W, cluster_upload_sqlite_file W,
     info_req W, request_vote W, request_vote_response W, heartbeat W, download_req_from_secondaries W]"

section \<open>A node\<close>

record ('h, 'a, 'p, 'db, 'g, 'c, 'cl) node_world =
  nw_jobs :: job_store
  nw_spawned :: "('h, 'a, 'p, 'db) request list"
  nw_rng :: 'g
  nw_files :: files
  nw_tables :: "'c option list"
  nw_cluster :: 'cl

datatype node_body =
    TextBody string
  | ResponseBody response
  | StatusBody "job_status reply_body"
  | MessageBody "string reply_body"
  | JsonBody json
  | StreamBody byte_stream

record ('h, 'a, 'p, 'db, 'g, 'f, 'k, 'c, 'cl) node_env =
  ne_api :: "('h, 'g, 'f, 'k) api_env"
  ne_texts :: "('h, 'a, 'p, 'db) api_texts"
  ne_client :: http_client
  ne_view :: cluster_view
  ne_raft :: "'cl raft_env"
  ne_source :: "('db, 'g) source_env"
  ne_upload :: "'c upload_env"
  ne_csv :: "byte_stream \<Rightarrow> (string + csv_row) list"
  ne_io :: "('db, 'g) io_env"
  ne_disk :: disk_env
  ne_data_dir :: "string option"
  ne_error_text :: "generic_error \<Rightarrow> string"
  ne_metrics :: "string + string"

type_synonym ('h, 'a, 'p, 'db, 'g, 'c, 'cl) node_result =
  "((nat \<times> node_body) option \<times> ('h, 'a, 'p, 'db, 'g, 'c, 'cl) node_world) option"

definition reply :: "nat \<times> node_body \<Rightarrow> ('h, 'a, 'p, 'db, 'g, 'c, 'cl) node_world
     \<Rightarrow> ('h, 'a, 'p, 'db, 'g, 'c, 'cl) node_result" where
  "reply r w = Some (Some r, w)"

text \<open>The handlers \<open>execute\<close> and \<open>execute_multiple\<close>, and \<open>execute_cluster\<close> and \<open>execute_multi_req_cluster\<close>.\<close>

definition spawn_jobs :: "(response \<times> ('h, 'a, 'p, 'db) request list \<times> 'g) option
     \<Rightarrow> ('h, 'a, 'p, 'db, 'g, 'c, 'cl) node_world \<Rightarrow> ('h, 'a, 'p, 'db, 'g, 'c, 'cl) node_result" where
  "spawn_jobs result w =
     do { (response, spawned, g) \<leftarrow> result;
          reply (200, ResponseBody response) (w\<lparr>nw_spawned := nw_spawned w @ spawned, nw_rng := g\<rparr>) }"

definition standalone_execute where
  "standalone_execute N new_uuid request w = spawn_jobs (api_handle_request (ne_api N) new_uuid request (nw_rng w)) w"

definition execute_multiple where
  "execute_multiple N new_uuid requests w = spawn_jobs (handle_multi_request (ne_api N) new_uuid requests (nw_rng w)) w"

definition execute_cluster where
  "execute_cluster N new_uuid request w =
     spawn_jobs (handle_request_cluster (ne_api N) (ne_texts N) (ne_client N) (ne_view N) new_uuid request (nw_rng w)) w"

definition execute_multi_req_cluster where
  "execute_multi_req_cluster N new_uuid requests w =
     (let (response, spawned) = handle_multi_request_cluster (ne_texts N) (ne_client N) (ne_view N) new_uuid requests
      in spawn_jobs (Some (response, spawned, nw_rng w)) w)"

text \<open>The handler of an endpoint in standalone mode and in cluster mode; an endpoint that has no route in a mode is
  rejected.\<close>

fun standalone_serve ::
  "('h, 'a, 'p, 'db, 'g, 'f, 'k, 'c, 'cl) node_env \<Rightarrow> string \<Rightarrow> ('h, 'a, 'p, 'db) endpoint
     \<Rightarrow> ('h, 'a, 'p, 'db, 'g, 'c, 'cl) node_world \<Rightarrow> ('h, 'a, 'p, 'db, 'g, 'c, 'cl) node_result" where
  "standalone_serve N new_uuid MetricsEndpoint w = reply (apsnd TextBody (prometheus_metric (ne_metrics N))) w"
| "standalone_serve N new_uuid (TestEndpoint request) w = standalone_execute N new_uuid request w"
| "standalone_serve N new_uuid (TestsEndpoint requests) w = execute_multiple N new_uuid requests w"
| "standalone_serve N new_uuid (StopEndpoint job) w =
     (let (r, jobs) = standalone_stop_reply job (nw_jobs w)
      in do { r \<leftarrow> r; reply (apsnd MessageBody r) (w\<lparr>nw_jobs := jobs\<rparr>) })"
| "standalone_serve N new_uuid (StatusEndpoint query) w =
     do { r \<leftarrow> standalone_status_reply query (nw_jobs w); reply (apsnd StatusBody r) w }"
| "standalone_serve N new_uuid (CsvEndpoint data) w =
     (let (r, c) = standalone_upload_csv (ne_source N) (ne_upload N) new_uuid (ne_data_dir N)
                     (ne_csv N (warp_stream (\<lambda>e. e) data))
      in reply (apsnd MessageBody r) (w\<lparr>nw_tables := nw_tables w @ [c]\<rparr>))"
| "standalone_serve N new_uuid (SqliteEndpoint content_encoding data) w =
     (let (r, files) = standalone_upload_sqlite (ne_io N) new_uuid (ne_data_dir N) content_encoding data (nw_files w)
      in reply (apsnd MessageBody r) (w\<lparr>nw_files := files\<rparr>))"
| "standalone_serve N new_uuid _ w = Some (None, w)"

fun cluster_serve ::
  "('h, 'a, 'p, 'db, 'g, 'f, 'k, 'c, 'cl) node_env \<Rightarrow> string \<Rightarrow> ('h, 'a, 'p, 'db) endpoint
     \<Rightarrow> ('h, 'a, 'p, 'db, 'g, 'c, 'cl) node_world \<Rightarrow> ('h, 'a, 'p, 'db, 'g, 'c, 'cl) node_result" where
  "cluster_serve N new_uuid MetricsEndpoint w = reply (apsnd TextBody (prometheus_metric (ne_metrics N))) w"
| "cluster_serve N new_uuid (TestEndpoint request) w = execute_cluster N new_uuid request w"
| "cluster_serve N new_uuid (TestsEndpoint requests) w = execute_multi_req_cluster N new_uuid requests w"
| "cluster_serve N new_uuid (StopEndpoint job) w =
     (let (r, jobs) = cluster_stop_reply (ne_texts N) (ne_client N) (ne_view N) job (nw_jobs w)
      in do { r \<leftarrow> r; reply (apsnd MessageBody r) (w\<lparr>nw_jobs := jobs\<rparr>) })"
| "cluster_serve N new_uuid (StatusEndpoint query) w =
     do { r \<leftarrow> history_reply (ne_texts N) (ne_client N) (ne_view N) query (nw_jobs w); reply (apsnd StatusBody r) w }"
| "cluster_serve N new_uuid (ClusterCsvEndpoint content_len data) w =
     do { (r, c) \<leftarrow> cluster_upload_csv (ne_texts N) (ne_client N) (ne_view N) (ne_source N) (ne_upload N) (ne_csv N)
                       new_uuid (ne_data_dir N) data content_len;
          reply (apsnd MessageBody r) (w\<lparr>nw_tables := nw_tables w @ [c]\<rparr>) }"
| "cluster_serve N new_uuid (ClusterSqliteEndpoint content_len content_encoding data) w =
     do { (r, files) \<leftarrow> cluster_upload_sqlite (ne_texts N) (ne_client N) (ne_view N) (ne_io N) new_uuid (ne_data_dir N)
                          data content_len content_encoding (nw_files w);
          reply (apsnd MessageBody r) (w\<lparr>nw_files := files\<rparr>) }"
| "cluster_serve N new_uuid InfoEndpoint w = reply (apsnd JsonBody (cluster_info (ne_raft N) True (nw_cluster w))) w"
| "cluster_serve N new_uuid (RequestVoteEndpoint node_id trm) w =
     (let (r, cl) = cluster_request_vote (ne_raft N) True node_id trm (nw_cluster w)
      in reply (apsnd JsonBody r) (w\<lparr>nw_cluster := cl\<rparr>))"
| "cluster_serve N new_uuid (VoteEndpoint trm vote) w =
     (let (r, cl) = cluster_request_vote_response (ne_raft N) True trm vote (nw_cluster w)
      in reply (apsnd JsonBody r) (w\<lparr>nw_cluster := cl\<rparr>))"
| "cluster_serve N new_uuid (BeatEndpoint leader_node trm) w =
     (let (r, cl) = cluster_heartbeat (ne_raft N) True leader_node trm (nw_cluster w)
      in reply (apsnd JsonBody r) (w\<lparr>nw_cluster := cl\<rparr>))"
| "cluster_serve N new_uuid (DataFileEndpoint filename) w =
     do { r \<leftarrow> response_file (ne_disk N) (ne_error_text N) (ne_data_dir N) filename; reply (apsnd StreamBody r) w }"
| "cluster_serve N new_uuid _ w = Some (None, w)"

text \<open>A request at a node; \<open>None\<close> for the reply is a rejection of warp.\<close>

definition standalone_node where
  "standalone_node W N new_uuid q w =
     (case first_route (get_routes W) q of None \<Rightarrow> Some (None, w) | Some e \<Rightarrow> standalone_serve N new_uuid e w)"

definition cluster_node_serve where
  "cluster_node_serve W N new_uuid q w =
     (case first_route (get_routes_with_cluster W) q of None \<Rightarrow> Some (None, w) | Some e \<Rightarrow> cluster_serve N new_uuid e w)"

section \<open>At most one route accepts\<close>

text \<open>What the documentation of warp promises about a literal segment and a parameter of type \<open>String\<close>.\<close>

definition warp_ok :: "('h, 'a, 'p, 'db) warp_env \<Rightarrow> bool" where
  "warp_ok W \<longleftrightarrow> (\<forall>l s. wp_lit W l s \<longleftrightarrow> l = s) \<and> (\<forall>s. s \<noteq> [] \<longrightarrow> wp_string W s = Some s)"

text \<open>The position in the list of the only route that can accept a path.\<close>

definition route_tag :: "string list \<Rightarrow> nat" where
  "route_tag p =
     (if take 1 p = [''metrics''] then 0
      else if p = [''test''] then 1
      else if p = [''tests''] then 2
      else if take 2 p = [''test'', ''stop''] then 3
      else if p = [''test'', ''status''] then 4
      else if p = [''test'', ''requests-bin''] then 5
      else if p = [''request-file'', ''csv''] then 6
      else if p = [''request-file'', ''sqlite''] then 7
      else if p = [''cluster'', ''info''] then 8
      else if take 3 p = [''cluster'', ''raft'', ''request-vote''] then 9
      else if take 3 p = [''cluster'', ''raft'', ''vote''] then 10
      else if take 3 p = [''cluster'', ''raft'', ''beat''] then 11
      else 12)"

lemma path_lit_Some: "warp_ok W \<Longrightarrow> path_lit W l p = Some r \<longleftrightarrow> p = l # r"
  by (cases p) (auto simp: path_lit_def warp_ok_def)

lemma path_param_Some: "path_param f p = Some (v, r) \<longleftrightarrow> (\<exists>s. p = s # r \<and> f s = Some v)"
  by (cases p) (auto simp: path_param_def)

lemma path_end_Some: "path_end p = Some u \<longleftrightarrow> p = []"
  by (simp add: path_end_def require_def)

lemma require_Some: "require b = Some u \<longleftrightarrow> b"
  by (simp add: require_def)

lemmas filter_simps = Option.bind_eq_Some_conv path_param_Some path_end_Some require_Some

lemma routes_tagged:
  assumes "warp_ok W"
  shows "prometheus_route W q = Some e \<Longrightarrow> route_tag (hi_path q) = 0"
    "overload_req W q = Some e \<Longrightarrow> route_tag (hi_path q) = 1"
    "overload_multi_req W q = Some e \<Longrightarrow> route_tag (hi_path q) = 2"
    "stop_req W q = Some e \<Longrightarrow> route_tag (hi_path q) = 3"
    "status_req W q = Some e \<Longrightarrow> route_tag (hi_path q) = 4"
    "upload_filter W ''test'' ''requests-bin'' q = Some u \<Longrightarrow> route_tag (hi_path q) = 5"
    "upload_filter W ''request-file'' ''csv'' q = Some u \<Longrightarrow> route_tag (hi_path q) = 6"
    "upload_filter W ''request-file'' ''sqlite'' q = Some u \<Longrightarrow> route_tag (hi_path q) = 7"
    "info_req W q = Some e \<Longrightarrow> route_tag (hi_path q) = 8"
    "request_vote W q = Some e \<Longrightarrow> route_tag (hi_path q) = 9"
    "request_vote_response W q = Some e \<Longrightarrow> route_tag (hi_path q) = 10"
    "heartbeat W q = Some e \<Longrightarrow> route_tag (hi_path q) = 11"
    "download_req_from_secondaries W q = Some e \<Longrightarrow> route_tag (hi_path q) = 12"
  by (auto simp: prometheus_route_def overload_req_def overload_multi_req_def stop_req_def status_req_def upload_filter_def
      info_req_def raft_path_def request_vote_def request_vote_response_def heartbeat_def download_req_from_secondaries_def
      filter_simps path_lit_Some [OF assms] route_tag_def split: prod.splits)

lemma upload_routes:
  "upload_binary_file W q = Some e \<Longrightarrow> upload_filter W ''test'' ''requests-bin'' q = Some ()"
  "upload_csv_file W q = Some e \<Longrightarrow> upload_filter W ''request-file'' ''csv'' q = Some ()"
  "upload_sqlite_file W q = Some e \<Longrightarrow> upload_filter W ''request-file'' ''sqlite'' q = Some ()"
  "cluster_upload_binary_file W q = Some e \<Longrightarrow> upload_filter W ''test'' ''requests-bin'' q = Some ()"
  "cluster_upload_csv_file W q = Some e \<Longrightarrow> upload_filter W ''request-file'' ''csv'' q = Some ()"
  "cluster_upload_sqlite_file W q = Some e \<Longrightarrow> upload_filter W ''request-file'' ''sqlite'' q = Some ()"
  by (auto simp: upload_binary_file_def upload_csv_file_def upload_sqlite_file_def cluster_upload_binary_file_def
      cluster_upload_csv_file_def cluster_upload_sqlite_file_def Option.bind_eq_Some_conv)

definition tagged_routes :: "('h, 'a, 'p, 'db) route list \<Rightarrow> http_in \<Rightarrow> bool" where
  "tagged_routes rs q \<longleftrightarrow> (\<forall>(i, r) \<in> set (enumerate 0 rs). r q \<noteq> None \<longrightarrow> route_tag (hi_path q) = i)"

lemma routes_are_tagged:
  assumes "warp_ok W"
  shows "tagged_routes (get_routes W) q" "tagged_routes (get_routes_with_cluster W) q"
  unfolding tagged_routes_def get_routes_def get_routes_with_cluster_def
  by (auto dest: routes_tagged [OF assms] routes_tagged(6) [OF assms upload_routes(1)] routes_tagged(7) [OF assms upload_routes(2)]
      routes_tagged(8) [OF assms upload_routes(3)] routes_tagged(6) [OF assms upload_routes(4)]
      routes_tagged(7) [OF assms upload_routes(5)] routes_tagged(8) [OF assms upload_routes(6)])

lemma tagged_unique:
  assumes "tagged_routes rs q" "r \<in> set rs" "r' \<in> set rs" "r q \<noteq> None" "r' q \<noteq> None"
  shows "r = r'"
proof -
  obtain i j where "i < length rs" "r = rs ! i" "j < length rs" "r' = rs ! j" using assms(2,3) by (auto simp: in_set_conv_nth)
  then have "(i, r) \<in> set (enumerate 0 rs)" "(j, r') \<in> set (enumerate 0 rs)" by (auto simp: in_set_enumerate_eq)
  then have "i = route_tag (hi_path q)" "j = route_tag (hi_path q)" using assms(1,4,5) by (auto simp: tagged_routes_def)
  then show ?thesis using \<open>r = rs ! i\<close> \<open>r' = rs ! j\<close> by simp
qed

lemma first_route_None: "first_route rs q = None \<longleftrightarrow> (\<forall>r \<in> set rs. r q = None)"
  by (induction rs) (auto split: option.splits)

lemma first_route_Some: "first_route rs q = Some e \<Longrightarrow> \<exists>r \<in> set rs. r q = Some e"
  by (induction rs) (auto split: option.splits)

lemma first_route_unique:
  assumes "tagged_routes rs q" "set rs' = set rs" "r \<in> set rs" "r q = Some e"
  shows "first_route rs' q = Some e"
proof (cases "first_route rs' q")
  case None
  then show ?thesis using assms(2-4) by (auto simp: first_route_None)
next
  case (Some e')
  then obtain r' where "r' \<in> set rs" "r' q = Some e'" using first_route_Some assms(2) by fastforce
  then show ?thesis using tagged_unique [OF assms(1,3), of r'] assms(4) Some by auto
qed

lemma first_route_order:
  assumes "tagged_routes rs q" "set rs' = set rs"
  shows "first_route rs' q = first_route rs q"
proof (cases "first_route rs q")
  case None
  then have "first_route rs' q = None" using assms(2) by (simp add: first_route_None)
  with None show ?thesis by simp
next
  case (Some e)
  with first_route_Some obtain r where "r \<in> set rs" "r q = Some e" by fast
  from first_route_unique [OF assms this] Some show ?thesis by simp
qed

section \<open>Asking any node\<close>

text \<open>A request without a body, as another node sends it, and the segments that can be part of an address.\<close>

definition get_request :: "string list \<Rightarrow> string \<Rightarrow> http_in" where
  "get_request segs query = \<lparr>hi_method = ''GET'', hi_path = segs, hi_query = query, hi_headers = [], hi_body = []\<rparr>"

definition address :: "string \<Rightarrow> string list \<Rightarrow> string \<Rightarrow> string" where
  "address uri segs query =
     uri @ concat (map (\<lambda>s. CHR ''/'' # s) segs) @ (if query = [] then [] else CHR ''?'' # query)"

definition plain_segment :: "string \<Rightarrow> bool" where
  "plain_segment s \<longleftrightarrow> s \<noteq> [] \<and> set s \<inter> set ''/?#'' = {}"

text \<open>The HTTP client reaches the other node: for an address of plain segments the answer is the text of what that node replies.\<close>

definition node_replies ::
  "http_client \<Rightarrow> (node_body \<Rightarrow> string) \<Rightarrow> string \<Rightarrow> (http_in \<Rightarrow> (nat \<times> node_body) option) \<Rightarrow> string list \<Rightarrow> string \<Rightarrow> bool" where
  "node_replies H body_text uri node segs query \<longleftrightarrow>
     (list_all plain_segment segs \<longrightarrow>
        (\<forall>code body. node (get_request segs query) = Some (code, body) \<longrightarrow>
           hc_build H (get_message (address uri segs query)) = Inr ()
           \<and> hc_send H (get_message (address uri segs query)) = Inr (body_text body)))"

lemma route_to:
  assumes "warp_ok W"
  shows "job \<noteq> [] \<Longrightarrow> first_route (get_routes_with_cluster W) (get_request [''test'', ''stop'', job] query) = Some (StopEndpoint job)"
    "wp_query W (get_request [''test'', ''status''] query) = Some opts
       \<Longrightarrow> first_route (get_routes_with_cluster W) (get_request [''test'', ''status''] query) = Some (StatusEndpoint opts)"
proof -
  let ?stop = "get_request [''test'', ''stop'', job] query" and ?status = "get_request [''test'', ''status''] query"
  have lit: "path_lit W l (l # p) = Some p" for l p by (simp add: path_lit_Some [OF assms])
  show "first_route (get_routes_with_cluster W) ?stop = Some (StopEndpoint job)" if "job \<noteq> []"
  proof (rule first_route_unique [OF routes_are_tagged(2) [OF assms] refl])
    show "stop_req W ?stop = Some (StopEndpoint job)"
      using that assms lit by (simp add: stop_req_def get_request_def path_param_def path_end_def require_def warp_ok_def)
  qed (simp add: get_routes_with_cluster_def)
  show "first_route (get_routes_with_cluster W) ?status = Some (StatusEndpoint opts)" if "wp_query W ?status = Some opts"
  proof (rule first_route_unique [OF routes_are_tagged(2) [OF assms] refl])
    show "status_req W ?status = Some (StatusEndpoint opts)"
      using that lit by (simp add: status_req_def get_request_def path_end_def require_def)
  qed (simp add: get_routes_with_cluster_def)
qed

lemma primary_stops:
  assumes "warp_ok W" "job \<noteq> []" "cl_active (ne_view P)" "cl_primary (ne_view P)"
  shows "cluster_node_serve W P u (get_request [''test'', ''stop'', job] query) w
    = Some (Some (200, MessageBody (Answer (fst (stop_job job (nw_jobs w))))), w\<lparr>nw_jobs := snd (stop_job job (nw_jobs w))\<rparr>)"
  using assms route_to(1) [OF assms(1,2), of query]
  by (simp add: cluster_node_serve_def cluster_stop_reply_def cluster_stop_def generic_result_to_reply_with_status_def
      reply_def apfst_def map_prod_def split: prod.split)

section \<open>Properties\<close>


definition node_warp :: "(string, string, string, nat) warp_env" where
  "node_warp = \<lparr>wp_method = (\<lambda>m q. hi_method q = m), wp_lit = (=), wp_string = (\<lambda>s. if s = [] then None else Some s),
     wp_usize = parse_usize, wp_bool = (\<lambda>s. if s = ''true'' then Some True else if s = ''false'' then Some False else None),
     wp_length_limit = (\<lambda>_ _. True), wp_header = (\<lambda>name q. map_of (hi_headers q) name),
     wp_u64_header = (\<lambda>name q. Option.bind (map_of (hi_headers q) name) (parse_unsigned 64)),
     wp_query = (\<lambda>q. if hi_query q = ''job_id=demo'' then Some [(''job_id'', ''demo'')] else None),
     wp_request = (\<lambda>_. None), wp_multi_request = (\<lambda>_. None)\<rparr>"

lemma node_warp_ok: "warp_ok node_warp"
  by (simp add: warp_ok_def node_warp_def)


definition node_texts :: "(string, string, string, nat) api_texts" where
  "node_texts = \<lparr>tx_request = (\<lambda>_. []), tx_multi_request = (\<lambda>_. []), tx_status = (\<lambda>_. []), tx_read_response = (\<lambda>_. Inl []),
     tx_read_statuses = (\<lambda>_. Inr [(''demo'', InProgress)]), tx_read_messages = (\<lambda>_. Inr [(''demo'', ''Job stopped'')])\<rparr>"

definition node_client :: http_client where
  "node_client = \<lparr>hc_build = (\<lambda>_. Inr ()), hc_send = (\<lambda>_. Inr []), hc_join = (\<lambda>u p. Some (u @ p))\<rparr>"

definition node_demo :: "(string, string, string, nat, unit, unit, unit, sqlite_row list, unit) node_env" where
  "node_demo = \<lparr>ne_api = demo_api, ne_texts = node_texts, ne_client = node_client, ne_view = forward_view True,
     ne_raft = \<lparr>rf_info = (\<lambda>_. Null), rf_request_vote = (\<lambda>_ _ c. c), rf_request_vote_resp = (\<lambda>_ _ c. c), rf_heartbeat = (\<lambda>_ _ c. c)\<rparr>,
     ne_source = csv_source, ne_upload = csv_upload, ne_csv = (\<lambda>_. []),
     ne_io = \<lparr>io_create = (\<lambda>_. Inr ()), io_gunzip = (\<lambda>b. b), io_copy = (\<lambda>b. ([], Inr ())), io_reopen = (\<lambda>_ _. csv_source)\<rparr>,
     ne_disk = served_disk, ne_data_dir = None, ne_error_text = ge_message, ne_metrics = Inr []\<rparr>"

definition node_state :: "(string, string, string, nat, unit, sqlite_row list, unit) node_world" where
  "node_state = \<lparr>nw_jobs = [(''demo'', InProgress)], nw_spawned = [], nw_rng = (), nw_files = [], nw_tables = [], nw_cluster = ()\<rparr>"

lemma node_view:
  "cl_active (forward_view b)" "cl_primary (forward_view b) \<longleftrightarrow> b" "cl_primaries (forward_view b) = Some [Some ''http://10.0.0.1:3030'']"
  "ne_view node_demo = forward_view True" "nw_jobs node_state = [(''demo'', InProgress)]"
  by (simp_all add: forward_view_def node_demo_def node_state_def)

lemma node_client_replies: "node_replies node_client (\<lambda>_. []) uri node segs query"
  by (simp add: node_replies_def node_client_def)

text \<open>C12: a stop request sent to a node that is not the primary has the effect and the answer it has at the primary: the address
  that is built leads to the stop route there, the jobs whose ids begin with the given text are stopped, and
  their messages come back; the jobs of the asked node are not touched.\<close>
theorem stop_through_any_node:
  assumes "warp_ok W" "plain_segment job" "cl_active (ne_view P)" "cl_primary (ne_view P)"
    and "cl_active C" "\<not> cl_primary C" "cl_primaries C = Some (Some uri # primaries)"
    and "node_replies H body_text uri (\<lambda>q. Option.bind (cluster_node_serve W P u q w) fst) [''test'', ''stop'', job] []"
    and "tx_read_messages X (body_text (MessageBody (Answer (fst (stop_job job (nw_jobs w)))))) = Inr (fst (stop_job job (nw_jobs w)))"
  shows "cluster_stop X H C job jobs = (Inr (fst (stop_job job (nw_jobs w))), jobs)
    \<and> cluster_node_serve W P u (get_request [''test'', ''stop'', job] []) w
      = Some (Some (200, MessageBody (Answer (fst (stop_job job (nw_jobs w))))), w\<lparr>nw_jobs := snd (stop_job job (nw_jobs w))\<rparr>)"
proof
  have "job \<noteq> []" using assms(2) by (simp add: plain_segment_def)
  from primary_stops [OF assms(1) this assms(3,4)]
  show run: "cluster_node_serve W P u (get_request [''test'', ''stop'', job] []) w
      = Some (Some (200, MessageBody (Answer (fst (stop_job job (nw_jobs w))))), w\<lparr>nw_jobs := snd (stop_job job (nw_jobs w))\<rparr>)" .
  have "list_all plain_segment [''test'', ''stop'', job]" using assms(2) by (simp add: plain_segment_def)
  with run assms(8) have "hc_build H (get_message (address uri [''test'', ''stop'', job] [])) = Inr ()"
    "hc_send H (get_message (address uri [''test'', ''stop'', job] []))
      = Inr (body_text (MessageBody (Answer (fst (stop_job job (nw_jobs w))))))"
    unfolding node_replies_def by simp_all
  moreover have "address uri [''test'', ''stop'', job] [] = uri @ ''/test/stop'' @ ''/'' @ job" by (simp add: address_def)
  ultimately show "cluster_stop X H C job jobs = (Inr (fst (stop_job job (nw_jobs w))), jobs)"
    using assms(5-7,9) by (simp add: cluster_stop_def forward_stop_request_to_primary_def primary_uri_def vec_get_def
        forward_other_requests_to_primary_def Let_def)
qed

theorem stop_through_any_node_witness:
  "cluster_stop node_texts node_client (forward_view False) ''demo'' [] = (Inr [(''demo'', ''Job stopped'')], [])"
proof -
  have "fst (stop_job ''demo'' [(''demo'', InProgress)]) = [(''demo'', ''Job stopped'')]" by code_simp
  then show ?thesis
    using stop_through_any_node [OF node_warp_ok _ _ _ _ _ _ node_client_replies, where job = "''demo''" and P = node_demo
        and C = "forward_view False" and w = node_state and u = "[]" and X = node_texts and jobs = "[]"]
    by (simp add: node_view plain_segment_def node_texts_def)
qed

definition query_params :: "job_status_query_params \<Rightarrow> (string \<times> string) list" where
  "query_params query =
     (case query of JobId job \<Rightarrow> [(''job_id'', job)]
      | PagerOptions offset limit \<Rightarrow> [(''offset'', show_nat offset), (''limit'', show_nat limit)])"

definition query_ok :: "job_status_query_params \<Rightarrow> bool" where
  "query_ok query \<longleftrightarrow> (case query of JobId _ \<Rightarrow> True | PagerOptions offset limit \<Rightarrow> offset < 2 ^ 64 \<and> 0 < limit \<and> limit < 2 ^ 64)"

lemma query_params_read: "query_ok query \<Longrightarrow> job_status_query_params_try_from (query_params query) = Inr query"
  by (cases query) (auto simp: query_ok_def query_params_def job_status_query_params_try_from_def Let_def or_default_def)



text \<open>A job whose id contains a slash cannot be stopped through the interface: no route accepts the address.\<close>
theorem slash_in_id_not_stoppable:
  assumes "warp_ok W"
  shows "first_route (get_routes_with_cluster W) (get_request (''test'' # ''stop'' # a # b # rest) query) = None"
proof -
  have "r q = None" if "r \<in> set (get_routes_with_cluster W)" "q = get_request (''test'' # ''stop'' # a # b # rest) query" for r q
  proof (rule ccontr)
    assume "r q \<noteq> None"
    moreover have "route_tag (hi_path q) = 3" using that(2) by (simp add: get_request_def route_tag_def)
    ultimately have "r = stop_req W"
      using that(1) routes_are_tagged(2) [OF assms, of q] by (auto simp: tagged_routes_def get_routes_with_cluster_def)
    then show False
      using that(2) \<open>r q \<noteq> None\<close>
      by (auto simp: stop_req_def get_request_def filter_simps path_lit_Some [OF assms])
  qed
  then show ?thesis unfolding first_route_None by blast
qed

end
