(* ===== verification/Startup.thy ===== *)
theory Startup
  imports Routes
begin

text \<open>
  Starting a node: \<open>main\<close> (\<open>overload/src/main.rs\<close>) and the listener for connections from primaries
  (\<open>primary_listener\<close> in \<open>cluster-executor/src/secondary.rs\<close>).

  \<open>main\<close> is the list of the tasks it starts, in order; the listener is the list of the connections it hands to
  \<open>handle_connection_from_primary\<close> (\<open>Secondary\<close>). Parameters: the environment variables, the Kubernetes client, the sockets and the
  handshake of the channel library. \<open>None\<close> is a panic of the task.
\<close>

section \<open>Tasks of a node\<close>

datatype startup_task =
    StartCluster string string cluster_config
  | ExecutorInit
  | PrimaryListener u16
  | ServeRoutes nat

definition cluster_service :: "(string \<Rightarrow> string option) \<Rightarrow> string \<times> string" where
  "cluster_service env_vars =
     (or_default ''overload'' (env_vars ''K8S_ENDPOINT_NAME''), or_default ''default'' (env_vars ''K8S_NAMESPACE_NAME''))"

definition main_tasks ::
  "bool \<Rightarrow> (string \<Rightarrow> string option) \<Rightarrow> (string \<Rightarrow> string \<Rightarrow> bool) \<Rightarrow> cluster_config \<Rightarrow> startup_task list" where
  "main_tasks cluster_feature env_vars k8s default_config =
     (let (service, namespace) = cluster_service env_vars
      in if cluster_feature \<and> k8s service namespace
         then [StartCluster service namespace (cluster_config_from env_vars default_config)] else [])
     @ [ExecutorInit, PrimaryListener (remoc_port (env_vars ''CLUSTER_COM_PORT'')), ServeRoutes 3030]"

section \<open>Connections from primaries\<close>

text \<open>An accepted socket gives a connection, \<open>Inr (Inr rx)\<close>, or its handshake fails; accepting itself can fail, \<open>Inl\<close>. A list that is used
  up means that the listener waits.\<close>

fun listener_loop :: "(string + (string + 'rx)) list \<Rightarrow> 'rx list option" where
  "listener_loop [] = Some []"
| "listener_loop (Inl e # accepts) = None"
| "listener_loop (Inr (Inr rx) # accepts) = map_option ((#) rx) (listener_loop accepts)"
| "listener_loop (Inr (Inl e) # accepts) = listener_loop accepts"

definition primary_listener :: "(u16 \<Rightarrow> bool) \<Rightarrow> u16 \<Rightarrow> (string + (string + 'rx)) list \<Rightarrow> 'rx list option" where
  "primary_listener bind_port port accepts = (if \<not> bind_port port then None else listener_loop accepts)"

text \<open>The listener survives failed handshakes, which lose only their own connection, but not a failed accept.\<close>
theorem listener_serves_all:
  "primary_listener bind_port port accepts
     = (if bind_port port \<and> (\<forall>a \<in> set accepts. \<not> isl a)
        then Some (map projr (filter (\<lambda>c. \<not> isl c) (map projr accepts))) else None)"
proof -
  have "listener_loop accepts = (if \<forall>a \<in> set accepts. \<not> isl a then Some (map projr (filter (\<lambda>c. \<not> isl c) (map projr accepts))) else None)"
    by (induction accepts rule: listener_loop.induct) auto
  then show ?thesis by (simp add: primary_listener_def)
qed

end
