(* ===== verification/Lua_Path.thy ===== *)
theory Lua_Path
  imports Lua_Helper Json_Value "HOL-Library.Monad_Syntax"
begin

text \<open>
  The Lua helpers the assertion scripts can call: looking up a value in a table by a path
  (\<open>lua-helper/src/table-path.lua\<close>), and the setup of the interpreter (\<open>init_lua\<close> in
  \<open>lua-helper/src/lib.rs\<close>) that makes them global.

  An error of a script is the left side of a sum; a table is the list of its entries, none of which is \<open>nil\<close>. A
  number of Lua 5.3 is a 64-bit integer or a float. Parameters of \<open>lua_std\<close>: reading a float (\<open>strtod\<close>) and printing a number
  with 14 digits, both of the C library, the length operator on a table, and what indexing a string
  gives (a function of the string library or \<open>nil\<close>). The texts that are printed are left out.
\<close>

section \<open>Values\<close>

datatype lua_number = LInt int | LFlt f64 | LNonFinite string

datatype lua_key = KStr string | KInt int | KFlt f64

datatype lua_data = LNil | LBool bool | LNum lua_number | LStr string | LTable "(lua_key \<times> lua_data) list" | LFun string

record lua_std =
  std_str2d :: "string \<Rightarrow> lua_number option"
  std_g14 :: "lua_number \<Rightarrow> string"
  std_length :: "nat \<Rightarrow> nat"
  std_string_member :: "lua_key \<Rightarrow> lua_data"

text \<open>A number as a key: a float with an integral value is that integer; what is not finite is not a key of any table here.\<close>

fun number_key :: "lua_number \<Rightarrow> lua_key option" where
  "number_key (LInt i) = Some (KInt i)"
| "number_key (LFlt (m, e)) = Some (
     let d = 2 ^ nat (- e); i = m * 2 ^ nat e div d
     in if m mod d = 0 \<and> in_i64 i then KInt i else KFlt (m, e))"
| "number_key (LNonFinite t) = None"

section \<open>Reading numbers\<close>

text \<open>\<open>tonumber\<close>: a text between spaces is read as an integer, decimal and in the range of 64 bits or hexadecimal
  and wrapped to them, and otherwise as a float.\<close>

definition wrap_i64 :: "int \<Rightarrow> int" where
  "wrap_i64 i = (i + 2 ^ 63) mod 2 ^ 64 - 2 ^ 63"

definition lua_space :: "char \<Rightarrow> bool" where
  "lua_space c \<longleftrightarrow> c \<in> set [CHR '' '', CHR 0x09, CHR 0x0A, CHR 0x0B, CHR 0x0C, CHR 0x0D]"

definition lua_trim :: "string \<Rightarrow> string" where
  "lua_trim s = rev (dropWhile lua_space (rev (dropWhile lua_space s)))"

definition hex_value :: "char \<Rightarrow> nat option" where
  "hex_value c =
     (let n = of_char c
      in if 48 \<le> n \<and> n \<le> (57 :: nat) then Some (n - 48)
         else if 97 \<le> n \<and> n \<le> 102 then Some (n - 87)
         else if 65 \<le> n \<and> n \<le> 70 then Some (n - 55) else None)"

fun parse_hex :: "nat \<Rightarrow> string \<Rightarrow> nat option" where
  "parse_hex acc [] = Some acc"
| "parse_hex acc (c # cs) = (case hex_value c of None \<Rightarrow> None | Some d \<Rightarrow> parse_hex (16 * acc + d) cs)"

definition split_sign :: "string \<Rightarrow> bool \<times> string" where
  "split_sign s = (if s \<noteq> [] \<and> hd s = CHR ''-'' then (True, tl s) else if s \<noteq> [] \<and> hd s = CHR ''+'' then (False, tl s) else (False, s))"

definition str2int :: "string \<Rightarrow> int option" where
  "str2int s =
     (let (neg, ds) = split_sign (lua_trim s)
      in if take 2 ds \<in> set [''0x'', ''0X'']
         then (if drop 2 ds = [] then None
               else map_option (\<lambda>n. wrap_i64 (if neg then - int n else int n)) (parse_hex 0 (drop 2 ds)))
         else parse_i64 (lua_trim s))"

definition tonumber :: "lua_std \<Rightarrow> string \<Rightarrow> lua_number option" where
  "tonumber L s = (case str2int s of Some i \<Rightarrow> Some (LInt i) | None \<Rightarrow> std_str2d L s)"

section \<open>Indexing\<close>

fun lua_index :: "lua_std \<Rightarrow> lua_data \<Rightarrow> lua_key \<Rightarrow> string + lua_data" where
  "lua_index L (LTable es) k = Inr (case map_of es k of None \<Rightarrow> LNil | Some v \<Rightarrow> v)"
| "lua_index L (LStr s) k = Inr (std_string_member L k)"
| "lua_index L LNil k = Inl ''attempt to index a nil value''"
| "lua_index L (LBool b) k = Inl ''attempt to index a boolean value''"
| "lua_index L (LNum n) k = Inl ''attempt to index a number value''"
| "lua_index L (LFun f) k = Inl ''attempt to index a function value''"

section \<open>Splitting a path\<close>

text \<open>\<open>string.sub\<close> for positions from 1, and \<open>string.find\<close> without patterns.\<close>

definition string_sub :: "string \<Rightarrow> nat \<Rightarrow> nat \<Rightarrow> string" where
  "string_sub str i j = take (j + 1 - i) (drop (i - 1) str)"

definition string_find :: "string \<Rightarrow> string \<Rightarrow> nat \<Rightarrow> (nat \<times> nat) option" where
  "string_find str sep start =
     map_option (\<lambda>k. (k, k + length sep - 1))
       (find (\<lambda>k. take (length sep) (drop (k - 1) str) = sep) [start..<length str + 1])"

definition string_totable :: "string \<Rightarrow> string list" where
  "string_totable str = map (\<lambda>i. string_sub str i i) [1..<length str + 1]"

text \<open>The loop of \<open>string_split\<close> with \<open>n\<close> rounds left.\<close>

fun split_rounds :: "string \<Rightarrow> string \<Rightarrow> nat \<Rightarrow> nat \<Rightarrow> string list \<Rightarrow> string list \<times> nat" where
  "split_rounds str sep 0 current_pos ret = (ret, current_pos)"
| "split_rounds str sep (Suc n) current_pos ret =
     (case string_find str sep current_pos of
        None \<Rightarrow> (ret, current_pos)
      | Some (start_pos, end_pos) \<Rightarrow>
          split_rounds str sep n (end_pos + 1) (ret @ [string_sub str current_pos (start_pos - 1)]))"

definition string_split :: "string \<Rightarrow> string \<Rightarrow> string list" where
  "string_split str separator =
     (if separator = [] then string_totable str
      else let (ret, current_pos) = split_rounds str separator (length str) 1 []
        in ret @ [string_sub str current_pos (length str)])"

section \<open>Looking up a path\<close>

text \<open>A part of the path is tried as a string and then as a number.\<close>

definition path_member :: "lua_std \<Rightarrow> lua_data \<Rightarrow> string \<Rightarrow> string + lua_data" where
  "path_member L cur part =
     and_then (lua_index L cur (KStr part)) (\<lambda>v.
       if v = LNil then (case Option.bind (tonumber L part) number_key of None \<Rightarrow> Inr LNil | Some k \<Rightarrow> lua_index L cur k) else Inr v)"

fun path_walk :: "lua_std \<Rightarrow> string list \<Rightarrow> lua_data \<Rightarrow> string + lua_data" where
  "path_walk L [] cur = Inr cur"
| "path_walk L (part # parts) cur =
     and_then (path_member L cur part) (\<lambda>v. if v = LNil then Inr LNil else if parts = [] then Inr v else path_walk L parts v)"

definition getValueByPath :: "lua_std \<Rightarrow> lua_data \<Rightarrow> string \<Rightarrow> string + lua_data" where
  "getValueByPath L tbl path = path_walk L (tl (string_split path ''/'')) tbl"

section \<open>Setting up the interpreter\<close>

text \<open>Evaluating a chunk and setting a global; a failure of either is a panic, \<open>None\<close>.\<close>

record ('s, 'v) lua_setup =
  ls_new :: 's
  ls_eval_table :: "string \<Rightarrow> 's \<Rightarrow> ('v \<times> 's) option"
  ls_eval_function :: "string \<Rightarrow> 's \<Rightarrow> ('v \<times> 's) option"
  ls_set_global :: "string \<Rightarrow> 'v \<Rightarrow> 's \<Rightarrow> 's option"

definition init_lua :: "('s, 'v) lua_setup \<Rightarrow> string \<Rightarrow> string \<Rightarrow> string \<Rightarrow> 's option" where
  "init_lua I json_lua table_path_lua dump_lua =
     do { let lua = ls_new I;
          (json, lua) \<leftarrow> ls_eval_table I json_lua lua;
          lua \<leftarrow> ls_set_global I ''json'' json lua;
          (table_path, lua) \<leftarrow> ls_eval_function I table_path_lua lua;
          lua \<leftarrow> ls_set_global I ''getValueByPath'' table_path lua;
          (func, lua) \<leftarrow> ls_eval_function I dump_lua lua;
          ls_set_global I ''dump'' func lua }"

section \<open>The split is the usual one\<close>

lemma find_append_None: "find P xs = None \<Longrightarrow> find P (xs @ ys) = find P ys"
  by (induction xs) (auto split: if_splits)

lemma take_one_drop: "take 1 (drop k s) = [c] \<longleftrightarrow> k < length s \<and> s ! k = c"
  by (cases "k < length s") (auto simp: take_Suc hd_drop_conv_nth)

lemma string_find_char:
  "string_find str [c] start =
     map_option (\<lambda>k. (k, k)) (find (\<lambda>k. k - 1 < length str \<and> str ! (k - 1) = c) [start..<length str + 1])"
  using take_one_drop [of _ str c] by (simp add: string_find_def)

lemma upt_split_at: "a \<le> b \<Longrightarrow> b < c \<Longrightarrow> [a..<c] = [a..<b] @ b # [b + 1..<c]"
  using upt_add_eq_append [of a b "c - b"] upt_conv_Cons [of b c] by simp

lemma find_sep:
  assumes "c \<notin> set t" "str = xs @ t @ c # rest"
  shows "string_find str [c] (length xs + 1) = Some (length xs + length t + 1, length xs + length t + 1)"
proof -
  let ?n = "length xs + length t + 1"
  let ?P = "\<lambda>k. k - 1 < length str \<and> str ! (k - 1) = c"
  have split: "[length xs + 1..<length str + 1] = [length xs + 1..<?n] @ ?n # [?n + 1..<length str + 1]"
    by (rule upt_split_at) (use assms(2) in auto)
  have "\<not> ?P k" if "k \<in> set [length xs + 1..<?n]" for k
  proof -
    define i where "i = k - length xs - 1"
    have "k = length xs + i + 1" "i < length t" using that assms(2) by (auto simp: i_def)
    then show ?thesis using assms nth_mem [of i t] by (auto simp: nth_append)
  qed
  then have "find ?P [length xs + 1..<?n] = None" unfolding find_None_iff by blast
  moreover have "?P ?n" using assms(2) by (simp add: nth_append)
  ultimately show ?thesis unfolding string_find_char split by (simp add: find_append_None)
qed

lemma find_no_sep:
  assumes "c \<notin> set t" "str = xs @ t"
  shows "string_find str [c] (length xs + 1) = None"
proof -
  have "\<not> (k - 1 < length str \<and> str ! (k - 1) = c)" if "k \<in> set [length xs + 1..<length str + 1]" for k
  proof -
    define i where "i = k - length xs - 1"
    have "k = length xs + i + 1" "i < length t" using that assms(2) by (auto simp: i_def)
    then show ?thesis using assms nth_mem [of i t] by (auto simp: nth_append)
  qed
  then have "find (\<lambda>k. k - 1 < length str \<and> str ! (k - 1) = c) [length xs + 1..<length str + 1] = None"
    unfolding find_None_iff by blast
  then show ?thesis unfolding string_find_char by simp
qed

lemma split_rounds_split_on:
  assumes "length rest \<le> n"
  shows "(let (ret', pos) = split_rounds (xs @ rest) [c] n (length xs + 1) ret in ret' @ [string_sub (xs @ rest) pos (length (xs @ rest))])
    = ret @ split_on c rest"
  using assms
proof (induction n arbitrary: xs rest ret)
  case (Suc n)
  show ?case
  proof (cases "c \<in> set rest")
    case True
    then obtain t rest' where r: "rest = t @ c # rest'" "c \<notin> set t" by (meson split_list_first)
    have "string_sub (xs @ rest) (length xs + 1) (length xs + length t) = t" by (simp add: string_sub_def r)
    then show ?thesis
      using Suc.IH [of rest' "xs @ t @ [c]" "ret @ [t]"] Suc.prems find_sep [OF r(2), of _ xs rest'] r
      by (simp add: split_on_append)
  next
    case False
    then show ?thesis using find_no_sep [of c rest _ xs] by (simp add: string_sub_def split_on_none)
  qed
qed (simp add: string_sub_def)

lemma string_split_eq: "string_split str [c] = split_on c str"
  using split_rounds_split_on [of str "length str" "[]" c "[]"] by (simp add: string_split_def)

section \<open>A printed integer is read back\<close>

lemma show_nat_digit: "c \<in> set (show_nat n) \<Longrightarrow> \<exists>d < 10. c = digit_char d"
proof (induction n rule: show_nat.induct)
  case (1 n)
  have "\<exists>d < 10. digit_char (n mod 10) = digit_char d" by (intro exI [of _ "n mod 10"]) simp
  moreover have "set (show_nat n) \<subseteq> insert (digit_char (n mod 10)) (if n < 10 then {} else set (show_nat (n div 10)))"
    by (subst show_nat.simps) auto
  ultimately show ?case using 1 by (auto split: if_splits)
qed

lemma digit_char_cases:
  assumes "d < 10"
  shows "digit_char d \<in> set ''0123456789''"
proof -
  have "list_all (\<lambda>d. digit_char d \<in> set ''0123456789'') [0..<10]" by code_simp
  moreover have "d \<in> set [0..<10]" using assms by simp
  ultimately show ?thesis unfolding list_all_iff by (rule bspec)
qed

lemma show_nat_chars: "set (show_nat n) \<subseteq> set ''0123456789''"
proof (rule subsetI)
  fix c
  assume "c \<in> set (show_nat n)"
  then obtain d where "d < 10" "c = digit_char d" using show_nat_digit by blast
  then show "c \<in> set ''0123456789''" by (simp only: digit_char_cases)
qed

lemma show_int_chars: "set (show_int i) \<subseteq> set ''-0123456789''"
proof -
  have "set (show_int i) \<subseteq> insert (CHR ''-'') D" if "\<And>n. set (show_nat n) \<subseteq> D" for D
    using that by (auto simp: show_int_def)
  from this [OF show_nat_chars] show ?thesis by (simp only: list.set)
qed

lemma show_int_ne [simp]: "show_int i \<noteq> []"
  by (simp add: show_int_def)

lemma lua_trim_id:
  assumes "list_all (\<lambda>c. \<not> lua_space c) s"
  shows "lua_trim s = s"
proof -
  have d: "dropWhile lua_space xs = xs" if "list_all (\<lambda>c. \<not> lua_space c) xs" for xs using that by (cases xs) simp_all
  show ?thesis using d [OF assms] d [of "rev s"] assms by (simp add: lua_trim_def list_all_iff)
qed

lemma lua_trim_show_int [simp]: "lua_trim (show_int i) = show_int i"
  using show_int_chars [of i] by (intro lua_trim_id) (auto simp: list_all_iff lua_space_def)

lemma parse_i64_show_int:
  assumes "in_i64 i"
  shows "parse_i64 (show_int i) = Some i"
proof (cases "show_nat (nat i)")
  case (Cons c cs)
  then have "c \<noteq> CHR ''+'' \<and> c \<noteq> CHR ''-''" by (rule show_nat_not_sign)
  with Cons assms parse_digits_show_nat [of "nat i"] parse_digits_show_nat [of "nat (- i)"] show ?thesis
    by (auto simp: parse_i64_def show_int_def)
qed simp

lemma tonumber_show_int:
  assumes "in_i64 i"
  shows "tonumber L (show_int i) = Some (LInt i)"
proof -
  let ?ds = "snd (split_sign (show_int i))"
  have "set ?ds \<subseteq> set (show_int i)"
    by (auto simp: split_sign_def dest: list.set_sel(2) [rotated])
  then have "set (take 2 ?ds) \<subseteq> set ''-0123456789''"
    using show_int_chars [of i] set_take_subset [of 2 ?ds] by (meson order_trans)
  then have "take 2 ?ds \<noteq> ''0x''" "take 2 ?ds \<noteq> ''0X''" by auto
  then have "take 2 ?ds \<notin> set [''0x'', ''0X'']" by simp
  then have "str2int (show_int i) = Some i"
    using parse_i64_show_int [OF assms] by (simp add: str2int_def case_prod_unfold)
  then show ?thesis by (simp add: tonumber_def)
qed

section \<open>What a path denotes\<close>

text \<open>A path that is written as a list of keys, each behind a slash, leads through the tables along these keys.\<close>

fun follow :: "lua_key list \<Rightarrow> lua_data \<Rightarrow> lua_data option" where
  "follow [] v = Some v"
| "follow (k # ks) (LTable es) = Option.bind (map_of es k) (follow ks)"
| "follow (k # ks) _ = None"

definition key_text :: "lua_key \<Rightarrow> string" where
  "key_text k = (case k of KStr s \<Rightarrow> s | KInt i \<Rightarrow> show_int i | KFlt x \<Rightarrow> [])"

definition path_text :: "lua_key list \<Rightarrow> string" where
  "path_text ks = concat (map (\<lambda>k. CHR ''/'' # key_text k) ks)"

lemma split_path_text:
  "(\<forall>k \<in> set ks. CHR ''/'' \<notin> set (key_text k)) \<Longrightarrow> split_on CHR ''/'' (path_text ks) = [] # map key_text ks"
proof (induction ks)
  case (Cons k ks)
  then have "split_on CHR ''/'' (path_text ks) = [] # map key_text ks" "CHR ''/'' \<notin> set (key_text k)" by auto
  then have "split_on CHR ''/'' (key_text k @ path_text ks) = key_text k # map key_text ks"
    by (cases ks) (auto simp: path_text_def split_on_none split_on_append split: list.splits if_splits)
  then show ?case by (simp add: path_text_def)
qed (simp add: path_text_def)

text \<open>The keys as the lookup tries them: a key that is a number is found if the table has no such string.\<close>

fun plain_keys :: "lua_std \<Rightarrow> lua_key list \<Rightarrow> lua_data \<Rightarrow> bool" where
  "plain_keys L [] v \<longleftrightarrow> True"
| "plain_keys L (k # ks) (LTable es) \<longleftrightarrow>
     (case k of KStr s \<Rightarrow> True
      | KInt i \<Rightarrow> map_of es (KStr (show_int i)) = None \<and> in_i64 i
      | KFlt x \<Rightarrow> False)
     \<and> (case map_of es k of Some v \<Rightarrow> v \<noteq> LNil \<and> plain_keys L ks v | None \<Rightarrow> False)"
| "plain_keys L (k # ks) _ \<longleftrightarrow> False"

lemma path_walk_follow:
  "plain_keys L ks v \<Longrightarrow> path_walk L (map key_text ks) v = Inr (case follow ks v of None \<Rightarrow> LNil | Some w \<Rightarrow> w)"
proof (induction ks arbitrary: v)
  case (Cons k ks)
  then obtain es w where v: "v = LTable es" "map_of es k = Some w" "w \<noteq> LNil" "plain_keys L ks w"
    by (cases v) (auto split: option.splits)
  then have "path_member L v (key_text k) = Inr w"
    using Cons.prems by (auto simp: path_member_def key_text_def tonumber_show_int split: lua_key.splits)
  with v Cons.IH [OF v(4)] show ?case by auto
qed simp

theorem get_value_by_path_follows:
  assumes "plain_keys L ks tbl" "\<forall>k \<in> set ks. CHR ''/'' \<notin> set (key_text k)"
  shows "getValueByPath L tbl (path_text ks) = Inr (case follow ks tbl of None \<Rightarrow> LNil | Some v \<Rightarrow> v)"
  using assms by (simp add: getValueByPath_def string_split_eq split_path_text path_walk_follow)

text \<open>A path that does not begin with a slash loses its first part.\<close>
theorem get_value_by_path_drops_first:
  "CHR ''/'' \<notin> set p \<Longrightarrow> getValueByPath L tbl (p @ CHR ''/'' # rest) = getValueByPath L tbl (CHR ''/'' # rest)"
  using split_on_append [of "CHR ''/''" p rest] split_on_append [of "CHR ''/''" "[]" rest]
  by (simp add: getValueByPath_def string_split_eq)

end
