(* ===== verification/Lua_Json.thy ===== *)
theory Lua_Json
  imports Lua_Path
begin

text \<open>
  The JSON library the assertion scripts use (\<open>lua-helper/src/json.lua\<close>) and the printing of a value
  (\<open>lua-helper/src/utils/dump.lua\<close>).

  What is written is a value with references to tables in a heap, since \<open>encode\<close> refuses circular references
  by the identity of tables and \<open>dump\<close> does not end on them. The tables that \<open>decode\<close> makes are new and not shared, so that its
  result is a tree. The position that \<open>error\<close> puts in front of a message is left out.
\<close>

section \<open>The heap of tables\<close>

datatype lua_val = VNil | VBool bool | VNum lua_number | VStr string | VRef nat | VFun string

type_synonym lua_entries = "(lua_key \<times> lua_val) list"
type_synonym lua_heap = "(nat \<times> lua_entries) list"

definition table_at :: "lua_heap \<Rightarrow> nat \<Rightarrow> lua_entries" where
  "table_at H a = (case map_of H a of None \<Rightarrow> [] | Some es \<Rightarrow> es)"

text \<open>The values \<open>ipairs\<close> goes through: those at 1, 2, and so on up to the first that is missing.\<close>

definition ipairs_values :: "(lua_key \<times> 'v) list \<Rightarrow> 'v list" where
  "ipairs_values val =
     map the (takeWhile (\<lambda>v. v \<noteq> None) (map (\<lambda>i. map_of val (KInt (int i))) [1..<length val + 1]))"

fun is_number_key :: "lua_key \<Rightarrow> bool" where
  "is_number_key (KStr s) \<longleftrightarrow> False"
| "is_number_key _ \<longleftrightarrow> True"

section \<open>Encoding\<close>

definition quoted :: "string \<Rightarrow> string" where
  "quoted s = CHR 0x27 # s @ [CHR 0x27]"

definition escape_pairs :: "(char \<times> char) list" where
  "escape_pairs = [(CHR 0x5C, CHR 0x5C), (CHR 0x22, CHR 0x22), (CHR 0x08, CHR ''b''), (CHR 0x0C, CHR ''f''),
     (CHR 0x0A, CHR ''n''), (CHR 0x0D, CHR ''r''), (CHR 0x09, CHR ''t'')]"

definition escape_char_map :: "char \<Rightarrow> char option" where
  "escape_char_map = map_of escape_pairs"

definition escape_char_map_inv :: "char \<Rightarrow> char option" where
  "escape_char_map_inv = map_of ((CHR ''/'', CHR ''/'') # map (\<lambda>(k, v). (v, k)) escape_pairs)"

text \<open>\<open>string.format("u%04x", b)\<close> for a byte.\<close>

definition hex_digit :: "nat \<Rightarrow> char" where
  "hex_digit d = (if d < 10 then char_of (48 + d) else char_of (87 + d))"

definition format_u04x :: "nat \<Rightarrow> string" where
  "format_u04x b = ''u00'' @ [hex_digit (b div 16), hex_digit (b mod 16)]"

definition escape_char :: "char \<Rightarrow> string" where
  "escape_char c = CHR 0x5C # (case escape_char_map c of Some e \<Rightarrow> [e] | None \<Rightarrow> format_u04x (of_char c))"

definition gsub_escape :: "string \<Rightarrow> string" where
  "gsub_escape val =
     concat (map (\<lambda>c. if of_char c < (32 :: nat) \<or> c = CHR 0x5C \<or> c = CHR 0x22 then escape_char c else [c]) val)"

definition encode_string :: "string \<Rightarrow> string" where
  "encode_string val = [CHR 0x22] @ gsub_escape val @ [CHR 0x22]"

text \<open>\<open>string.format("%.14g", n)\<close>: an integer of at most 14 digits is printed as it is.\<close>

fun format_g14 :: "lua_std \<Rightarrow> lua_number \<Rightarrow> string" where
  "format_g14 L (LInt i) = (if \<bar>i\<bar> < 10 ^ 14 then show_int i else std_g14 L (LInt i))"
| "format_g14 L n = std_g14 L n"

fun encode_number :: "lua_std \<Rightarrow> lua_number \<Rightarrow> string + string" where
  "encode_number L (LNonFinite t) = Inl (''unexpected number value '' @ quoted t)"
| "encode_number L n = Inr (format_g14 L n)"

fun table_concat :: "string list \<Rightarrow> string" where
  "table_concat [] = []"
| "table_concat [s] = s"
| "table_concat (s # ss) = s @ '','' @ table_concat ss"

function encode :: "lua_std \<Rightarrow> lua_heap \<Rightarrow> nat list \<Rightarrow> lua_val \<Rightarrow> string + string"
  and encode_table :: "lua_std \<Rightarrow> lua_heap \<Rightarrow> nat list \<Rightarrow> nat \<Rightarrow> string + string"
  and encode_items :: "lua_std \<Rightarrow> lua_heap \<Rightarrow> nat list \<Rightarrow> lua_val list \<Rightarrow> string + string list"
  and encode_entries :: "lua_std \<Rightarrow> lua_heap \<Rightarrow> nat list \<Rightarrow> lua_entries \<Rightarrow> string + string list" where
  "encode L H stack val =
     (case val of
        VNil \<Rightarrow> Inr ''null''
      | VBool b \<Rightarrow> Inr (if b then ''true'' else ''false'')
      | VNum n \<Rightarrow> encode_number L n
      | VStr s \<Rightarrow> Inr (encode_string s)
      | VRef a \<Rightarrow> encode_table L H stack a
      | VFun f \<Rightarrow> Inl (''unexpected type '' @ quoted ''function''))"
| "encode_table L H stack a =
     (let val = table_at H a
      in if a \<in> set stack then Inl ''circular reference''
         else if map_of val (KInt 1) \<noteq> None \<or> val = [] then
           (if list_ex (\<lambda>(k, _). \<not> is_number_key k) val then Inl ''invalid table: mixed or invalid key types''
            else if length val \<noteq> std_length L a then Inl ''invalid table: sparse array''
            else and_then (encode_items L H (a # stack) (ipairs_values val)) (\<lambda>res. Inr (''['' @ table_concat res @ '']'')))
         else and_then (encode_entries L H (a # stack) val) (\<lambda>res. Inr (''{'' @ table_concat res @ ''}'')))"
| "encode_items L H stack [] = Inr []"
| "encode_items L H stack (v # vs) =
     and_then (encode L H stack v) (\<lambda>s. and_then (encode_items L H stack vs) (\<lambda>ss. Inr (s # ss)))"
| "encode_entries L H stack [] = Inr []"
| "encode_entries L H stack ((k, v) # es) =
     (case k of
        KStr s \<Rightarrow> and_then (encode L H stack v) (\<lambda>t.
          and_then (encode_entries L H stack es) (\<lambda>ss. Inr ((encode_string s @ '':'' @ t) # ss)))
      | _ \<Rightarrow> Inl ''invalid table: mixed or invalid key types'')"
  by pat_completeness auto

text \<open>A table is visited only if it is not on the stack, and then it is put there.\<close>

lemma free_tables_less:
  assumes "a \<notin> set stack" "map_of H a = Some es"
  shows "card (fst ` set H - set (a # stack)) < card (fst ` set H - set stack)"
proof -
  have "a \<in> fst ` set H" using assms(2) by (metis domI dom_map_of_conv_image_fst)
  with assms(1) show ?thesis by (intro psubset_card_mono) auto
qed

lemma free_tables_le: "card (fst ` set H - set (a # stack)) \<le> card (fst ` set H - set stack)"
  by (intro card_mono) auto

lemma ipairs_values_Nil [simp]: "ipairs_values [] = []"
  by (simp add: ipairs_values_def)

definition encode_rank :: "(lua_std \<times> lua_heap \<times> nat list \<times> lua_val + lua_std \<times> lua_heap \<times> nat list \<times> nat)
    + (lua_std \<times> lua_heap \<times> nat list \<times> lua_val list + lua_std \<times> lua_heap \<times> nat list \<times> lua_entries) \<Rightarrow> nat \<times> nat" where
  "encode_rank x =
     (case x of
        Inl (Inl (L, H, stack, v)) \<Rightarrow> (card (fst ` set H - set stack), 2)
      | Inl (Inr (L, H, stack, a)) \<Rightarrow> (card (fst ` set H - set stack), 1)
      | Inr (Inl (L, H, stack, vs)) \<Rightarrow> (card (fst ` set H - set stack), 3 * length vs)
      | Inr (Inr (L, H, stack, es)) \<Rightarrow> (card (fst ` set H - set stack), 3 * length es))"

termination encode
proof (relation "inv_image (less_than <*lex*> less_than) encode_rank", goal_cases)
  case 1
  show ?case by (intro wf_inv_image wf_lex_prod wf_less_than)
next
  case (3 L H stack a val)
  then show ?case using free_tables_less [of a stack H] free_tables_le [of H a stack]
    by (cases "map_of H a") (auto simp: encode_rank_def table_at_def)
next
  case (4 L H stack a val)
  then show ?case using free_tables_less [of a stack H] free_tables_le [of H a stack]
    by (cases "map_of H a") (auto simp: encode_rank_def table_at_def)
qed (auto simp: encode_rank_def)

definition json_encode :: "lua_std \<Rightarrow> lua_heap \<Rightarrow> lua_val \<Rightarrow> string + string" where
  "json_encode L H val = encode L H [] val"

section \<open>Decoding\<close>

definition str_at :: "string \<Rightarrow> nat \<Rightarrow> string" where
  "str_at str i = string_sub str i i"

definition space_chars :: "string list" where
  "space_chars = ['' '', [CHR 0x09], [CHR 0x0D], [CHR 0x0A]]"

definition delim_chars :: "string list" where
  "delim_chars = ['' '', [CHR 0x09], [CHR 0x0D], [CHR 0x0A], '']'', ''}'', '','']"

definition escape_chars :: "string list" where
  "escape_chars = [[CHR 0x5C], ''/'', [CHR 0x22], ''b'', ''f'', ''n'', ''r'', ''t'', ''u'']"

definition literal_map :: "(string \<times> lua_data) list" where
  "literal_map = [(''true'', LBool True), (''false'', LBool False), (''null'', LNil)]"

definition next_char :: "string \<Rightarrow> nat \<Rightarrow> string list \<Rightarrow> bool \<Rightarrow> nat" where
  "next_char str idx cs negate =
     (case find (\<lambda>i. (str_at str i \<in> set cs) \<noteq> negate) [idx..<length str + 1] of
        Some i \<Rightarrow> i | None \<Rightarrow> length str + 1)"

definition decode_error :: "string \<Rightarrow> nat \<Rightarrow> string \<Rightarrow> string" where
  "decode_error str idx msg =
     (let (line_count, col_count) =
        fold (\<lambda>i (line_count, col_count). if str_at str i = [CHR 0x0A] then (line_count + 1, 1) else (line_count, col_count + 1))
          [1..<idx] (1, 1)
      in msg @ '' at line '' @ show_nat line_count @ '' col '' @ show_nat col_count)"

fun show_hex :: "nat \<Rightarrow> string" where
  "show_hex n = (if n < 16 then [hex_digit n] else show_hex (n div 16) @ [hex_digit (n mod 16)])"

declare show_hex.simps [simp del]

definition codepoint_to_utf8 :: "nat \<Rightarrow> string + string" where
  "codepoint_to_utf8 n =
     (if n \<le> 0x7f then Inr [char_of n]
      else if n \<le> 0x7ff then Inr [char_of (n div 64 + 192), char_of (n mod 64 + 128)]
      else if n \<le> 0xffff
      then Inr [char_of (n div 4096 + 224), char_of (n mod 4096 div 64 + 128), char_of (n mod 64 + 128)]
      else if n \<le> 0x10ffff
      then Inr [char_of (n div 262144 + 240), char_of (n mod 262144 div 4096 + 128), char_of (n mod 4096 div 64 + 128),
                char_of (n mod 64 + 128)]
      else Inl (''invalid unicode codepoint '' @ quoted (show_hex n)))"

text \<open>The two patterns of an escape: four hexadecimal digits, and a high surrogate with the escape after it.\<close>

definition match_hex4 :: "string \<Rightarrow> nat \<Rightarrow> string option" where
  "match_hex4 str i =
     (let s = take 4 (drop (i - 1) str)
      in if length s = 4 \<and> list_all (\<lambda>c. hex_value c \<noteq> None) s then Some s else None)"

definition match_surrogates :: "string \<Rightarrow> nat \<Rightarrow> string option" where
  "match_surrogates str i =
     (let s = take 10 (drop (i - 1) str)
      in if length s = 10 \<and> s ! 0 \<in> set ''dD'' \<and> s ! 1 \<in> set ''89aAbB'' \<and> s ! 4 = CHR 0x5C \<and> s ! 5 = CHR ''u''
           \<and> list_all (\<lambda>c. hex_value c \<noteq> None) (take 4 s) \<and> list_all (\<lambda>c. hex_value c \<noteq> None) (drop 6 s)
         then Some s else None)"

text \<open>\<open>tonumber(s, 16)\<close> on hexadecimal digits, \<open>nil\<close> on no digits. The sum is written so that no difference is negative.\<close>

definition tonumber16 :: "string \<Rightarrow> nat option" where
  "tonumber16 s = (if s = [] then None else parse_hex 0 s)"

definition parse_unicode_escape :: "string \<Rightarrow> string + string" where
  "parse_unicode_escape s =
     (case tonumber16 (string_sub s 1 4) of
        None \<Rightarrow> Inl ''attempt to perform arithmetic on a nil value''
      | Some n1 \<Rightarrow>
          (case tonumber16 (string_sub s 7 10) of
             Some n2 \<Rightarrow> codepoint_to_utf8 ((n1 - 0xd800) * 0x400 + (n2 + 0x10000 - 0xdc00))
           | None \<Rightarrow> codepoint_to_utf8 n1))"

function parse_string_loop :: "string \<Rightarrow> nat \<Rightarrow> nat \<Rightarrow> nat \<Rightarrow> string \<Rightarrow> string + string \<times> nat" where
  "parse_string_loop str i j k res =
     (if length str < j then Inl (decode_error str i ''expected closing quote for string'')
      else let x = of_char (str ! (j - 1)) :: nat
        in if x < 32 then Inl (decode_error str j ''control character in string'')
           else if x = 92 then
             (let res = res @ string_sub str k (j - 1); c = str_at str (j + 1)
              in if c = ''u'' then
                   (case (case match_surrogates str (j + 2) of None \<Rightarrow> match_hex4 str (j + 2) | Some hex \<Rightarrow> Some hex) of
                      None \<Rightarrow> Inl (decode_error str j ''invalid unicode escape in string'')
                    | Some hex \<Rightarrow> and_then (parse_unicode_escape hex) (\<lambda>u.
                        parse_string_loop str i (j + length hex + 2) (j + length hex + 2) (res @ u)))
                 else if c \<notin> set escape_chars
                 then Inl (decode_error str j (''invalid escape char '' @ quoted c @ '' in string''))
                 else (case escape_char_map_inv (hd c) of
                         None \<Rightarrow> Inl ''attempt to concatenate a nil value''
                       | Some e \<Rightarrow> parse_string_loop str i (j + 2) (j + 2) (res @ [e])))
           else if x = 34 then Inr (res @ string_sub str k (j - 1), j + 1)
           else parse_string_loop str i (j + 1) k res)"
  by pat_completeness auto

termination by (relation "measure (\<lambda>(str, i, j, k, res). length str + 1 - j)") auto

declare parse_string_loop.simps [simp del]

definition parse_string :: "string \<Rightarrow> nat \<Rightarrow> string + string \<times> nat" where
  "parse_string str i = parse_string_loop str i (i + 1) (i + 1) []"

definition parse_number :: "lua_std \<Rightarrow> string \<Rightarrow> nat \<Rightarrow> string + lua_data \<times> nat" where
  "parse_number L str i =
     (let x = next_char str i delim_chars False; s = string_sub str i (x - 1)
      in case tonumber L s of
           None \<Rightarrow> Inl (decode_error str i (''invalid number '' @ quoted s))
         | Some n \<Rightarrow> Inr (LNum n, x))"

definition parse_literal :: "string \<Rightarrow> nat \<Rightarrow> string + lua_data \<times> nat" where
  "parse_literal str i =
     (let x = next_char str i delim_chars False; word = string_sub str i (x - 1)
      in case map_of literal_map word of
           None \<Rightarrow> Inl (decode_error str i (''invalid literal '' @ quoted word))
         | Some v \<Rightarrow> Inr (v, x))"

text \<open>Assignment to an entry of a table; \<open>nil\<close> removes it.\<close>

definition table_set :: "(lua_key \<times> lua_data) list \<Rightarrow> lua_key \<Rightarrow> lua_data \<Rightarrow> (lua_key \<times> lua_data) list" where
  "table_set res k v = (if v = LNil then map_remove k res else map_insert k v res)"

datatype parser = ParseString | ParseNumber | ParseLiteral | ParseArray | ParseObject

definition char_func_map :: "(string \<times> parser) list" where
  "char_func_map =
     [([CHR 0x22], ParseString), (''0'', ParseNumber), (''1'', ParseNumber), (''2'', ParseNumber), (''3'', ParseNumber),
      (''4'', ParseNumber), (''5'', ParseNumber), (''6'', ParseNumber), (''7'', ParseNumber), (''8'', ParseNumber),
      (''9'', ParseNumber), (''-'', ParseNumber), (''t'', ParseLiteral), (''f'', ParseLiteral), (''n'', ParseLiteral),
      (''['', ParseArray), (''{'', ParseObject)]"

text \<open>The loops of \<open>parse_array\<close> and \<open>parse_object\<close> are functions of their own. A key begins with a quote, so that \<open>parse\<close>
  reads it with \<open>parse_string\<close>.\<close>

function parse :: "lua_std \<Rightarrow> string \<Rightarrow> nat \<Rightarrow> string + lua_data \<times> nat"
  and array_loop :: "lua_std \<Rightarrow> string \<Rightarrow> nat \<Rightarrow> int \<Rightarrow> (lua_key \<times> lua_data) list \<Rightarrow> string + lua_data \<times> nat"
  and object_loop :: "lua_std \<Rightarrow> string \<Rightarrow> nat \<Rightarrow> (lua_key \<times> lua_data) list \<Rightarrow> string + lua_data \<times> nat" where
  "parse L str idx =
     (case map_of char_func_map (str_at str idx) of
        Some ParseString \<Rightarrow> and_then (parse_string str idx) (\<lambda>(s, i). Inr (LStr s, i))
      | Some ParseNumber \<Rightarrow> parse_number L str idx
      | Some ParseLiteral \<Rightarrow> parse_literal str idx
      | Some ParseArray \<Rightarrow> array_loop L str (idx + 1) 1 []
      | Some ParseObject \<Rightarrow> object_loop L str (idx + 1) []
      | None \<Rightarrow> Inl (decode_error str idx (''unexpected character '' @ quoted (str_at str idx))))"
| "array_loop L str i n res =
     (let i = next_char str i space_chars True
      in if str_at str i = '']'' then Inr (LTable res, i + 1)
         else case parse L str i of
             Inl e \<Rightarrow> Inl e
           | Inr (x, i) \<Rightarrow>
               (let res = table_set res (KInt n) x;
                    i = next_char str i space_chars True;
                    chr = str_at str i
                in if chr = '']'' then Inr (LTable res, i + 1)
                   else if chr \<noteq> '','' then Inl (decode_error str (i + 1) (''expected '' @ quoted '']'' @ '' or '' @ quoted '',''))
                   else array_loop L str (i + 1) (n + 1) res))"
| "object_loop L str i res =
     (let i = next_char str i space_chars True
      in if str_at str i = ''}'' then Inr (LTable res, i + 1)
         else if str_at str i \<noteq> [CHR 0x22] then Inl (decode_error str i ''expected string for key'')
         else case parse_string str i of
             Inl e \<Rightarrow> Inl e
           | Inr (key, i) \<Rightarrow>
               (let i = next_char str i space_chars True
                in if str_at str i \<noteq> '':'' then Inl (decode_error str i (''expected '' @ quoted '':'' @ '' after key''))
                   else case parse L str (next_char str (i + 1) space_chars True) of
                       Inl e \<Rightarrow> Inl e
                     | Inr (val, i) \<Rightarrow>
                         (let res = table_set res (KStr key) val;
                              i = next_char str i space_chars True;
                              chr = str_at str i
                          in if chr = ''}'' then Inr (LTable res, i + 1)
                             else if chr \<noteq> '',''
                             then Inl (decode_error str (i + 1) (''expected '' @ quoted ''}'' @ '' or '' @ quoted '',''))
                             else object_loop L str (i + 1) res)))"
  by pat_completeness auto

lemma str_at_in: "str_at str i \<noteq> [] \<Longrightarrow> i \<le> length str"
  by (cases "i \<le> length str") (simp_all add: str_at_def string_sub_def)

lemma find_member: "find P xs = Some x \<Longrightarrow> x \<in> set xs \<and> P x"
  by (induction xs) (auto split: if_splits)

lemma next_char_le: "next_char str i cs b \<le> length str + 1"
  by (auto simp: next_char_def dest!: find_member split: option.splits)

lemma next_char_ge: "i \<le> length str + 1 \<Longrightarrow> i \<le> next_char str i cs b"
  by (auto simp: next_char_def dest!: find_member split: option.splits)

lemma next_char_within: "next_char str i cs b \<le> length str \<Longrightarrow> i \<le> next_char str i cs b"
  using next_char_ge [of i str cs b] by (cases "i \<le> length str") (simp_all add: next_char_def)

lemma next_char_in: "str_at str (next_char str i cs b) \<noteq> [] \<Longrightarrow> i \<le> next_char str i cs b"
  using str_at_in next_char_within by blast

lemma parse_string_loop_moves: "parse_string_loop str i j k res = Inr (s, j') \<Longrightarrow> j < j'"
proof (induction "length str + 1 - j" arbitrary: j k res rule: less_induct)
  case less
  have later: "j < j'" if "\<not> length str < j" "parse_string_loop str i j1 k1 res1 = Inr (s, j')" "j < j1" for j1 k1 res1
    using less.hyps [of j1 k1 res1] that by linarith
  from less.prems show ?case
    by (subst (asm) parse_string_loop.simps)
      (auto simp: Let_def and_then_Inr_iff dest: later split: if_splits option.splits)
qed

lemma parse_string_moves: "parse_string str i = Inr (s, j) \<Longrightarrow> i < j"
  using parse_string_loop_moves [of str i "i + 1" "i + 1" "[]" s j] by (simp add: parse_string_def)

lemma parse_number_moves: "parse_number L str i = Inr (x, j) \<Longrightarrow> str_at str i \<noteq> [] \<Longrightarrow> i \<le> j"
  using str_at_in [of str i] next_char_ge [of i str delim_chars False]
  by (auto simp: parse_number_def Let_def split: option.splits)

lemma parse_literal_moves: "parse_literal str i = Inr (x, j) \<Longrightarrow> str_at str i \<noteq> [] \<Longrightarrow> i \<le> j"
  using str_at_in [of str i] next_char_ge [of i str delim_chars False]
  by (auto simp: parse_literal_def Let_def split: option.splits)

lemma known_char_ne: "map_of char_func_map c = Some f \<Longrightarrow> c \<noteq> []"
  by (auto simp: char_func_map_def)

lemma key_after:
  assumes "str_at str (next_char str i cs b) = c # s" "parse_string str (next_char str i cs b) = Inr (key, k)"
    "str_at str (next_char str k cs b) = c' # s'"
  shows "i \<le> next_char str k cs b + 1"
  using assms(1,3) parse_string_moves [OF assms(2)] next_char_in [of str i cs b] next_char_in [of str k cs b] by simp

lemma parse_moves:
  "parse_array_loop_object_loop_dom (Inl (L, str, i)) \<Longrightarrow> parse L str i = Inr (x, j) \<Longrightarrow> i \<le> j \<and> i \<le> length str"
  "parse_array_loop_object_loop_dom (Inr (Inl (L, str, i, n, res))) \<Longrightarrow> array_loop L str i n res = Inr (x, j) \<Longrightarrow> i \<le> j"
  "parse_array_loop_object_loop_dom (Inr (Inr (L, str, i, res))) \<Longrightarrow> object_loop L str i res = Inr (x, j) \<Longrightarrow> i \<le> j"
proof (induction L str i and L str i n res and L str i res arbitrary: x j and x j and x j rule: parse_array_loop_object_loop.pinduct)
  case (1 L str i)
  from "1.prems" obtain f where f: "map_of char_func_map (str_at str i) = Some f"
    by (cases "map_of char_func_map (str_at str i)") (simp_all add: parse.psimps [OF "1.hyps"])
  then have ne: "str_at str i \<noteq> []" by (rule known_char_ne)
  have "i \<le> j"
  proof (cases f)
    case ParseArray
    with f "1.prems" "1.IH"(1) show ?thesis by (simp add: parse.psimps [OF "1.hyps"]) fastforce
  next
    case ParseObject
    with f "1.prems" "1.IH"(2) show ?thesis by (simp add: parse.psimps [OF "1.hyps"]) fastforce
  qed (use f ne "1.prems" in \<open>auto simp: parse.psimps [OF "1.hyps"] and_then_Inr_iff dest: parse_string_moves
      parse_number_moves parse_literal_moves\<close>)
  moreover note ne
  ultimately show ?case using str_at_in by blast
next
  case (2 L str i n res)
  let ?i = "next_char str i space_chars True"
  show ?case
  proof (cases "str_at str ?i = '']''")
    case True
    with "2.prems" next_char_in [of str i space_chars True] show ?thesis by (auto simp: array_loop.psimps [OF "2.hyps"])
  next
    case False
    with "2.prems" obtain y k where y: "parse L str ?i = Inr (y, k)"
      by (auto simp: array_loop.psimps [OF "2.hyps"] Let_def split: sum.splits)
    with "2.IH"(1) [OF refl False] have "i \<le> k" using next_char_within [of str i space_chars True] by fastforce
    moreover have "k \<le> j"
      using "2.prems" "2.IH"(2) [OF refl False y refl refl refl refl] next_char_in [of str k space_chars True] False y
      by (fastforce simp: array_loop.psimps [OF "2.hyps"] Let_def split: if_splits)
    ultimately show ?thesis by simp
  qed
next
  case (3 L str i res)
  let ?i = "next_char str i space_chars True"
  show ?case
  proof (cases "str_at str ?i = ''}''")
    case True
    with "3.prems" next_char_in [of str i space_chars True] show ?thesis by (auto simp: object_loop.psimps [OF "3.hyps"])
  next
    case False
    with "3.prems" obtain key k where q: "str_at str ?i = [CHR 0x22]" and k: "parse_string str ?i = Inr (key, k)"
      by (auto simp: object_loop.psimps [OF "3.hyps"] Let_def split: sum.splits if_splits)
    let ?k = "next_char str k space_chars True"
    from "3.prems" False q k obtain v l where c: "str_at str ?k = '':''"
      and v: "parse L str (next_char str (?k + 1) space_chars True) = Inr (v, l)"
      by (auto simp: object_loop.psimps [OF "3.hyps"] Let_def split: sum.splits if_splits)
    have q': "\<not> str_at str ?i \<noteq> [CHR 0x22]" and c': "\<not> str_at str ?k \<noteq> '':''" using q c by simp_all
    have "i \<le> ?k + 1" using key_after [OF q k c] .
    also have "?k + 1 \<le> l"
      using "3.IH"(1) [OF refl False q' k refl refl c' v] next_char_within [of str "?k + 1" space_chars True] by simp
    also have "l \<le> j"
      using "3.prems" "3.IH"(2) [OF refl False q' k refl refl c' v refl refl refl refl] next_char_in [of str l space_chars True] False q c k v
      by (fastforce simp: object_loop.psimps [OF "3.hyps"] Let_def split: if_splits)
    finally show ?thesis by simp
  qed
qed

definition parse_rank :: "lua_std \<times> string \<times> nat
    + lua_std \<times> string \<times> nat \<times> int \<times> (lua_key \<times> lua_data) list + lua_std \<times> string \<times> nat \<times> (lua_key \<times> lua_data) list \<Rightarrow> nat" where
  "parse_rank x =
     (case x of
        Inl (L, str, i) \<Rightarrow> 2 * (length str + 1 - i)
      | Inr (Inl (L, str, i, n, res)) \<Rightarrow> 2 * (length str + 1 - i) + 1
      | Inr (Inr (L, str, i, res)) \<Rightarrow> 2 * (length str + 1 - i) + 1)"

lemma known_char_in: "map_of char_func_map (str_at str i) = Some f \<Longrightarrow> i \<le> length str"
  using str_at_in known_char_ne by blast

lemma next_char_rank: "i \<le> j \<Longrightarrow> 2 * (length str + 1 - next_char str j cs b) < 2 * (length str + 1 - i) + 1"
  using next_char_within [of str j cs b] by (cases "next_char str j cs b \<le> length str") auto

lemma after_char_rank:
  assumes "str_at str (next_char str j cs b) = c # s" "i \<le> j"
  shows "2 * (length str + 1 - (next_char str j cs b + 1)) + 1 < 2 * (length str + 1 - i) + 1"
  using assms next_char_in [of str j cs b] str_at_in [of str "next_char str j cs b"] by simp

lemma parse_after:
  assumes "parse_array_loop_object_loop_dom (Inl (L, str, next_char str i cs b))" "parse L str (next_char str i cs b) = Inr (x, j)"
  shows "i \<le> j"
  using parse_moves(1) [OF assms] next_char_within [of str i cs b] by simp

termination parse
  apply (relation "measure parse_rank")
  apply simp
  apply (simp_all only: in_measure parse_rank_def sum.case prod.case)
  subgoal using known_char_in by fastforce
  subgoal using known_char_in by fastforce
  subgoal by (simp only: next_char_rank)
  subgoal by (rule after_char_rank) (auto dest: parse_after)
  subgoal by (rule next_char_rank) (auto dest: key_after)
  subgoal by (rule after_char_rank) (auto dest!: parse_after dest: key_after)
  done

declare parse.simps [simp del] array_loop.simps [simp del] object_loop.simps [simp del]

fun lua_type :: "lua_data \<Rightarrow> string" where
  "lua_type LNil = ''nil''"
| "lua_type (LBool b) = ''boolean''"
| "lua_type (LNum n) = ''number''"
| "lua_type (LStr s) = ''string''"
| "lua_type (LTable es) = ''table''"
| "lua_type (LFun f) = ''function''"

fun json_decode :: "lua_std \<Rightarrow> lua_data \<Rightarrow> string + lua_data" where
  "json_decode L (LStr str) =
     and_then (parse L str (next_char str 1 space_chars True)) (\<lambda>(res, idx).
       let idx = next_char str idx space_chars True
       in if idx \<le> length str then Inl (decode_error str idx ''trailing garbage'') else Inr res)"
| "json_decode L v = Inl (''expected argument of type string, got '' @ lua_type v)"

section \<open>Printing a value\<close>

text \<open>\<open>tostring\<close> on what is not a table; an integer is printed in full, a float with 14 digits.\<close>

fun number_text :: "lua_std \<Rightarrow> lua_number \<Rightarrow> string" where
  "number_text L (LInt i) = show_int i"
| "number_text L (LFlt x) = std_g14 L (LFlt x)"
| "number_text L (LNonFinite t) = t"

fun plain_text :: "lua_std \<Rightarrow> lua_val \<Rightarrow> string" where
  "plain_text L VNil = ''nil''"
| "plain_text L (VBool b) = (if b then ''true'' else ''false'')"
| "plain_text L (VNum n) = number_text L n"
| "plain_text L (VStr s) = s"
| "plain_text L (VFun f) = f"
| "plain_text L (VRef a) = ''table''"

fun dump_key :: "lua_std \<Rightarrow> lua_key \<Rightarrow> string" where
  "dump_key L (KStr s) = [CHR 0x22] @ s @ [CHR 0x22]"
| "dump_key L (KInt i) = number_text L (LInt i)"
| "dump_key L (KFlt x) = number_text L (LFlt x)"

text \<open>A call of \<open>dump\<close>, or the rest of its loop with the text so far.\<close>

datatype dump_task = DumpValue lua_val | DumpEntries string lua_entries

partial_function (option) dump :: "lua_std \<Rightarrow> lua_heap \<Rightarrow> dump_task \<Rightarrow> string option" where
  "dump L H task =
     (case task of
        DumpValue (VRef a) \<Rightarrow> dump L H (DumpEntries ''{ '' (table_at H a))
      | DumpValue v \<Rightarrow> Some (plain_text L v)
      | DumpEntries s [] \<Rightarrow> Some (s @ ''} '')
      | DumpEntries s ((k, v) # es) \<Rightarrow>
          Option.bind (dump L H (DumpValue v)) (\<lambda>t. dump L H (DumpEntries (s @ ''['' @ dump_key L k @ ''] = '' @ t @ '','') es)))"


section \<open>Positions in a text\<close>

lemma str_at_append [simp]: "str_at (pre @ c # rest) (Suc (length pre)) = [c]"
  by (simp add: str_at_def string_sub_def)

lemma str_at_end [simp]: "str_at str (Suc (length str)) = []"
  by (simp add: str_at_def string_sub_def)

lemma string_sub_append [simp]: "string_sub (pre @ w @ rest) (Suc (length pre)) (length pre + length w) = w"
  by (simp add: string_sub_def)

lemma next_char_here:
  assumes "([c] \<in> set cs) \<noteq> b"
  shows "next_char (pre @ c # rest) (Suc (length pre)) cs b = Suc (length pre)"
proof -
  have "[Suc (length pre)..<length (pre @ c # rest) + 1] = (Suc (length pre)) # [Suc (Suc (length pre))..<length (pre @ c # rest) + 1]"
    by (simp add: upt_conv_Cons del: upt_Suc)
  then show ?thesis unfolding next_char_def using assms by (simp del: upt_Suc length_append)
qed

lemma next_char_end [simp]: "next_char str (Suc (length str)) cs b = length str + 1"
  by (simp add: next_char_def)

lemma next_char_skip:
  assumes "([c] \<in> set cs) = b"
  shows "next_char (pre @ c # rest) (Suc (length pre)) cs b = next_char (pre @ c # rest) (Suc (Suc (length pre))) cs b"
proof -
  have "[Suc (length pre)..<length (pre @ c # rest) + 1] = (Suc (length pre)) # [Suc (Suc (length pre))..<length (pre @ c # rest) + 1]"
    by (simp add: upt_conv_Cons del: upt_Suc)
  then show ?thesis unfolding next_char_def using assms by (simp del: upt_Suc length_append)
qed

text \<open>What may stand after a value.\<close>

definition delimited :: "string \<Rightarrow> bool" where
  "delimited rest \<longleftrightarrow> rest = [] \<or> [hd rest] \<in> set delim_chars"

lemma next_char_word:
  assumes "list_all (\<lambda>c. [c] \<notin> set delim_chars) w" "delimited rest"
  shows "next_char (pre @ w @ rest) (Suc (length pre)) delim_chars False = length pre + length w + 1"
  using assms(1)
proof (induction w arbitrary: pre)
  case Nil
  then show ?case
    using assms(2) next_char_here [of "hd rest" delim_chars False pre "tl rest"] next_char_end [of pre delim_chars False]
    by (cases rest) (simp_all add: delimited_def)
next
  case (Cons c w)
  then have "next_char (pre @ (c # w) @ rest) (Suc (length pre)) delim_chars False
      = next_char ((pre @ [c]) @ w @ rest) (Suc (length (pre @ [c]))) delim_chars False"
    using next_char_skip [of c delim_chars False pre "w @ rest"] by simp
  with Cons.IH [of "pre @ [c]"] Cons.prems show ?case by simp
qed

section \<open>Strings\<close>

lemma parse_string_plain:
  assumes "32 \<le> (of_char c :: nat)" "c \<noteq> CHR 0x5C" "c \<noteq> CHR 0x22"
  shows "parse_string_loop (pre @ c # rest) i (Suc (length pre)) k res = parse_string_loop (pre @ c # rest) i (Suc (Suc (length pre))) k res"
proof -
  have "of_char c \<noteq> (92 :: nat)" "of_char c \<noteq> (34 :: nat)"
    using assms(2,3) of_char_eq_iff [of c "CHR 0x5C", where 'a = nat] of_char_eq_iff [of c "CHR 0x22", where 'a = nat] by simp_all
  with assms(1) show ?thesis by (subst parse_string_loop.simps) (simp add: Let_def)
qed

lemma hex_value_hex_digit [simp]: "d < 16 \<Longrightarrow> hex_value (hex_digit d) = Some d"
  by (auto simp: hex_value_def hex_digit_def Let_def)

lemma parse_format_u04x:
  assumes "b < 256"
  shows "parse_unicode_escape (tl (format_u04x b)) = codepoint_to_utf8 b"
proof -
  have "hex_value (CHR ''0'') = Some 0" by (simp add: hex_value_def)
  with assms show ?thesis
    by (simp add: parse_unicode_escape_def format_u04x_def tonumber16_def string_sub_def)
qed

lemma parse_string_escape_long:
  assumes "of_char c < (32 :: nat)" "escape_char_map c = None"
  shows "parse_string_loop (pre @ escape_char c @ rest) i (Suc (length pre)) k res
    = parse_string_loop (pre @ escape_char c @ rest) i (length pre + 7) (length pre + 7) (res @ string_sub (pre @ escape_char c @ rest) k (length pre) @ [c])"
proof -
  let ?str = "pre @ escape_char c @ rest" and ?b = "of_char c :: nat"
  have e: "escape_char c = [CHR 0x5C, CHR ''u''] @ tl (format_u04x ?b)" using assms(2) by (simp add: escape_char_def format_u04x_def)
  have z: "hex_value (CHR ''0'') = Some 0" by (simp add: hex_value_def)
  have "match_hex4 ?str (length pre + 3) = Some (tl (format_u04x ?b))" using assms(1) z unfolding e by (simp add: match_hex4_def format_u04x_def)
  moreover have "match_surrogates ?str (length pre + 3) = None" unfolding e by (simp add: match_surrogates_def format_u04x_def)
  moreover have "parse_unicode_escape (tl (format_u04x ?b)) = Inr [c]"
    using assms(1) parse_format_u04x [of ?b] by (simp add: codepoint_to_utf8_def)
  moreover have "str_at ?str (Suc (Suc (length pre))) = ''u''" using str_at_append [of "pre @ [CHR 0x5C]" "CHR ''u''"] unfolding e by simp
  moreover have "?str ! length pre = CHR 0x5C" "escape_char c \<noteq> []" "length (tl (format_u04x ?b)) = 4"
    unfolding e by (simp_all add: format_u04x_def)
  ultimately show ?thesis by (subst parse_string_loop.simps) (simp add: Let_def numeral_eq_Suc)
qed

lemma escape_char_map_Some:
  assumes "escape_char_map c = Some e"
  shows "[e] \<in> set escape_chars" "e \<noteq> CHR ''u''" "escape_char_map_inv e = Some c"
  using assms by (auto simp: escape_char_map_def escape_pairs_def escape_chars_def escape_char_map_inv_def split: if_splits)

lemma parse_string_escape_short:
  assumes "escape_char_map c = Some e"
  shows "parse_string_loop (pre @ escape_char c @ rest) i (Suc (length pre)) k res
    = parse_string_loop (pre @ escape_char c @ rest) i (length pre + 3) (length pre + 3) (res @ string_sub (pre @ escape_char c @ rest) k (length pre) @ [c])"
proof -
  let ?str = "pre @ escape_char c @ rest"
  have e: "escape_char c = [CHR 0x5C, e]" using assms by (simp add: escape_char_def)
  have "str_at ?str (Suc (Suc (length pre))) = [e]" using str_at_append [of "pre @ [CHR 0x5C]" e] unfolding e by simp
  with escape_char_map_Some [OF assms] show ?thesis unfolding e by (subst parse_string_loop.simps) (simp add: Let_def numeral_eq_Suc)
qed

lemma escape_char_map_quote: "escape_char_map (CHR 0x5C) \<noteq> None" "escape_char_map (CHR 0x22) \<noteq> None"
  by (simp_all add: escape_char_map_def escape_pairs_def)

lemma string_sub_prefix: "1 \<le> k \<Longrightarrow> k \<le> Suc (length pre) \<Longrightarrow> string_sub (pre @ rest) k (length pre) = drop (k - 1) pre"
  by (simp add: string_sub_def)

lemma parse_string_loop_escaped:
  assumes "1 \<le> k" "k \<le> Suc (length pre)"
  shows "parse_string_loop (pre @ gsub_escape s @ CHR 0x22 # rest) i (Suc (length pre)) k res
    = Inr (res @ drop (k - 1) pre @ s, length pre + length (gsub_escape s) + 2)"
  using assms
proof (induction s arbitrary: pre k res)
  case Nil
  then show ?case using string_sub_prefix [of k pre]
    by (subst parse_string_loop.simps) (simp add: gsub_escape_def Let_def)
next
  case (Cons c s)
  let ?rest = "gsub_escape s @ CHR 0x22 # rest"
  show ?case
  proof (cases "of_char c < (32 :: nat) \<or> c = CHR 0x5C \<or> c = CHR 0x22")
    case True
    then have str: "pre @ gsub_escape (c # s) @ CHR 0x22 # rest = (pre @ escape_char c) @ ?rest" by (simp add: gsub_escape_def)
    have "parse_string_loop ((pre @ escape_char c) @ ?rest) i (Suc (length pre)) k res
      = parse_string_loop ((pre @ escape_char c) @ ?rest) i (Suc (length (pre @ escape_char c))) (Suc (length (pre @ escape_char c)))
          (res @ drop (k - 1) pre @ [c])"
    proof (cases "escape_char_map c")
      case None
      have "of_char c < (32 :: nat)" using True None escape_char_map_quote by metis
      moreover from None have "length pre + 7 = Suc (length (pre @ escape_char c))" by (simp add: escape_char_def format_u04x_def)
      ultimately show ?thesis using None parse_string_escape_long [of c pre ?rest i k res] string_sub_prefix [OF Cons.prems]
        by (simp only: append_assoc)
    next
      case (Some e)
      then have "length pre + 3 = Suc (length (pre @ escape_char c))" by (simp add: escape_char_def)
      with Some show ?thesis using parse_string_escape_short [of c e pre ?rest i k res] string_sub_prefix [OF Cons.prems]
        by (simp only: append_assoc)
    qed
    with Cons.IH [of "Suc (length (pre @ escape_char c))" "pre @ escape_char c" "res @ drop (k - 1) pre @ [c]"] True
    show ?thesis unfolding str by (simp add: gsub_escape_def)
  next
    case False
    then have str: "pre @ gsub_escape (c # s) @ CHR 0x22 # rest = pre @ c # ?rest" by (simp add: gsub_escape_def)
    have "parse_string_loop (pre @ c # ?rest) i (Suc (length pre)) k res = parse_string_loop ((pre @ [c]) @ ?rest) i (Suc (length (pre @ [c]))) k res"
      using False parse_string_plain [of c pre ?rest i k res] by simp
    with Cons.IH [of k "pre @ [c]" res] Cons.prems False show ?thesis unfolding str by (simp add: gsub_escape_def)
  qed
qed

lemma parse_string_encode_string:
  "parse_string (pre @ encode_string s @ rest) (Suc (length pre)) = Inr (s, length pre + length (encode_string s) + 1)"
  using parse_string_loop_escaped [of "length pre + 2" "pre @ [CHR 0x22]" s rest "Suc (length pre)" "[]"]
  by (simp add: parse_string_def encode_string_def)

end
