(* ===== verification/Lua_Json_Roundtrip.thy ===== *)
theory Lua_Json_Roundtrip
  imports Lua_Json
begin

text \<open>
  The JSON library of the scripts is correct on the values it is meant for: a value without circular references whose arrays have no
  holes, whose objects are not empty and whose numbers are printed exactly is written as a text that is read back as the same
  tree. Values with circular references are refused; printing them with \<open>dump\<close> does not end. Where the library loses
  something (arrays with holes, empty objects, surrogates) is stated too.
\<close>

section \<open>Values without circular references\<close>

text \<open>The tree that a value stands for; a value from which a table can be reached that contains itself has none.\<close>

inductive tree_of :: "lua_heap \<Rightarrow> lua_val \<Rightarrow> lua_data \<Rightarrow> bool" for H where
  nil: "tree_of H VNil LNil"
| bool: "tree_of H (VBool b) (LBool b)"
| num: "tree_of H (VNum n) (LNum n)"
| str: "tree_of H (VStr s) (LStr s)"
| func: "tree_of H (VFun f) (LFun f)"
| tab: "list_all2 (\<lambda>e e'. fst e = fst e' \<and> tree_of H (snd e) (snd e')) (table_at H a) es \<Longrightarrow> tree_of H (VRef a) (LTable es)"

inductive_cases tree_of_VRefE: "tree_of H (VRef a) t"

lemma tree_of_unique: "tree_of H v t \<Longrightarrow> tree_of H v t' \<Longrightarrow> t = t'"
proof (induction arbitrary: t' rule: tree_of.induct)
  case (tab a es)
  from tab.prems obtain es' where t': "t' = LTable es'"
    and es': "list_all2 (\<lambda>e e'. fst e = fst e' \<and> tree_of H (snd e) (snd e')) (table_at H a) es'"
    by (auto elim: tree_of_VRefE)
  have "es = es'"
  proof (rule nth_equalityI)
    show "length es = length es'" using tab.IH es' by (simp add: list_all2_conv_all_nth)
  next
    fix i
    assume "i < length es"
    then show "es ! i = es' ! i"
      using tab.IH es' by (intro prod_eqI) (auto simp: list_all2_conv_all_nth)
  qed
  with t' show ?case by simp
qed (auto elim: tree_of.cases)

text \<open>The text of a tree.\<close>

definition array_keys :: "(lua_key \<times> 'v) list \<Rightarrow> bool" where
  "array_keys es \<longleftrightarrow> map fst es = map (\<lambda>i. KInt (int i)) [1..<length es + 1]"

definition object_keys :: "(lua_key \<times> 'v) list \<Rightarrow> bool" where
  "object_keys es \<longleftrightarrow> es \<noteq> [] \<and> distinct (map fst es) \<and> list_all (\<lambda>(k, _). \<not> is_number_key k) es"

fun key_string :: "lua_key \<Rightarrow> string" where
  "key_string (KStr s) = s"
| "key_string _ = []"

fun tree_text :: "lua_std \<Rightarrow> lua_data \<Rightarrow> string" where
  "tree_text L LNil = ''null''"
| "tree_text L (LBool b) = (if b then ''true'' else ''false'')"
| "tree_text L (LNum n) = format_g14 L n"
| "tree_text L (LStr s) = encode_string s"
| "tree_text L (LTable es) =
     (if array_keys es then ''['' @ table_concat (map (\<lambda>e. tree_text L (snd e)) es) @ '']''
      else ''{'' @ table_concat (map (\<lambda>e. encode_string (key_string (fst e)) @ '':'' @ tree_text L (snd e)) es) @ ''}'')"
| "tree_text L (LFun f) = []"

text \<open>What has a text that is read back: numbers that are printed exactly, arrays without holes, and objects that are not
  empty.\<close>

definition number_ok :: "lua_std \<Rightarrow> lua_number \<Rightarrow> bool" where
  "number_ok L n \<longleftrightarrow> (\<forall>t. n \<noteq> LNonFinite t)
     \<and> (let s = format_g14 L n
        in s \<noteq> [] \<and> map_of char_func_map [hd s] = Some ParseNumber \<and> list_all (\<lambda>c. [c] \<notin> set delim_chars) s
           \<and> tonumber L s = Some n)"

fun json_ok :: "lua_std \<Rightarrow> lua_data \<Rightarrow> bool" where
  "json_ok L LNil \<longleftrightarrow> True"
| "json_ok L (LBool b) \<longleftrightarrow> True"
| "json_ok L (LNum n) \<longleftrightarrow> number_ok L n"
| "json_ok L (LStr s) \<longleftrightarrow> True"
| "json_ok L (LTable es) \<longleftrightarrow> (array_keys es \<or> object_keys es) \<and> list_all (\<lambda>e. snd e \<noteq> LNil \<and> json_ok L (snd e)) es"
| "json_ok L (LFun f) \<longleftrightarrow> False"

lemma in_i64_small: "\<bar>i\<bar> < 10 ^ 14 \<Longrightarrow> in_i64 i"
  by (simp add: in_i64_def abs_less_iff)

lemma number_ok_int:
  assumes "\<bar>i\<bar> < 10 ^ 14"
  shows "number_ok L (LInt i)"
proof -
  have c: "set (show_int i) \<subseteq> set ''-0123456789''" by (rule show_int_chars)
  have "map_of char_func_map [c] = Some ParseNumber \<and> [c] \<notin> set delim_chars" if "c \<in> set ''-0123456789''" for c
    using that by (auto simp: char_func_map_def delim_chars_def)
  with c have "list_all (\<lambda>c. map_of char_func_map [c] = Some ParseNumber \<and> [c] \<notin> set delim_chars) (show_int i)"
    unfolding list_all_iff by blast
  then show ?thesis
    using assms tonumber_show_int [OF in_i64_small [OF assms]] hd_in_set [of "show_int i"]
    by (simp add: number_ok_def Let_def list_all_iff)
qed

section \<open>Encoding a tree\<close>

lemma encode_items_text:
  "list_all2 (\<lambda>v t. encode L H stack v = Inr (tree_text L t)) vs ts \<Longrightarrow> encode_items L H stack vs = Inr (map (tree_text L) ts)"
  by (induction rule: list_all2_induct) simp_all

lemma encode_entries_text:
  "list_all2 (\<lambda>e e'. fst e = fst e' \<and> encode L H stack (snd e) = Inr (tree_text L (snd e'))) es es' \<Longrightarrow>
   list_all (\<lambda>(k, _). \<not> is_number_key k) es' \<Longrightarrow>
   encode_entries L H stack es
     = Inr (map (\<lambda>e. encode_string (key_string (fst e)) @ '':'' @ tree_text L (snd e)) es')"
proof (induction rule: list_all2_induct)
  case (Cons e es e' es')
  obtain k v where e: "e = (k, v)" by (cases e)
  with Cons obtain s where "k = KStr s" by (cases k) auto
  with Cons e show ?case by auto
qed simp

lemma array_keys_nth: "array_keys es \<Longrightarrow> i < length es \<Longrightarrow> fst (es ! i) = KInt (int i + 1)"
proof -
  assume "array_keys es" "i < length es"
  then have "map fst es ! i = KInt (int ([1..<length es + 1] ! i))" by (simp add: array_keys_def del: upt_Suc)
  with \<open>i < length es\<close> show ?thesis by (simp del: upt_Suc add: nth_upt)
qed

lemma array_keys_distinct: "array_keys es \<Longrightarrow> distinct (map fst es)"
  by (simp add: array_keys_def distinct_map inj_on_def del: upt_Suc)

lemma array_keys_map_of:
  assumes "array_keys es"
  shows "map_of es (KInt j) = (if 1 \<le> j \<and> j \<le> int (length es) then Some (snd (es ! nat (j - 1))) else None)"
proof (cases "1 \<le> j \<and> j \<le> int (length es)")
  case True
  define i where "i = nat (j - 1)"
  have i: "i < length es" "j = int i + 1" using True by (auto simp: i_def)
  then have "(KInt j, snd (es ! i)) \<in> set es"
    using array_keys_nth [OF assms i(1)] nth_mem [OF i(1)] by (metis prod.collapse)
  with True array_keys_distinct [OF assms] show ?thesis by (simp add: i_def)
next
  case False
  have "KInt j \<notin> fst ` set es"
  proof
    assume "KInt j \<in> fst ` set es"
    then obtain i where "i < length es" "fst (es ! i) = KInt j" by (metis image_iff in_set_conv_nth)
    with array_keys_nth [OF assms] False show False by fastforce
  qed
  with False show ?thesis by (auto simp: map_of_eq_None_iff)
qed

lemma ipairs_array:
  assumes "array_keys es"
  shows "ipairs_values es = map snd es"
proof -
  have m: "map (\<lambda>i. map_of es (KInt (int i))) [1..<length es + 1] = map (\<lambda>e. Some (snd e)) es"
    by (rule nth_equalityI) (use array_keys_map_of [OF assms] in \<open>simp_all del: upt_Suc add: nth_upt\<close>)
  show ?thesis unfolding ipairs_values_def m by (simp add: takeWhile_eq_all_conv [THEN iffD2])
qed

text \<open>The length of a table is a border: it has a value there, unless it is 0, and none behind it.\<close>

definition border :: "(lua_key \<times> 'v) list \<Rightarrow> nat \<Rightarrow> bool" where
  "border es n \<longleftrightarrow> (n = 0 \<or> map_of es (KInt (int n)) \<noteq> None) \<and> map_of es (KInt (int n + 1)) = None"

lemma border_array:
  assumes "array_keys es" "border es n"
  shows "n = length es"
  using assms(2) unfolding border_def array_keys_map_of [OF assms(1)]
  by (auto simp: not_le Suc_le_eq split: if_splits)

lemma same_keys: "list_all2 (\<lambda>e e'. fst e = fst e' \<and> P e e') es es' \<Longrightarrow> map fst es = map fst es'"
  by (induction rule: list_all2_induct) simp_all

lemma map_fst_facts:
  assumes "map fst es = map fst es'"
  shows "array_keys es \<longleftrightarrow> array_keys es'" "object_keys es \<longleftrightarrow> object_keys es'"
    "list_all (\<lambda>(k, _). \<not> is_number_key k) es \<longleftrightarrow> list_all (\<lambda>(k, _). \<not> is_number_key k) es'"
proof -
  have l: "list_all (\<lambda>(k, _). \<not> is_number_key k) es \<longleftrightarrow> list_all (\<lambda>k. \<not> is_number_key k) (map fst es)" for es :: "(lua_key \<times> 'x) list"
    by (simp add: list_all_iff case_prod_unfold)
  show "array_keys es \<longleftrightarrow> array_keys es'" "list_all (\<lambda>(k, _). \<not> is_number_key k) es \<longleftrightarrow> list_all (\<lambda>(k, _). \<not> is_number_key k) es'"
    using assms map_eq_imp_length_eq [OF assms] unfolding l by (simp_all add: array_keys_def)
  then show "object_keys es \<longleftrightarrow> object_keys es'" using assms by (auto simp: object_keys_def)
qed

lemma object_not_array: "object_keys es \<Longrightarrow> \<not> array_keys es"
  by (cases es) (auto simp: object_keys_def array_keys_def upt_conv_Cons simp del: upt_Suc)

lemma object_first_none: "object_keys es \<Longrightarrow> map_of es (KInt 1) = None"
  by (fastforce simp: object_keys_def list_all_iff map_of_eq_None_iff)

lemma tree_size_child: "e \<in> set es \<Longrightarrow> size (snd e) < size (LTable es)"
proof (induction es)
  case (Cons e' es)
  then show ?case by (cases e') auto
qed simp

lemma array_keys_numbers:
  assumes "array_keys es"
  shows "list_ex (\<lambda>(k, _). \<not> is_number_key k) es \<longleftrightarrow> False" "map_of es (KInt 1) \<noteq> None \<or> es = []"
proof -
  have "is_number_key (fst (es ! i))" if "i < length es" for i using array_keys_nth [OF assms that] by simp
  then show "list_ex (\<lambda>(k, _). \<not> is_number_key k) es \<longleftrightarrow> False"
    by (fastforce simp: list_ex_iff in_set_conv_nth)
  show "map_of es (KInt 1) \<noteq> None \<or> es = []" using array_keys_map_of [OF assms, of 1] by (cases es) simp_all
qed

lemma encode_tree:
  "tree_of H v t \<Longrightarrow> json_ok L t \<Longrightarrow> (\<And>a. border (table_at H a) (std_length L a))
   \<Longrightarrow> \<forall>a \<in> set stack. \<exists>t'. tree_of H (VRef a) t' \<and> size t < size t'
   \<Longrightarrow> encode L H stack v = Inr (tree_text L t)"
proof (induction arbitrary: stack rule: tree_of.induct)
  case (num n)
  then show ?case by (cases n) (simp_all add: number_ok_def)
next
  case (tab a es)
  let ?val = "table_at H a"
  have tree: "tree_of H (VRef a) (LTable es)" using tab.IH by (auto intro!: tree_of.tab elim: list_all2_mono)
  have fresh: "a \<notin> set stack" using tab.prems(3) tree_of_unique [OF tree] by fastforce
  have keys: "map fst ?val = map fst es" using tab.IH by (rule same_keys)
  have below: "\<forall>b \<in> set (a # stack). \<exists>t'. tree_of H (VRef b) t' \<and> size (snd e) < size t'" if "e \<in> set es" for e
    using tab.prems(3) tree tree_size_child [OF that] by (metis less_trans set_ConsD)
  have kids: "list_all2 (\<lambda>e e'. fst e = fst e' \<and> encode L H (a # stack) (snd e) = Inr (tree_text L (snd e'))) ?val es"
  proof (rule list_all2_all_nthI)
    show "length ?val = length es" using tab.IH by (rule list_all2_lengthD)
  next
    fix i
    assume i: "i < length ?val"
    have m: "es ! i \<in> set es" using i list_all2_lengthD [OF tab.IH] by simp
    with tab.prems(1) have "json_ok L (snd (es ! i))" by (simp add: list_all_iff)
    with list_all2_nthD [OF tab.IH i] tab.prems(2) below [OF m]
    show "fst (?val ! i) = fst (es ! i) \<and> encode L H (a # stack) (snd (?val ! i)) = Inr (tree_text L (snd (es ! i)))" by blast
  qed
  show ?case
  proof (cases "array_keys es")
    case True
    then have arr: "array_keys ?val" using map_fst_facts(1) [OF keys] by simp
    note array_keys_numbers [OF arr]
    moreover have "encode_items L H (a # stack) (map snd ?val) = Inr (map (tree_text L) (map snd es))"
      using kids by (intro encode_items_text) (auto simp: list_all2_map1 list_all2_map2 elim: list_all2_mono)
    ultimately show ?thesis
      using True fresh border_array [OF arr tab.prems(2)] ipairs_array [OF arr] by (simp add: comp_def)
  next
    case False
    then have obj: "object_keys es" using tab.prems(1) by simp
    then have "object_keys ?val" using map_fst_facts(2) [OF keys] by simp
    then have "map_of ?val (KInt 1) = None" "?val \<noteq> []" using object_first_none by (auto simp: object_keys_def)
    moreover have "encode_entries L H (a # stack) ?val
        = Inr (map (\<lambda>e. encode_string (key_string (fst e)) @ '':'' @ tree_text L (snd e)) es)"
      using kids obj by (intro encode_entries_text) (simp_all add: object_keys_def)
    ultimately show ?thesis using False fresh by simp
  qed
qed simp_all

section \<open>Decoding the text of a tree\<close>

lemma known_char_not_space:
  assumes "map_of char_func_map [c] = Some f"
  shows "[c] \<notin> set space_chars" "c \<noteq> CHR '']''" "c \<noteq> CHR ''}''"
  using assms by (auto simp: char_func_map_def space_chars_def)

lemma encode_string_hd [simp]: "encode_string s \<noteq> []" "hd (encode_string s) = CHR 0x22"
  by (simp_all add: encode_string_def)

lemma tree_text_start: "json_ok L t \<Longrightarrow> tree_text L t \<noteq> [] \<and> map_of char_func_map [hd (tree_text L t)] \<noteq> None"
  by (cases t) (auto simp: number_ok_def Let_def char_func_map_def)

lemma next_char_value:
  assumes "json_ok L t"
  shows "next_char (pre @ tree_text L t @ rest) (Suc (length pre)) space_chars True = Suc (length pre)"
    "str_at (pre @ tree_text L t @ rest) (Suc (length pre)) \<noteq> '']''"
    "str_at (pre @ tree_text L t @ rest) (Suc (length pre)) \<noteq> ''}''"
proof -
  obtain c w f where "tree_text L t = c # w" "map_of char_func_map [c] = Some f"
    using tree_text_start [OF assms] by (cases "tree_text L t") auto
  with known_char_not_space [OF this(2)] next_char_here [of c space_chars True pre "w @ rest"]
  show "next_char (pre @ tree_text L t @ rest) (Suc (length pre)) space_chars True = Suc (length pre)"
    "str_at (pre @ tree_text L t @ rest) (Suc (length pre)) \<noteq> '']''"
    "str_at (pre @ tree_text L t @ rest) (Suc (length pre)) \<noteq> ''}''" by simp_all
qed

lemma next_char_punct [simp]:
  "c \<in> set '',:]}'' \<Longrightarrow> next_char (pre @ c # rest) (Suc (length pre)) space_chars True = Suc (length pre)"
  by (rule next_char_here) (auto simp: space_chars_def)

text \<open>A value is read by its text, whatever stands before it, and what may stand after a value behind it.\<close>

definition reads_back :: "lua_std \<Rightarrow> lua_data \<Rightarrow> bool" where
  "reads_back L t \<longleftrightarrow> (\<forall>pre rest. delimited rest \<longrightarrow>
     parse L (pre @ tree_text L t @ rest) (Suc (length pre)) = Inr (t, Suc (length pre + length (tree_text L t))))"

lemma reads_backD:
  "reads_back L t \<Longrightarrow> delimited rest \<Longrightarrow>
   parse L (pre @ tree_text L t @ rest) (Suc (length pre)) = Inr (t, Suc (length (pre @ tree_text L t)))"
  by (simp add: reads_back_def)

lemma parse_literal_word:
  assumes "map_of literal_map w = Some v" "delimited rest"
  shows "parse_literal (pre @ w @ rest) (Suc (length pre)) = Inr (v, Suc (length pre + length w))"
proof -
  have "list_all (\<lambda>c. [c] \<notin> set delim_chars) w"
    using assms(1) by (auto simp: literal_map_def delim_chars_def split: if_splits)
  from next_char_word [OF this assms(2), of pre] show ?thesis
    using assms(1) string_sub_append [of pre w rest] by (simp add: parse_literal_def)
qed

lemma parse_number_word:
  assumes "number_ok L n" "delimited rest"
  shows "parse_number L (pre @ format_g14 L n @ rest) (Suc (length pre)) = Inr (LNum n, Suc (length pre + length (format_g14 L n)))"
proof -
  have "list_all (\<lambda>c. [c] \<notin> set delim_chars) (format_g14 L n)" using assms(1) by (simp add: number_ok_def Let_def)
  from next_char_word [OF this assms(2), of pre] show ?thesis
    using assms(1) string_sub_append [of pre "format_g14 L n" rest] by (simp add: parse_number_def number_ok_def Let_def)
qed

lemma reads_back_plain:
  "reads_back L LNil" "reads_back L (LBool b)" "number_ok L n \<Longrightarrow> reads_back L (LNum n)" "reads_back L (LStr s)"
proof -
  have at: "str_at (pre @ w @ rest) (Suc (length pre)) = [hd w]" if "w \<noteq> []" for pre w rest :: string
    using that by (cases w) simp_all
  have "map_of char_func_map ''n'' = Some ParseLiteral" "map_of char_func_map ''t'' = Some ParseLiteral"
    "map_of char_func_map ''f'' = Some ParseLiteral" "map_of char_func_map [CHR 0x22] = Some ParseString"
    by (simp_all add: char_func_map_def)
  moreover have "map_of literal_map ''null'' = Some LNil" "map_of literal_map ''true'' = Some (LBool True)"
    "map_of literal_map ''false'' = Some (LBool False)" by (simp_all add: literal_map_def)
  ultimately show "reads_back L LNil" "reads_back L (LBool b)" "reads_back L (LStr s)"
    using parse_literal_word [of "''null''"] parse_literal_word [of "''true''"] parse_literal_word [of "''false''"]
      at [of "''null''"] at [of "''true''"] at [of "''false''"] at [of "encode_string s"] parse_string_encode_string
    by (simp_all add: reads_back_def parse.simps)
  show "reads_back L (LNum n)" if "number_ok L n"
    using that at [of "format_g14 L n"] parse_number_word [OF that] by (simp add: reads_back_def parse.simps number_ok_def Let_def)
qed

lemma table_concat_Cons: "table_concat (s # ss) = s @ (if ss = [] then [] else '','' @ table_concat ss)"
  by (cases ss) simp_all

lemma delimited_punct [simp]: "delimited (CHR '']'' # rest)" "delimited (CHR ''}'' # rest)" "delimited (CHR '','' # rest)" "delimited []"
  by (simp_all add: delimited_def delim_chars_def)

fun keys_from :: "int \<Rightarrow> (lua_key \<times> 'v) list \<Rightarrow> bool" where
  "keys_from n [] \<longleftrightarrow> True"
| "keys_from n (e # es) \<longleftrightarrow> fst e = KInt n \<and> keys_from (n + 1) es"

lemma array_loop_text:
  assumes "list_all (\<lambda>e. snd e \<noteq> LNil \<and> json_ok L (snd e) \<and> reads_back L (snd e)) es" "keys_from n es"
    "list_all (\<lambda>e. \<exists>m < n. fst e = KInt m) res"
  shows "array_loop L (pre @ table_concat (map (\<lambda>e. tree_text L (snd e)) es) @ CHR '']'' # rest) (Suc (length pre)) n res
    = Inr (LTable (res @ es), length pre + length (table_concat (map (\<lambda>e. tree_text L (snd e)) es)) + 2)"
  using assms
proof (induction es arbitrary: pre n res)
  case Nil
  then show ?case by (subst array_loop.simps) (simp add: Let_def)
next
  case (Cons e es)
  let ?w = "tree_text L (snd e)" and ?ws = "table_concat (map (\<lambda>e. tree_text L (snd e)) es)"
  let ?rest = "(if es = [] then [] else '','' @ ?ws) @ CHR '']'' # rest"
  let ?p = "pre @ ?w"
  have ok: "json_ok L (snd e)" "reads_back L (snd e)" "snd e \<noteq> LNil" using Cons.prems by simp_all
  have d: "delimited ?rest" by simp
  have "KInt n \<notin> fst ` set res" using Cons.prems(3) by (fastforce simp: list_all_iff)
  moreover have "(KInt n, snd e) = e" using Cons.prems(2) by (cases e) simp
  ultimately have new: "table_set res (KInt n) (snd e) = res @ [e]"
    using ok(3) map_insert_append [of "KInt n" res "snd e"] by (simp add: table_set_def)
  have read: "parse L (pre @ ?w @ ?rest) (Suc (length pre)) = Inr (snd e, Suc (length ?p))"
    using ok(2) d by (rule reads_backD)
  have step: "array_loop L (pre @ ?w @ ?rest) (Suc (length pre)) n res
      = (if es = [] then Inr (LTable (res @ [e]), length ?p + 2)
         else array_loop L ((?p @ '','') @ ?ws @ CHR '']'' # rest) (Suc (length (?p @ '',''))) (n + 1) (res @ [e]))"
    using next_char_value [OF ok(1), of pre ?rest] next_char_punct [of "CHR '']''" ?p rest]
      next_char_punct [of "CHR '',''" ?p "?ws @ CHR '']'' # rest"] str_at_append [of ?p "CHR '']''" rest]
      str_at_append [of ?p "CHR '',''" "?ws @ CHR '']'' # rest"]
    by (subst array_loop.simps) (simp add: Let_def read new)
  show ?case
  proof (cases "es = []")
    case True
    with step show ?thesis by simp
  next
    case False
    have "list_all (\<lambda>e. \<exists>m < n + 1. fst e = KInt m) (res @ [e])"
      using Cons.prems(2,3) by (fastforce simp: list_all_iff)
    with Cons.IH [of "n + 1" "res @ [e]" "?p @ '',''"] Cons.prems False step show ?thesis by (simp add: table_concat_Cons)
  qed
qed

definition entry_text :: "lua_std \<Rightarrow> lua_key \<times> lua_data \<Rightarrow> string" where
  "entry_text L e = encode_string (key_string (fst e)) @ '':'' @ tree_text L (snd e)"

lemma next_char_quote: "next_char (pre @ encode_string s @ rest) (Suc (length pre)) space_chars True = Suc (length pre)"
  "str_at (pre @ encode_string s @ rest) (Suc (length pre)) = [CHR 0x22]"
  using next_char_here [of "CHR 0x22" space_chars True pre "gsub_escape s @ CHR 0x22 # rest"]
  by (simp_all add: encode_string_def space_chars_def)

lemma object_step:
  assumes "json_ok L (snd e)" "reads_back L (snd e)" "snd e \<noteq> LNil" "fst e = KStr key" "KStr key \<notin> fst ` set res" "delimited rest"
    "c = hd rest" "rest \<noteq> []" "c \<in> set '',}''"
  shows "object_loop L (pre @ entry_text L e @ rest) (Suc (length pre)) res
    = (if c = CHR ''}'' then Inr (LTable (res @ [e]), length (pre @ entry_text L e) + 2)
       else object_loop L (pre @ entry_text L e @ rest) (length (pre @ entry_text L e) + 2) (res @ [e]))"
proof -
  let ?str = "pre @ entry_text L e @ rest" and ?p = "pre @ encode_string key" and ?q = "pre @ encode_string key @ '':''"
  have str: "?str = pre @ encode_string key @ '':'' @ tree_text L (snd e) @ rest" "?str = ?p @ CHR '':'' # tree_text L (snd e) @ rest"
    "?str = ?q @ tree_text L (snd e) @ rest" "?str = (?q @ tree_text L (snd e)) @ c # tl rest"
    using assms(4,7,8) by (simp_all add: entry_text_def)
  have q: "next_char ?str (Suc (length pre)) space_chars True = Suc (length pre)" "str_at ?str (Suc (length pre)) = [CHR 0x22]"
    "parse_string ?str (Suc (length pre)) = Inr (key, Suc (length ?p))"
    unfolding str(1) using next_char_quote [of pre key] parse_string_encode_string [of pre key] by simp_all
  have p: "next_char ?str (Suc (length ?p)) space_chars True = Suc (length ?p)" "str_at ?str (Suc (length ?p)) = '':''"
    unfolding str(2) by (rule next_char_punct, simp) (rule str_at_append)
  have v: "next_char ?str (Suc (length ?q)) space_chars True = Suc (length ?q)"
    "parse L ?str (Suc (length ?q)) = Inr (snd e, Suc (length (?q @ tree_text L (snd e))))"
    unfolding str(3) by (rule next_char_value(1) [OF assms(1)], rule reads_backD [OF assms(2,6)])
  have r: "next_char ?str (Suc (length (?q @ tree_text L (snd e)))) space_chars True = Suc (length (?q @ tree_text L (snd e)))"
    "str_at ?str (Suc (length (?q @ tree_text L (snd e)))) = [c]"
    unfolding str(4) using assms(9) by (intro next_char_punct str_at_append; auto)+
  have "table_set res (KStr key) (snd e) = res @ [e]"
    using assms(3,4,5) map_insert_append [of "KStr key" res "snd e"] by (cases e) (simp add: table_set_def)
  with q p v r assms(4,9) show ?thesis
    by (subst object_loop.simps) (simp add: Let_def entry_text_def, blast)
qed

lemma object_loop_text:
  assumes "list_all (\<lambda>e. snd e \<noteq> LNil \<and> json_ok L (snd e) \<and> reads_back L (snd e)) es"
    "list_all (\<lambda>(k, _). \<not> is_number_key k) es" "distinct (map fst (res @ es))" "es \<noteq> []"
  shows "object_loop L (pre @ table_concat (map (entry_text L) es) @ CHR ''}'' # rest) (Suc (length pre)) res
    = Inr (LTable (res @ es), length pre + length (table_concat (map (entry_text L) es)) + 2)"
  using assms
proof (induction es arbitrary: pre res)
  case (Cons e es)
  let ?ws = "table_concat (map (entry_text L) es)"
  let ?rest = "(if es = [] then [] else '','' @ ?ws) @ CHR ''}'' # rest"
  let ?p = "pre @ entry_text L e @ '',''"
  obtain key where key: "fst e = KStr key" using Cons.prems(2) by (cases "fst e") auto
  then have fresh: "KStr key \<notin> fst ` set res" using Cons.prems(3) by auto
  have str: "pre @ table_concat (map (entry_text L) (e # es)) @ CHR ''}'' # rest = pre @ entry_text L e @ ?rest"
    by (simp add: table_concat_Cons)
  have step: "object_loop L (pre @ entry_text L e @ ?rest) (Suc (length pre)) res
      = (if es = [] then Inr (LTable (res @ [e]), length (pre @ entry_text L e) + 2)
         else object_loop L (?p @ ?ws @ CHR ''}'' # rest) (Suc (length ?p)) (res @ [e]))"
    using object_step [of L e key res ?rest "hd ?rest" pre] Cons.prems(1) key fresh by simp
  show ?case
  proof (cases "es = []")
    case True
    with step show ?thesis unfolding str by (simp add: table_concat_Cons)
  next
    case False
    with Cons.IH [of "res @ [e]" ?p] Cons.prems step show ?thesis unfolding str by (simp add: table_concat_Cons)
  qed
qed simp

lemma array_keys_from: "array_keys es \<longleftrightarrow> keys_from 1 es"
proof -
  have "keys_from (int n) es \<longleftrightarrow> map fst es = map (\<lambda>i. KInt (int i)) [n..<n + length es]" for n
  proof (induction es arbitrary: n)
    case (Cons e es)
    from Cons [of "n + 1"] show ?case by (auto simp: upt_conv_Cons add.commute simp del: upt_Suc)
  qed simp
  from this [of 1] show ?thesis by (simp add: array_keys_def)
qed

lemma json_ok_reads_back: "json_ok L t \<Longrightarrow> reads_back L t"
proof (induction t)
  case (LTable es)
  then have kids: "list_all (\<lambda>e. snd e \<noteq> LNil \<and> json_ok L (snd e) \<and> reads_back L (snd e)) es"
    by (fastforce simp: list_all_iff snds.simps)
  show ?case
  proof (cases "array_keys es")
    case True
    let ?ws = "table_concat (map (\<lambda>e. tree_text L (snd e)) es)"
    have "parse L (pre @ ''['' @ ?ws @ CHR '']'' # rest) (Suc (length pre)) = Inr (LTable es, length pre + length ?ws + 3)" for pre rest
      using array_loop_text [OF kids, of 1 "[]" "pre @ ''[''" rest] True array_keys_from [of es]
      by (subst parse.simps) (simp add: char_func_map_def)
    with True show ?thesis by (simp add: reads_back_def)
  next
    case False
    then have obj: "object_keys es" using LTable.prems by simp
    let ?ws = "table_concat (map (entry_text L) es)"
    have "parse L (pre @ ''{'' @ ?ws @ CHR ''}'' # rest) (Suc (length pre)) = Inr (LTable es, length pre + length ?ws + 3)" for pre rest
      using object_loop_text [OF kids, of "[]" "pre @ ''{''" rest] obj
      by (subst parse.simps) (simp add: char_func_map_def object_keys_def)
    with False show ?thesis by (simp add: reads_back_def entry_text_def [abs_def])
  qed
qed (simp_all add: reads_back_plain)

theorem decode_tree_text:
  assumes "json_ok L t"
  shows "json_decode L (LStr (tree_text L t)) = Inr t"
  using json_ok_reads_back [OF assms] reads_backD [of L t "[]" "[]"] next_char_value(1) [OF assms, of "[]" "[]"]
  by simp

section \<open>What is written is read back\<close>

text \<open>C39: A value without circular references, whose tables are arrays without holes or objects with string keys and at least
  one entry, and whose numbers are printed exactly (as are all integers of at most 14 digits), is written by \<open>json.encode\<close>
  as a text from which \<open>json.decode\<close> makes the same tree, whatever tables are shared in it; the length of a table is taken to be one of
  its borders.\<close>
theorem json_written_read_back:
  assumes "tree_of H v t" "json_ok L t" "\<And>a. border (table_at H a) (std_length L a)"
  shows "\<exists>s. json_encode L H v = Inr s \<and> json_decode L (LStr s) = Inr t"
  using encode_tree [OF assms, of "[]"] decode_tree_text [OF assms(2)] by (simp add: json_encode_def)

definition demo_std :: lua_std where
  "demo_std = \<lparr>std_str2d = (\<lambda>_. None), std_g14 = (\<lambda>_. []), std_length = (\<lambda>a. if a = 1 then 2 else 0), std_string_member = (\<lambda>_. LNil)\<rparr>"

definition demo_heap :: lua_heap where
  "demo_heap = [(0, [(KStr ''a'', VRef 1), (KStr ''b'', VRef 1)]), (1, [(KInt 1, VNum (LInt 42)), (KInt 2, VStr [CHR 0x22, CHR 0x01])])]"

definition demo_tree :: lua_data where
  "demo_tree = (let t = LTable [(KInt 1, LNum (LInt 42)), (KInt 2, LStr [CHR 0x22, CHR 0x01])] in LTable [(KStr ''a'', t), (KStr ''b'', t)])"

theorem json_written_read_back_witness:
  "\<exists>s. json_encode demo_std demo_heap (VRef 0) = Inr s \<and> json_decode demo_std (LStr s) = Inr demo_tree"
proof (rule json_written_read_back)
  show "tree_of demo_heap (VRef 0) demo_tree"
    by (auto simp: demo_tree_def Let_def demo_heap_def table_at_def intro!: tree_of.intros)
  show "json_ok demo_std demo_tree"
    by (simp add: demo_tree_def Let_def number_ok_int array_keys_def object_keys_def)
  show "border (table_at demo_heap a) (std_length demo_std a)" for a
    by (simp add: border_def table_at_def demo_heap_def demo_std_def)
qed

text \<open>A text is written only of a value without circular references, if arrays have no holes.\<close>

lemma encode_has_tree:
  assumes "\<And>a. array_keys (table_at H a) \<or> map_of (table_at H a) (KInt 1) = None"
  shows "encode L H stack v = Inr s \<Longrightarrow> \<exists>t. tree_of H v t"
    "encode_table L H stack a = Inr s \<Longrightarrow> \<exists>t. tree_of H (VRef a) t"
    "encode_items L H stack vs = Inr ss \<Longrightarrow> \<exists>ts. list_all2 (tree_of H) vs ts"
    "encode_entries L H stack es = Inr ss \<Longrightarrow> \<exists>es'. list_all2 (\<lambda>e e'. fst e = fst e' \<and> tree_of H (snd e) (snd e')) es es'"
  using assms
proof (induction L H stack v and L H stack a and L H stack vs and L H stack es
    arbitrary: s and s and ss and ss rule: encode_encode_table_encode_items_encode_entries.induct)
  case (1 L H stack v)
  then show ?case by (cases v) (auto intro: tree_of.intros)
next
  case (2 L H stack a)
  let ?val = "table_at H a"
  have fresh: "a \<notin> set stack" using "2.prems"(1) by (auto simp: Let_def)
  show ?case
  proof (cases "map_of ?val (KInt 1) \<noteq> None \<or> ?val = []")
    case True
    then have arr: "array_keys ?val" using "2.prems"(2) [of a] by (auto simp: array_keys_def)
    with True fresh "2.prems"(1) obtain ss where "encode_items L H (a # stack) (map snd ?val) = Inr ss"
      by (auto simp: Let_def ipairs_array and_then_Inr_iff split: if_splits)
    with "2.IH"(1) [OF refl fresh True] arr "2.prems" fresh True obtain ts where "list_all2 (tree_of H) (map snd ?val) ts"
      by (auto simp: Let_def ipairs_array and_then_Inr_iff split: if_splits)
    then have "list_all2 (\<lambda>e e'. fst e = fst e' \<and> tree_of H (snd e) (snd e')) ?val (zip (map fst ?val) ts)"
      by (auto simp: list_all2_conv_all_nth)
    then show ?thesis by (blast intro: tree_of.tab)
  next
    case False
    with fresh "2.prems"(1) obtain ss where "encode_entries L H (a # stack) ?val = Inr ss"
      by (auto simp: Let_def and_then_Inr_iff)
    with "2.IH"(2) [OF refl fresh False] "2.prems"(2) show ?thesis by (blast intro: tree_of.tab)
  qed
next
  case (4 L H stack v vs)
  from "4.prems"(1) obtain a where a: "encode L H stack v = Inr a" and "\<exists>ss. encode_items L H stack vs = Inr ss"
    by (auto simp: and_then_Inr_iff simp del: encode.simps)
  then obtain t ts where "tree_of H v t" "list_all2 (tree_of H) vs ts" using "4.IH" "4.prems"(2) by blast
  then show ?case by (intro exI [of _ "t # ts"]) simp
next
  case (6 L H stack k v es)
  from "6.prems"(1) obtain key a where k: "k = KStr key" and a: "encode L H stack v = Inr a" and "\<exists>ss. encode_entries L H stack es = Inr ss"
    by (auto simp: and_then_Inr_iff simp del: encode.simps split: lua_key.splits)
  then obtain t es' where "tree_of H v t" "list_all2 (\<lambda>e e'. fst e = fst e' \<and> tree_of H (snd e) (snd e')) es es'"
    using "6.IH" "6.prems"(2) by blast
  then show ?case by (intro exI [of _ "(k, t) # es'"]) simp
qed auto

theorem encode_refuses_circles:
  assumes "\<And>a. array_keys (table_at H a) \<or> map_of (table_at H a) (KInt 1) = None" "\<And>t. \<not> tree_of H v t"
  shows "\<exists>e. json_encode L H v = Inl e"
proof (cases "encode L H [] v")
  case (Inr s)
  then show ?thesis using encode_has_tree(1) [OF assms(1) Inr] assms(2) by blast
qed (simp add: json_encode_def)

text \<open>An array with holes may pass the check of its length, which is then any of its borders, and lose what is behind the first hole.\<close>
theorem sparse_array_truncated:
  assumes "table_at H a = [(KInt 1, VBool True), (KInt 3, x), (KInt 7, y)]"
  shows "border (table_at H a) 3" "std_length L a = 3 \<Longrightarrow> json_encode L H (VRef a) = Inr ''[true]''"
  using assms by (simp_all add: border_def json_encode_def ipairs_values_def)

text \<open>An object without entries is written as an array.\<close>
theorem empty_object_becomes_array:
  "json_decode L (LStr ''{}'') = Inr (LTable [])" "table_at H a = [] \<Longrightarrow> std_length L a = 0 \<Longrightarrow> json_encode L H (VRef a) = Inr ''[]''"
proof -
  have "next_char ''{}'' 1 space_chars True = 1" "next_char ''{}'' 2 space_chars True = 2" "str_at ''{}'' 1 = ''{''" "str_at ''{}'' 2 = ''}''"
    "next_char ''{}'' 3 space_chars True = 3" by code_simp+
  then show "json_decode L (LStr ''{}'') = Inr (LTable [])"
    by (simp add: parse.simps object_loop.simps char_func_map_def numeral_eq_Suc)
qed (simp add: json_encode_def)

text \<open>A high surrogate takes the escape after it for its other half, whatever it is.\<close>
theorem surrogate_takes_any_escape:
  "parse_unicode_escape (''d800'' @ [CHR 0x5C] @ ''u0041'') = codepoint_to_utf8 0x2441"
  by code_simp

section \<open>Printing ends on values without circular references, and only on these\<close>

lemma dump_entries:
  "list_all (\<lambda>e. \<exists>s. dump L H (DumpValue (snd e)) = Some s) es \<Longrightarrow> \<exists>s'. dump L H (DumpEntries s es) = Some s'"
proof (induction es arbitrary: s)
  case Nil
  show ?case by (subst dump.simps) simp
next
  case (Cons e es)
  obtain k v where e: "e = (k, v)" by (cases e)
  with Cons.prems obtain t where t: "dump L H (DumpValue v) = Some t" by auto
  obtain s' where "dump L H (DumpEntries (s @ ''['' @ dump_key L k @ ''] = '' @ t @ '','') es) = Some s'"
    using Cons.IH Cons.prems by fastforce
  with t e show ?case by (subst dump.simps) simp
qed

lemma dump_tree: "tree_of H v t \<Longrightarrow> \<exists>s. dump L H (DumpValue v) = Some s"
proof (induction rule: tree_of.induct)
  case (tab a es)
  have "list_all (\<lambda>e. \<exists>s. dump L H (DumpValue (snd e)) = Some s) (table_at H a)"
    using tab.IH by (auto simp: list_all2_conv_all_nth list_all_length)
  from dump_entries [OF this] show ?case by (subst dump.simps) simp
qed (subst dump.simps, simp)+

text \<open>What a task that ends has gone through.\<close>

definition task_tree :: "lua_heap \<Rightarrow> dump_task \<Rightarrow> bool" where
  "task_tree H task \<longleftrightarrow>
     (case task of
        DumpValue v \<Rightarrow> \<exists>t. tree_of H v t
      | DumpEntries _ es \<Rightarrow> \<exists>es'. list_all2 (\<lambda>e e'. fst e = fst e' \<and> tree_of H (snd e) (snd e')) es es')"

lemma dump_has_tree:
  assumes "dump L H task = Some s"
  shows "task_tree H task"
proof (rule dump.raw_induct [where P = "\<lambda>L H task s. task_tree H task", OF _ assms], goal_cases)
  case (1 dump' L H task s)
  show ?case
  proof (cases task)
    case (DumpValue v)
    show ?thesis
    proof (cases v)
      case (VRef a)
      with 1(2) DumpValue have "dump' L H (DumpEntries ''{ '' (table_at H a)) = Some s" by simp
      from 1(1) [OF this] show ?thesis using DumpValue VRef by (auto simp: task_tree_def intro: tree_of.tab)
    qed (use DumpValue in \<open>auto simp: task_tree_def intro: tree_of.intros\<close>)
  next
    case (DumpEntries r es)
    show ?thesis
    proof (cases es)
      case (Cons e es')
      obtain k v where "e = (k, v)" by (cases e)
      with 1(2) DumpEntries Cons obtain t r' where e: "e = (k, v)" "dump' L H (DumpValue v) = Some t" "dump' L H (DumpEntries r' es') = Some s"
        by (auto simp: bind_eq_Some_conv)
      from 1(1) [OF e(2)] 1(1) [OF e(3)] obtain w ws where "tree_of H v w"
        "list_all2 (\<lambda>e e'. fst e = fst e' \<and> tree_of H (snd e) (snd e')) es' ws" by (auto simp: task_tree_def)
      then show ?thesis using DumpEntries Cons e(1) by (auto simp: task_tree_def intro!: exI [of _ "(k, w) # ws"])
    qed (use DumpEntries in \<open>auto simp: task_tree_def intro!: exI [of _ "[]"]\<close>)
  qed
qed

theorem dump_returns_iff: "(\<exists>s. dump L H (DumpValue v) = Some s) \<longleftrightarrow> (\<exists>t. tree_of H v t)"
  using dump_tree dump_has_tree [of L H "DumpValue v"] by (fastforce simp: task_tree_def)

end
