(* ===== verification/Http_Future.thy ===== *)
theory Http_Future
  imports Response_Assert Metrics Http_Types
begin

text \<open>
  Sending one request and following its response (\<open>HttpRequestFuture\<close> of \<open>cluster-executor/src/lib.rs\<close> and
  \<open>send_single_requests\<close> of \<open>cluster-executor/src/secondary.rs\<close>).

  The future is polled by the runtime. A \<open>poll_env\<close> holds the time of a poll in milliseconds and what the
  futures it waits for would answer, \<open>None\<close> while they are pending: the response of the HTTP
  client, its body, and the reply of the Lua executor. Parsing JSON, URIs and header fields is code of the
  libraries and a parameter. \<open>None\<close> of a whole step is a panic.
\<close>

section \<open>Text of a response\<close>

text \<open>\<open>std::str::from_utf8\<close>: the bytes that may follow the first byte of a character.\<close>

definition utf8_lead :: "nat \<Rightarrow> (nat \<times> nat) list option" where
  "utf8_lead n =
     (let c = (128, 191)
      in if n \<le> 127 then Some []
         else if 194 \<le> n \<and> n \<le> 223 then Some [c]
         else if n = 224 then Some [(160, 191), c]
         else if n = 237 then Some [(128, 159), c]
         else if 225 \<le> n \<and> n \<le> 239 then Some [c, c]
         else if n = 240 then Some [(144, 191), c, c]
         else if 241 \<le> n \<and> n \<le> 243 then Some [c, c, c]
         else if n = 244 then Some [(128, 143), c, c]
         else None)"

fun utf8_run :: "(nat \<times> nat) list \<Rightarrow> string \<Rightarrow> bool" where
  "utf8_run [] [] = True"
| "utf8_run (_ # _) [] = False"
| "utf8_run ((lo, hi) # rest) (x # xs) = (lo \<le> of_char x \<and> of_char x \<le> hi \<and> utf8_run rest xs)"
| "utf8_run [] (x # xs) = (case utf8_lead (of_char x) of None \<Rightarrow> False | Some rest \<Rightarrow> utf8_run rest xs)"

definition is_utf8 :: "string \<Rightarrow> bool" where
  "is_utf8 bytes = utf8_run [] bytes"

section \<open>The state of a request\<close>

datatype http_request_state = Init | RequestInProgress | ResponseReceived

datatype original_request = OriginalRequest http_req | OriginalPlaceHolder

text \<open>What is sent to the Lua executor, without the channel for its reply, and the future that waits for
  the reply: \<open>LuaCall\<close> before it is polled for the first time.\<close>

record lua_message =
  lm_response :: string
  lm_method :: string
  lm_url :: string
  lm_body :: "string option"
  lm_headers :: "(string \<times> string) list"

datatype lua_assert_state = LuaCall string http_req | LuaWaiting

datatype lua_reply = LuaReply "assertion_error list + unit" | LuaReceiverError | LuaTimeout

record 'p http_request_future =
  hf_state :: http_request_state
  hf_timer :: "nat option"
  hf_job_id :: string
  hf_body :: bool
  hf_status :: "string option"
  hf_assertion :: "'p response_assertion"
  hf_request_uri :: uri
  hf_original_request :: original_request
  hf_lua_executor_sender :: bool
  hf_lua_assert_future :: "lua_assert_state option"
  hf_lua_sent :: "lua_message list"

record poll_env =
  pe_now :: nat
  pe_request :: "(string + string) option"
  pe_body :: "(string + string) option"
  pe_lua :: "lua_reply option"

section \<open>Assertions\<close>

definition generate_metrics_on_failure :: "metrics \<Rightarrow> assertion_error list \<Rightarrow> metrics" where
  "generate_metrics_on_failure m errs =
     fold (\<lambda>err m. assertion_failure (assertion_error_id err) (assertion_error_str err) m) errs m"

definition do_simple_assertion ::
  "'p path_env \<Rightarrow> (string \<Rightarrow> string + json) \<Rightarrow> 'p response_assertion \<Rightarrow> uri \<Rightarrow> string \<Rightarrow> metrics \<Rightarrow> metrics option" where
  "do_simple_assertion P from_slice assertion request_uri body m =
     (case from_slice body of
        Inl e \<Rightarrow> Some (generate_metrics_on_failure (assertion_parse_failure e m) [])
      | Inr json_resp \<Rightarrow>
          (case simple_assert P assertion request_uri None json_resp of
             None \<Rightarrow> None
           | Some (Inr _) \<Rightarrow> Some m
           | Some (Inl errs) \<Rightarrow> Some (generate_metrics_on_failure m errs)))"

definition lua_reply_metrics :: "lua_reply \<Rightarrow> metrics \<Rightarrow> metrics" where
  "lua_reply_metrics reply m =
     (case reply of
        LuaReply (Inl errs) \<Rightarrow> generate_metrics_on_failure m errs
      | LuaReply (Inr _) \<Rightarrow> m
      | LuaReceiverError \<Rightarrow> m
      | LuaTimeout \<Rightarrow> m)"

text \<open>One poll of \<open>do_lua_assertion\<close>: the first one sends the message; it returns whether the future is
  ready, its next state, what was sent, and the metrics.\<close>

definition do_lua_assertion ::
  "lua_reply option \<Rightarrow> lua_assert_state \<Rightarrow> metrics \<Rightarrow> bool \<times> lua_assert_state \<times> lua_message list \<times> metrics" where
  "do_lua_assertion reply fut m =
     (let sent = (case fut of
            LuaCall body_str req \<Rightarrow>
              [\<lparr>lm_response = body_str, lm_method = hr_method req, lm_url = hr_url req, lm_body = hr_body req,
                lm_headers = hr_headers req\<rparr>]
          | LuaWaiting \<Rightarrow> [])
      in case reply of
           None \<Rightarrow> (False, LuaWaiting, sent, m)
         | Some r \<Rightarrow> (True, LuaWaiting, sent, lua_reply_metrics r m))"

section \<open>Polling\<close>

definition poll_begin :: "poll_env \<Rightarrow> 'p http_request_future \<times> metrics \<Rightarrow> 'p http_request_future \<times> metrics" where
  "poll_begin e = (\<lambda>(f, m).
     if hf_state f = Init
     then (f\<lparr>hf_timer := Some (pe_now e), hf_state := RequestInProgress\<rparr>, upstream_request_count 1 m)
     else (f, m))"

definition poll_lua ::
  "poll_env \<Rightarrow> lua_assert_state \<Rightarrow> 'p http_request_future \<times> metrics \<Rightarrow> bool \<times> 'p http_request_future \<times> metrics" where
  "poll_lua e fut = (\<lambda>(f, m).
     (let (ready, fut, sent, m) = do_lua_assertion (pe_lua e) fut m
      in (ready, f\<lparr>hf_lua_assert_future := Some fut, hf_lua_sent := hf_lua_sent f @ sent\<rparr>, m)))"

definition assert_body ::
  "'p path_env \<Rightarrow> (string \<Rightarrow> string + json) \<Rightarrow> 'p http_request_future \<Rightarrow> string \<Rightarrow> metrics \<Rightarrow> metrics option" where
  "assert_body P from_slice f body m =
     (if simple_assertions (hf_assertion f) \<noteq> None
      then do_simple_assertion P from_slice (hf_assertion f) (hf_request_uri f) body m
      else Some m)"

definition poll_body ::
  "'p path_env \<Rightarrow> (string \<Rightarrow> string + json) \<Rightarrow> poll_env \<Rightarrow> 'p http_request_future \<times> metrics
     \<Rightarrow> (bool \<times> 'p http_request_future \<times> metrics) option" where
  "poll_body P from_slice e = (\<lambda>(f, m).
     (case pe_body e of
        None \<Rightarrow> Some (False, f, m)
      | Some body \<Rightarrow>
          do { timer \<leftarrow> hf_timer f;
               (case body of
                  Inl _ \<Rightarrow> Some (True, f, m)
                | Inr body \<Rightarrow>
                    do { m \<leftarrow> assert_body P from_slice f body m;
                         (if \<not> hf_lua_executor_sender f then Some (True, f, m)
                          else let original = hf_original_request f; f = f\<lparr>hf_original_request := OriginalPlaceHolder\<rparr>
                            in if is_utf8 body
                               then (case original of
                                       OriginalRequest req \<Rightarrow> Some (poll_lua e (LuaCall body req) (f\<lparr>hf_body := False\<rparr>, m))
                                     | OriginalPlaceHolder \<Rightarrow> Some (True, f, m))
                               else Some (True, f, m)) }) }))"

definition poll_request ::
  "poll_env \<Rightarrow> 'p http_request_future \<times> metrics \<Rightarrow> (bool \<times> 'p http_request_future \<times> metrics) option" where
  "poll_request e = (\<lambda>(f, m).
     (case pe_request e of
        None \<Rightarrow> Some (False, f, m)
      | Some val \<Rightarrow>
          (let f = f\<lparr>hf_state := ResponseReceived\<rparr>
           in case val of
                Inr status \<Rightarrow>
                  do { timer \<leftarrow> hf_timer f;
                       (let elapsed = pe_now e - timer;
                            m = upstream_response_time status elapsed m;
                            m = upstream_request_status_count 1 status m
                        in Some (False, f\<lparr>hf_status := Some status, hf_body := True\<rparr>, m)) }
              | Inl err \<Rightarrow> Some (True, f, upstream_request_status_count 1 err m))))"

definition future_poll ::
  "'p path_env \<Rightarrow> (string \<Rightarrow> string + json) \<Rightarrow> poll_env \<Rightarrow> 'p http_request_future \<times> metrics
     \<Rightarrow> (bool \<times> 'p http_request_future \<times> metrics) option" where
  "future_poll P from_slice e fm =
     (let (f, m) = poll_begin e fm
      in case hf_lua_assert_future f of
           Some fut \<Rightarrow> Some (poll_lua e fut (f, m))
         | None \<Rightarrow>
             if hf_body f then poll_body P from_slice e (f, m)
             else if hf_state f = ResponseReceived then Some (True, f, m)
             else poll_request e (f, m))"

fun run_polls ::
  "'p path_env \<Rightarrow> (string \<Rightarrow> string + json) \<Rightarrow> poll_env list \<Rightarrow> 'p http_request_future \<times> metrics
     \<Rightarrow> (bool \<times> 'p http_request_future \<times> metrics) option" where
  "run_polls P from_slice [] (f, m) = Some (False, f, m)"
| "run_polls P from_slice (e # es) fm =
     (case future_poll P from_slice e fm of
        None \<Rightarrow> None
      | Some (ready, f, m) \<Rightarrow> if ready then Some (True, f, m) else run_polls P from_slice es (f, m))"

section \<open>Building the request\<close>

record request_env =
  uri_try_from :: "string \<Rightarrow> uri option"
  header_name_from :: "string \<Rightarrow> string option"
  header_value_from :: "string \<Rightarrow> string option"

record wire_request =
  wr_uri :: uri
  wr_method :: string
  wr_headers :: "(string \<times> string) list"
  wr_body :: string

definition try_add_header ::
  "request_env \<Rightarrow> (string \<times> string) list \<Rightarrow> string \<Rightarrow> string \<Rightarrow> string option \<times> (string \<times> string) list" where
  "try_add_header H headers k v =
     (case header_name_from H k of
        None \<Rightarrow> (None, headers)
      | Some header_name \<Rightarrow>
          (case header_value_from H v of
             None \<Rightarrow> (None, headers)
           | Some header_value \<Rightarrow> (Some header_name, map_insert header_name header_value headers)))"

definition send_single_requests ::
  "request_env \<Rightarrow> http_req \<Rightarrow> string \<Rightarrow> 'p response_assertion \<Rightarrow> bool \<Rightarrow> (wire_request \<times> 'p http_request_future) option" where
  "send_single_requests H req job_id assertion lua_executor_sender =
     (let body = (case hr_body req of Some body \<Rightarrow> body | None \<Rightarrow> [])
      in do { request_uri \<leftarrow> uri_try_from H (hr_url req);
              (let headers = fold (\<lambda>(k, v) hs. snd (try_add_header H hs k v)) (hr_headers req) []
               in Some (\<lparr>wr_uri = request_uri, wr_method = hr_method req, wr_headers = headers, wr_body = body\<rparr>,
                        \<lparr>hf_state = Init, hf_timer = None, hf_job_id = job_id, hf_body = False, hf_status = None,
                         hf_assertion = assertion, hf_request_uri = request_uri,
                         hf_original_request = OriginalRequest req, hf_lua_executor_sender = lua_executor_sender,
                         hf_lua_assert_future = None, hf_lua_sent = []\<rparr>)) })"

section \<open>The request as straight-line code\<close>

text \<open>\<open>await\<close> gives the first answer of a future over a sequence of polls, with the poll that
  returned it and those that are left.\<close>

fun await :: "(poll_env \<Rightarrow> 'x option) \<Rightarrow> poll_env list \<Rightarrow> ('x \<times> poll_env \<times> poll_env list) option" where
  "await fut [] = None"
| "await fut (e # es) = (case fut e of None \<Rightarrow> await fut es | Some x \<Rightarrow> Some (x, e, es))"

text \<open>The reference: count the request, wait for the response and record its status and the time it took, or the
  error, wait for the body, check it, and wait for the reply of the Lua executor. The result says whether the
  request is done.\<close>

definition await_lua :: "poll_env list \<Rightarrow> metrics \<Rightarrow> bool \<times> metrics" where
  "await_lua es m = (case await pe_lua es of None \<Rightarrow> (False, m) | Some (reply, _, _) \<Rightarrow> (True, lua_reply_metrics reply m))"

definition await_body ::
  "'p path_env \<Rightarrow> (string \<Rightarrow> string + json) \<Rightarrow> 'p http_request_future \<Rightarrow> poll_env list \<Rightarrow> metrics
     \<Rightarrow> (bool \<times> metrics) option" where
  "await_body P from_slice f es m =
     (case await pe_body es of
        None \<Rightarrow> Some (False, m)
      | Some (Inl _, _, _) \<Rightarrow> Some (True, m)
      | Some (Inr body, e, es) \<Rightarrow>
          do { m \<leftarrow> assert_body P from_slice f body m;
               Some (if hf_lua_executor_sender f \<and> is_utf8 body then await_lua (e # es) m else (True, m)) })"

definition request_outcome ::
  "'p path_env \<Rightarrow> (string \<Rightarrow> string + json) \<Rightarrow> 'p http_request_future \<Rightarrow> poll_env list \<Rightarrow> metrics
     \<Rightarrow> (bool \<times> metrics) option" where
  "request_outcome P from_slice f es m =
     (case es of
        [] \<Rightarrow> Some (False, m)
      | start # _ \<Rightarrow>
          (let m = upstream_request_count 1 m
           in case await pe_request es of
                None \<Rightarrow> Some (False, m)
              | Some (Inl err, _, _) \<Rightarrow> Some (True, upstream_request_status_count 1 err m)
              | Some (Inr status, e, es) \<Rightarrow>
                  await_body P from_slice f es (upstream_request_status_count 1 status
                    (upstream_response_time status (pe_now e - pe_now start) m))))"

section \<open>The state machine implements it\<close>

definition observed_run :: "(bool \<times> 'p http_request_future \<times> metrics) option \<Rightarrow> (bool \<times> metrics) option" where
  "observed_run r = map_option (\<lambda>(ready, f, m). (ready, m)) r"

lemma observed_run_simps [simp]:
  "observed_run None = None" "observed_run (Some (ready, f, m)) = Some (ready, m)"
  by (simp_all add: observed_run_def)

lemma run_polls_lua:
  assumes "hf_lua_assert_future f = Some LuaWaiting" "hf_state f \<noteq> Init"
  shows "observed_run (run_polls P from_slice es (f, m)) = Some (await_lua es m)"
  using assms
proof (induction es arbitrary: f)
  case (Cons e es)
  then show ?case
    by (cases "pe_lua e")
      (simp_all add: future_poll_def poll_begin_def poll_lua_def do_lua_assertion_def await_lua_def)
qed (simp add: await_lua_def)

lemma run_polls_lua_start:
  assumes "hf_state f \<noteq> Init"
  shows "observed_run (case poll_lua e (LuaCall body req) (f, m) of
           (ready, f, m) \<Rightarrow> if ready then Some (True, f, m) else run_polls P from_slice es (f, m))
         = Some (await_lua (e # es) m)"
  using assms
  by (cases "pe_lua e") (simp_all add: run_polls_lua poll_lua_def do_lua_assertion_def await_lua_def)

lemma run_polls_body:
  assumes "hf_lua_assert_future f = None" "hf_body f" "hf_state f = ResponseReceived" "hf_timer f = Some t"
    "hf_original_request f = OriginalRequest req"
  shows "observed_run (run_polls P from_slice es (f, m)) = await_body P from_slice f es m"
proof (induction es)
  case (Cons e es)
  let ?g = "f\<lparr>hf_original_request := OriginalPlaceHolder, hf_body := False\<rparr>"
  note lua = run_polls_lua_start [where f = ?g and e = e and req = req and es = es and P = P and from_slice = from_slice]
  from assms have p: "future_poll P from_slice e (f, m) = poll_body P from_slice e (f, m)"
    by (simp add: future_poll_def poll_begin_def)
  show ?case
  proof (cases "pe_body e")
    case None
    with Cons p show ?thesis by (simp add: poll_body_def await_body_def)
  next
    case (Some b)
    show ?thesis
    proof (cases b)
      case (Inl x)
      with Some p assms show ?thesis by (simp add: poll_body_def await_body_def)
    next
      case (Inr body)
      with Some p assms lua [of body] show ?thesis
        by (cases "assert_body P from_slice f body m") (simp_all add: poll_body_def await_body_def case_prod_unfold)
    qed
  qed
qed (simp add: await_body_def)

lemma await_body_cong:
  assumes "hf_assertion g = hf_assertion f" "hf_request_uri g = hf_request_uri f"
    "hf_lua_executor_sender g = hf_lua_executor_sender f"
  shows "await_body P from_slice g = await_body P from_slice f"
proof -
  have "assert_body P from_slice g = assert_body P from_slice f"
    by (intro ext) (simp add: assert_body_def assms)
  then show ?thesis unfolding await_body_def [abs_def] assms by (simp only:)
qed

lemma run_polls_request:
  assumes "hf_lua_assert_future f = None" "\<not> hf_body f" "hf_state f = RequestInProgress" "hf_timer f = Some t"
    "hf_original_request f = OriginalRequest req"
  shows "observed_run (run_polls P from_slice es (f, m)) =
    (case await pe_request es of
       None \<Rightarrow> Some (False, m)
     | Some (Inl err, _, _) \<Rightarrow> Some (True, upstream_request_status_count 1 err m)
     | Some (Inr status, e, es) \<Rightarrow>
         await_body P from_slice f es (upstream_request_status_count 1 status
           (upstream_response_time status (pe_now e - t) m)))"
proof (induction es)
  case (Cons e es)
  from assms have p: "future_poll P from_slice e (f, m) = poll_request e (f, m)"
    by (simp add: future_poll_def poll_begin_def)
  show ?case
  proof (cases "pe_request e")
    case None
    with Cons p show ?thesis by (simp add: poll_request_def)
  next
    case (Some b)
    have same: "await_body P from_slice (f\<lparr>hf_state := s, hf_status := v, hf_body := True\<rparr>) = await_body P from_slice f"
      for s v by (rule await_body_cong) simp_all
    from Some p assms run_polls_body [of "f\<lparr>hf_state := ResponseReceived, hf_status := v, hf_body := True\<rparr>" t req P from_slice es for v]
    show ?thesis by (cases b) (simp_all add: poll_request_def same)
  qed
qed simp

lemma fresh_request:
  assumes "send_single_requests H req job_id assertion lua = Some (w, f)"
  shows "hf_state f = Init" "hf_lua_assert_future f = None" "\<not> hf_body f" "hf_original_request f = OriginalRequest req"
    "hf_assertion f = assertion" "hf_lua_executor_sender f = lua" "uri_try_from H (hr_url req) = Some (hf_request_uri f)"
  using assms by (auto simp: send_single_requests_def Let_def bind_eq_Some_conv)

lemma run_polls_outcome:
  assumes "send_single_requests H req job_id assertion lua = Some (w, f)"
  shows "observed_run (run_polls P from_slice es (f, m)) = request_outcome P from_slice f es m"
proof (cases es)
  case (Cons e es')
  note fresh = fresh_request [OF assms]
  define g where "g = f\<lparr>hf_timer := Some (pe_now e), hf_state := RequestInProgress\<rparr>"
  have "future_poll P from_slice e (f, m) = future_poll P from_slice e (g, upstream_request_count 1 m)"
    by (simp add: future_poll_def poll_begin_def fresh g_def)
  then have "run_polls P from_slice es (f, m) = run_polls P from_slice es (g, upstream_request_count 1 m)"
    by (simp add: Cons)
  moreover have body: "await_body P from_slice g = await_body P from_slice f"
    by (rule await_body_cong) (simp_all add: g_def)
  moreover have "hf_lua_assert_future g = None" "\<not> hf_body g" "hf_state g = RequestInProgress"
    "hf_timer g = Some (pe_now e)" "hf_original_request g = OriginalRequest req" by (simp_all add: g_def fresh)
  note run_polls_request [OF this, of P from_slice es "upstream_request_count 1 m", unfolded body]
  ultimately show ?thesis unfolding request_outcome_def Cons list.case Let_def by (simp only:)
qed (simp add: request_outcome_def)

section \<open>Properties\<close>

definition demo_requests :: request_env where
  "demo_requests = \<lparr>uri_try_from = (\<lambda>u. Some \<lparr>uri_path = u, uri_query = None\<rparr>), header_name_from = Some, header_value_from = Some\<rparr>"

definition demo_http_req :: http_req where
  "demo_http_req = \<lparr>hr_id = [], hr_method = ''GET'', hr_url = ''/a'', hr_body = None, hr_headers = []\<rparr>"

definition demo_poll :: "nat \<Rightarrow> poll_env" where
  "demo_poll now = \<lparr>pe_now = now, pe_request = (if now < 7 then None else Some (Inr ''200'')), pe_body = Some (Inr ''x''),
     pe_lua = Some (LuaReply (Inl [LuaAssertionFailure 4 ExpectationEmpty]))\<rparr>"

text \<open>C18: polling the future of a request, however often and whatever the futures it waits for
  answer when, has the same effect on the metrics as the straight-line code \<open>request_outcome\<close>, and is done at
  the same poll: one request is counted when it starts, one status or error when the response is there,
  the response time only for a response, each failed assertion once.\<close>
theorem request_future_refines:
  assumes "send_single_requests H req job_id assertion lua_executor_sender = Some (w, f)"
  shows "observed_run (run_polls P from_slice es (f, m)) = request_outcome P from_slice f es m"
  by (rule run_polls_outcome [OF assms])

theorem request_future_refines_witness:
  "\<exists>w f. send_single_requests demo_requests demo_http_req ''j'' \<lparr>simple_assertions = None, lua_assertion = Some [''f'']\<rparr> True
       = Some (w, f)
     \<and> observed_run (run_polls key_paths (\<lambda>_. Inl []) [demo_poll 3, demo_poll 7, demo_poll 9] (f, new_metrics []))
       = Some (True, assertion_failure 4 ''LuaAssertionFailure'' (upstream_request_status_count 1 ''200''
           (upstream_response_time ''200'' 4 (upstream_request_count 1 (new_metrics [])))))"
proof -
  obtain w and f :: "string http_request_future" where s: "send_single_requests demo_requests demo_http_req ''j'' \<lparr>simple_assertions = None, lua_assertion = Some [''f'']\<rparr> True
      = Some (w, f)"
    by (auto simp: send_single_requests_def demo_requests_def Let_def)
  have "is_utf8 ''x''" by code_simp
  then have "request_outcome key_paths (\<lambda>_. Inl []) f [demo_poll 3, demo_poll 7, demo_poll 9] (new_metrics [])
      = Some (True, assertion_failure 4 ''LuaAssertionFailure'' (upstream_request_status_count 1 ''200''
          (upstream_response_time ''200'' 4 (upstream_request_count 1 (new_metrics [])))))"
    using fresh_request [OF s]
    by (simp add: request_outcome_def demo_poll_def await_body_def assert_body_def await_lua_def lua_reply_metrics_def
        generate_metrics_on_failure_def)
  with s request_future_refines [OF s, of key_paths "\<lambda>_. Inl []" "[demo_poll 3, demo_poll 7, demo_poll 9]" "new_metrics []"]
  show ?thesis by auto
qed

lemma request_body_never_holds: "as_expectation a = RequestBody path \<Longrightarrow> \<not> assertion_holds P url None response a"
  by (simp add: assertion_holds_def)

text \<open>An assertion that compares with the body of the request fails for every JSON response: the body is not
  passed on to the check.\<close>
theorem request_body_assertion_fails:
  assumes "simple_assertions A = Some as" "a \<in> set as" "as_expectation a = RequestBody path" "from_slice body = Inr j"
    and "\<forall>a \<in> set as. \<forall>name. as_expectation a = RequestQueryParam name \<longrightarrow> request_params url \<noteq> None"
  shows "\<exists>errs. do_simple_assertion P from_slice A url body m = Some (generate_metrics_on_failure m errs)
    \<and> as_id a \<in> set (map assertion_error_id errs)"
proof -
  let ?s = "\<lparr>errors = [], paths = None, params = None, all_matched = True\<rparr>"
  have "cache_ok url ?s" by (simp add: cache_ok_def)
  with assert_loop_spec [of url ?s as P None j] assms(5) obtain s' where s':
    "assert_loop P url None j as ?s = Some s'" "all_matched s' = (\<forall>a \<in> set as. assertion_holds P url None j a)"
    "error_ids s' = map as_id (filter (\<lambda>a. \<not> assertion_holds P url None j a) as)"
    by (auto simp: error_ids_def)
  have fails: "\<not> assertion_holds P url None j a" by (rule request_body_never_holds [OF assms(3)])
  with s'(3) assms(2) have "as_id a \<in> set (map assertion_error_id (errors s'))"
    unfolding error_ids_def by (metis (mono_tags, lifting) imageI list.set_map mem_Collect_eq set_filter)
  moreover from s'(2) fails assms(2) have "\<not> all_matched s'" by blast
  ultimately show ?thesis using s'(1) assms(1,4) by (auto simp: do_simple_assertion_def simple_assert_def)
qed

end
